(* ===== verification/Prelude.thy ===== *)
theory Prelude
  imports Main "HOL-Library.Word"
begin

text \<open>
  What the component theories share: machine integer types with the saturating operations of
  the Rust standard library, hash maps as key-distinct association lists (with the contract
  \<open>finite_store\<close> as a locale and its interpretation), text formatting of integers, and the
  state-error programs in which the stateful components are written, with the Hoare triples
  that carry their invariant proofs.
\<close>

named_theorems hoare_rules \<open>rules that decompose a Hoare triple along the program\<close>
named_theorems prog_simps \<open>unfolding of the program combinators on a concrete state\<close>

section \<open>Machine integers\<close>

type_synonym u16 = "16 word"
type_synonym u32 = "32 word"
type_synonym u64 = "64 word"

text \<open>\<open>u64::saturating_add\<close>, \<open>saturating_sub\<close> and \<open>saturating_mul\<close>.\<close>

definition sat_add :: "'a::len word \<Rightarrow> 'a word \<Rightarrow> 'a word" where
  "sat_add x y = (if unat x + unat y < 2 ^ LENGTH('a) then x + y else - 1)"

definition sat_sub :: "'a::len word \<Rightarrow> 'a word \<Rightarrow> 'a word" where
  "sat_sub x y = (if y \<le> x then x - y else 0)"

definition sat_mul :: "'a::len word \<Rightarrow> 'a word \<Rightarrow> 'a word" where
  "sat_mul x y = (if unat x * unat y < 2 ^ LENGTH('a) then x * y else - 1)"

lemma unat_minus_one_eq: "unat (- 1 :: 'a::len word) = 2 ^ LENGTH('a) - 1"
  by (simp add: unsigned_minus_1_eq_mask mask_eq_exp_minus_1)

lemma unat_sat_add:
  "unat (sat_add x (y :: 'a::len word)) = min (unat x + unat y) (2 ^ LENGTH('a) - 1)"
  by (auto simp: sat_add_def unat_word_ariths unat_minus_one_eq min_def)

lemma unat_sat_mul:
  "unat (sat_mul x (y :: 'a::len word)) = min (unat x * unat y) (2 ^ LENGTH('a) - 1)"
proof (cases "unat x * unat y < 2 ^ LENGTH('a)")
  case True
  then have "unat x * unat y \<le> 2 ^ LENGTH('a) - 1" by arith
  with True show ?thesis by (simp add: sat_mul_def unat_word_ariths)
next
  case False
  then have "2 ^ LENGTH('a) - 1 \<le> unat x * unat y" by arith
  with False show ?thesis by (simp only: sat_mul_def unat_minus_one_eq if_False min_absorb2)
qed

lemma unat_sat_sub: "unat (sat_sub x y) = unat x - unat y"
  by (auto simp: sat_sub_def unat_sub word_le_nat_alt)

lemma sat_add_mono: "x \<le> sat_add x (y :: 'a::len word)"
proof -
  have "unat x < 2 ^ LENGTH('a)" by (rule unsigned_less)
  then have "unat x \<le> 2 ^ LENGTH('a) - 1" by linarith
  then show ?thesis by (simp add: word_le_nat_alt unat_sat_add)
qed

text \<open>
  \<open>u64::try_from(n).unwrap_or(u64::MAX)\<close> and \<open>n.min(u64::MAX)\<close> for a wider natural
  number \<open>n\<close>.
\<close>

definition clamp_word :: "nat \<Rightarrow> 'a::len word" where
  "clamp_word n = (if n < 2 ^ LENGTH('a) then of_nat n else - 1)"

lemma unat_clamp_word: "unat (clamp_word n :: 'a::len word) = min n (2 ^ LENGTH('a) - 1)"
  by (auto simp: clamp_word_def unat_of_nat unat_minus_one_eq min_def)

section \<open>Formatting integers\<close>

text \<open>Decimal digits (\<open>{}\<close>) and fixed-width upper case hexadecimal (\<open>{:08X}\<close>).\<close>

fun show_nat :: "nat \<Rightarrow> string" where
  "show_nat n = (if n < 10 then [char_of (48 + n)]
                 else show_nat (n div 10) @ [char_of (48 + n mod 10)])"

declare show_nat.simps [simp del]

definition show_int :: "int \<Rightarrow> string" where
  "show_int i = (if i < 0 then ''-'' @ show_nat (nat (- i)) else show_nat (nat i))"

definition hex_digit :: "nat \<Rightarrow> char" where
  "hex_digit d = (if d < 10 then char_of (48 + d) else char_of (55 + d))"

fun hex_fixed :: "nat \<Rightarrow> nat \<Rightarrow> string" where
  "hex_fixed 0 n = []"
| "hex_fixed (Suc w) n = hex_fixed w (n div 16) @ [hex_digit (n mod 16)]"

lemma length_hex_fixed: "length (hex_fixed w n) = w"
  by (induction w arbitrary: n) auto

lemma show_nat_nonempty: "show_nat n \<noteq> []"
  by (subst show_nat.simps) simp

section \<open>Hash maps\<close>

text \<open>
  A Rust \<open>HashMap\<close> is an association list with distinct keys. The order of the list is
  not observable through these operations.
\<close>

type_synonym ('k, 'v) hmap = "('k \<times> 'v) list"

definition hm_get :: "('k, 'v) hmap \<Rightarrow> 'k \<Rightarrow> 'v option" where
  "hm_get m k = map_of m k"

definition hm_contains :: "('k, 'v) hmap \<Rightarrow> 'k \<Rightarrow> bool" where
  "hm_contains m k = (k \<in> set (map fst m))"

definition hm_remove :: "'k \<Rightarrow> ('k, 'v) hmap \<Rightarrow> ('k, 'v) hmap" where
  "hm_remove k m = filter (\<lambda>p. fst p \<noteq> k) m"

definition hm_insert :: "'k \<Rightarrow> 'v \<Rightarrow> ('k, 'v) hmap \<Rightarrow> ('k, 'v) hmap" where
  "hm_insert k v m = (k, v) # hm_remove k m"

definition hm_retain :: "('v \<Rightarrow> bool) \<Rightarrow> ('k, 'v) hmap \<Rightarrow> ('k, 'v) hmap" where
  "hm_retain P m = filter (\<lambda>p. P (snd p)) m"

definition hm_len :: "('k, 'v) hmap \<Rightarrow> nat" where
  "hm_len m = length m"

definition hm_ok :: "('k, 'v) hmap \<Rightarrow> bool" where
  "hm_ok m = distinct (map fst m)"

text \<open>What a client may rely on: lookups after updates, and a size that counts keys.\<close>

locale finite_store =
  fixes get :: "'m \<Rightarrow> 'k \<Rightarrow> 'v option"
    and insert :: "'k \<Rightarrow> 'v \<Rightarrow> 'm \<Rightarrow> 'm"
    and remove :: "'k \<Rightarrow> 'm \<Rightarrow> 'm"
    and len :: "'m \<Rightarrow> nat"
    and ok :: "'m \<Rightarrow> bool"
  assumes get_insert: "get (insert k v m) k' = (if k' = k then Some v else get m k')"
    and get_remove: "get (remove k m) k' = (if k' = k then None else get m k')"
    and len_insert: "ok m \<Longrightarrow> len (insert k v m) = (if get m k = None then Suc (len m) else len m)"
    and len_remove: "ok m \<Longrightarrow> len (remove k m) = (if get m k = None then len m else len m - 1)"
    and ok_insert: "ok m \<Longrightarrow> ok (insert k v m)"
    and ok_remove: "ok m \<Longrightarrow> ok (remove k m)"
begin

lemma insert_fresh_keeps: "get m k = None \<Longrightarrow> get m k' = Some v' \<Longrightarrow> get (insert k v m) k' = Some v'"
  by (auto simp: get_insert)

lemma insert_below_cap: "ok m \<Longrightarrow> len m < cap \<Longrightarrow> len (insert k v m) \<le> cap"
  by (auto simp: len_insert)

lemma remove_below_cap: "ok m \<Longrightarrow> len m \<le> cap \<Longrightarrow> len (remove k m) \<le> cap"
  by (auto simp: len_remove)

lemma removed_is_gone: "get (remove k m) k = None"
  by (simp add: get_remove)

end

lemma hm_get_remove: "hm_get (hm_remove k m) k' = (if k' = k then None else hm_get m k')"
  by (induction m) (auto simp: hm_get_def hm_remove_def)

lemma hm_get_insert: "hm_get (hm_insert k v m) k' = (if k' = k then Some v else hm_get m k')"
  by (auto simp: hm_insert_def hm_get_def) (auto simp: hm_get_remove[unfolded hm_get_def])

lemma hm_get_None: "hm_get m k = None \<longleftrightarrow> \<not> hm_contains m k"
  by (simp add: hm_get_def hm_contains_def map_of_eq_None_iff)

lemma hm_remove_absent: "\<not> hm_contains m k \<Longrightarrow> hm_remove k m = m"
  by (auto simp: hm_remove_def hm_contains_def intro!: filter_True)

lemma hm_len_remove:
  "hm_ok m \<Longrightarrow> hm_len (hm_remove k m) = (if hm_get m k = None then hm_len m else hm_len m - 1)"
proof (induction m)
  case Nil
  then show ?case by (simp add: hm_len_def hm_remove_def hm_get_def)
next
  case (Cons p m)
  then have "hm_ok m" by (simp add: hm_ok_def)
  show ?case
  proof (cases "fst p = k")
    case True
    with Cons.prems have "\<not> hm_contains m k" by (simp add: hm_ok_def hm_contains_def)
    with True show ?thesis
      by (cases p) (simp add: hm_len_def hm_get_def hm_remove_def hm_remove_absent[unfolded hm_remove_def])
  next
    case False
    with Cons.IH[OF \<open>hm_ok m\<close>] show ?thesis
      by (cases p; cases "hm_get m k")
        (auto simp: hm_len_def hm_get_def hm_remove_def neq_Nil_conv dest: map_of_SomeD split: list.splits,
          metis Suc_pred length_greater_0_conv list.distinct(1) list.set_cases map_of_SomeD)
  qed
qed

lemma hm_ok_remove: "hm_ok m \<Longrightarrow> hm_ok (hm_remove k m)"
  by (simp add: hm_ok_def hm_remove_def distinct_map_filter)

lemma hm_ok_insert: "hm_ok m \<Longrightarrow> hm_ok (hm_insert k v m)"
  using hm_ok_remove[of m k] by (auto simp: hm_ok_def hm_insert_def hm_remove_def)

lemma hm_len_insert:
  "hm_ok m \<Longrightarrow> hm_len (hm_insert k v m) = (if hm_get m k = None then Suc (hm_len m) else hm_len m)"
proof -
  assume ok: "hm_ok m"
  have "hm_len (hm_insert k v m) = Suc (hm_len (hm_remove k m))"
    by (simp add: hm_insert_def hm_len_def)
  moreover have "hm_get m k \<noteq> None \<Longrightarrow> 0 < hm_len m"
    by (cases m) (auto simp: hm_get_def hm_len_def)
  ultimately show ?thesis using hm_len_remove[OF ok, of k] by auto
qed

interpretation hm: finite_store hm_get hm_insert hm_remove hm_len hm_ok
  by unfold_locales
    (simp_all only: hm_get_insert hm_get_remove hm_len_insert hm_len_remove hm_ok_insert hm_ok_remove)

lemma hm_ok_retain: "hm_ok m \<Longrightarrow> hm_ok (hm_retain P m)"
  by (simp add: hm_ok_def hm_retain_def distinct_map_filter)

lemma hm_len_retain: "hm_len (hm_retain P m) \<le> hm_len m"
  by (simp add: hm_len_def hm_retain_def)

lemma hm_get_retain:
  "hm_ok m \<Longrightarrow> hm_get (hm_retain P m) k =
     (case hm_get m k of None \<Rightarrow> None | Some v \<Rightarrow> if P v then Some v else None)"
proof (induction m)
  case Nil
  then show ?case by (simp add: hm_get_def hm_retain_def)
next
  case (Cons p m)
  then have ok: "hm_ok m" and fresh: "fst p \<notin> set (map fst m)" by (simp_all add: hm_ok_def)
  from fresh have "hm_get m (fst p) = None" by (simp add: hm_get_def map_of_eq_None_iff)
  with Cons.IH[OF ok] show ?case
    by (cases p) (auto simp: hm_get_def hm_retain_def split: option.splits)
qed

end
