(* ===== verification/Programs.thy ===== *)
theory Programs
  imports Prelude
begin

text \<open>
  The programs of the model. A Rust function that reads and writes state, may fail with an
  error \<open>'e\<close> and may, in principle, not return is a function from a state to
  \<open>None\<close> (it does not return within the supplies the state holds: random tokens, fuel) or
  to an outcome with the state it leaves. An error does not roll the state back: exactly
  what the code wrote before the error stays written.

  Hoare triples \<open>hoare P m Q E\<close> state what holds after a normal return (\<open>Q\<close>, of
  the value and the state) and after an error (\<open>E\<close>).
\<close>

type_synonym ('s, 'e, 'a) prog = "'s \<Rightarrow> (('e + 'a) \<times> 's) option"

definition ret :: "'a \<Rightarrow> ('s, 'e, 'a) prog" where
  "ret x = (\<lambda>s. Some (Inr x, s))"

definition throw :: "'e \<Rightarrow> ('s, 'e, 'a) prog" where
  "throw e = (\<lambda>s. Some (Inl e, s))"

definition diverge :: "('s, 'e, 'a) prog" where
  "diverge = (\<lambda>s. None)"

definition bindp :: "('s, 'e, 'a) prog \<Rightarrow> ('a \<Rightarrow> ('s, 'e, 'b) prog) \<Rightarrow> ('s, 'e, 'b) prog" where
  "bindp m k = (\<lambda>s. case m s of
       None \<Rightarrow> None
     | Some (Inl e, s') \<Rightarrow> Some (Inl e, s')
     | Some (Inr x, s') \<Rightarrow> k x s')"

definition seqp :: "('s, 'e, 'a) prog \<Rightarrow> ('s, 'e, 'b) prog \<Rightarrow> ('s, 'e, 'b) prog" where
  "seqp m k = bindp m (\<lambda>_. k)"

text \<open>\<open>match m \{ Ok(x) => .., Err(e) => .. \}\<close>: the outcome as a value.\<close>

definition attempt :: "('s, 'e, 'a) prog \<Rightarrow> ('s, 'f, 'e + 'a) prog" where
  "attempt m = (\<lambda>s. case m s of None \<Rightarrow> None | Some (r, s') \<Rightarrow> Some (Inr r, s'))"

definition lift_result :: "'e + 'a \<Rightarrow> ('s, 'e, 'a) prog" where
  "lift_result r = (\<lambda>s. Some (r, s))"

text \<open>\<open>m.map_err(f)\<close>.\<close>

definition map_errp :: "('e \<Rightarrow> 'f) \<Rightarrow> ('s, 'e, 'a) prog \<Rightarrow> ('s, 'f, 'a) prog" where
  "map_errp f m = (\<lambda>s. case m s of None \<Rightarrow> None
     | Some (Inl e, s') \<Rightarrow> Some (Inl (f e), s')
     | Some (Inr x, s') \<Rightarrow> Some (Inr x, s'))"

definition gets :: "('s \<Rightarrow> 'a) \<Rightarrow> ('s, 'e, 'a) prog" where
  "gets f = (\<lambda>s. Some (Inr (f s), s))"

definition modifyp :: "('s \<Rightarrow> 's) \<Rightarrow> ('s, 'e, unit) prog" where
  "modifyp f = (\<lambda>s. Some (Inr (), f s))"

text \<open>A state transformer that returns a value and never fails.\<close>

definition effect :: "('s \<Rightarrow> 'a \<times> 's) \<Rightarrow> ('s, 'e, 'a) prog" where
  "effect f = (\<lambda>s. case f s of (x, s') \<Rightarrow> Some (Inr x, s'))"

text \<open>A program on a part of the state (\<open>\&mut s.field\<close>).\<close>

definition zoom ::
  "('s \<Rightarrow> 't) \<Rightarrow> ('t \<Rightarrow> 's \<Rightarrow> 's) \<Rightarrow> ('t, 'e, 'a) prog \<Rightarrow> ('s, 'e, 'a) prog" where
  "zoom get put m = (\<lambda>s. case m (get s) of None \<Rightarrow> None | Some (r, t) \<Rightarrow> Some (r, put t s))"

text \<open>\<open>for x in xs \{ body(x)?; \}\<close>, collecting what the body yields.\<close>

fun for_each :: "'b list \<Rightarrow> ('b \<Rightarrow> ('s, 'e, 'a) prog) \<Rightarrow> ('s, 'e, 'a list) prog" where
  "for_each [] body = ret []"
| "for_each (x # xs) body =
     bindp (body x) (\<lambda>y. bindp (for_each xs body) (\<lambda>ys. ret (y # ys)))"

lemmas prog_defs =
  ret_def throw_def diverge_def bindp_def seqp_def attempt_def lift_result_def map_errp_def
  gets_def modifyp_def effect_def zoom_def

section \<open>Evaluation on a state\<close>

lemma run_simps [prog_simps]:
  "ret x s = Some (Inr x, s)"
  "throw e s = Some (Inl e, s)"
  "diverge s = None"
  "gets f s = Some (Inr (f s), s)"
  "modifyp g s = Some (Inr (), g s)"
  "lift_result r s = Some (r, s)"
  by (simp_all add: prog_defs)

lemma bindp_run [prog_simps]:
  "m s = None \<Longrightarrow> bindp m k s = None"
  "m s = Some (Inl e, s') \<Longrightarrow> bindp m k s = Some (Inl e, s')"
  "m s = Some (Inr x, s') \<Longrightarrow> bindp m k s = k x s'"
  by (simp_all add: bindp_def)

lemma bindp_eq_Inr:
  "bindp m k s = Some (Inr y, t) \<longleftrightarrow> (\<exists>x s'. m s = Some (Inr x, s') \<and> k x s' = Some (Inr y, t))"
  by (auto simp: bindp_def split: option.splits prod.splits sum.splits)

lemma bindp_eq_Inl:
  "bindp m k s = Some (Inl e, t) \<longleftrightarrow>
     m s = Some (Inl e, t) \<or> (\<exists>x s'. m s = Some (Inr x, s') \<and> k x s' = Some (Inl e, t))"
  by (auto simp: bindp_def split: option.splits prod.splits sum.splits)

lemma bindp_returns:
  "m s \<noteq> None \<Longrightarrow> (\<And>x s'. m s = Some (Inr x, s') \<Longrightarrow> k x s' \<noteq> None) \<Longrightarrow> bindp m k s \<noteq> None"
  by (auto simp: bindp_def split: option.splits prod.splits sum.splits)

lemma bindp_assoc: "bindp (bindp m k) h = bindp m (\<lambda>x. bindp (k x) h)"
  by (rule ext) (auto simp: bindp_def split: option.splits prod.splits sum.splits)

lemma bindp_ret: "bindp (ret x) k = k x"
  by (rule ext) (simp add: prog_defs)

lemma bindp_throw: "bindp (throw e) k = throw e"
  by (rule ext) (simp add: prog_defs)

text \<open>Loops that may not return are partial functions; their bodies are built with \<open>bindp\<close>.\<close>

lemma bindp_mono [partial_function_mono]:
  fixes B :: "('i \<Rightarrow> 'o option) \<Rightarrow> ('s, 'e, 'a) prog"
    and C :: "('i \<Rightarrow> 'o option) \<Rightarrow> 'a \<Rightarrow> ('s, 'e, 'b) prog"
  assumes "\<And>s. mono_option (\<lambda>f. B f s)" and "\<And>y s. mono_option (\<lambda>f. C f y s)"
  shows "mono_option (\<lambda>f. bindp (B f) (C f) s)"
proof (rule monotoneI)
  fix f g :: "'i \<Rightarrow> 'o option"
  assume fg: "option.le_fun f g"
  have b: "option_ord (B f s) (B g s)" by (rule monotoneD[OF assms(1), OF fg])
  have c: "option_ord (C f y t) (C g y t)" for y t by (rule monotoneD[OF assms(2), OF fg])
  show "option_ord (bindp (B f) (C f) s) (bindp (B g) (C g) s)"
  proof (cases "B f s")
    case None
    then show ?thesis by (simp add: bindp_def flat_ord_def)
  next
    case (Some p)
    with b have "B g s = Some p" by (simp add: flat_ord_def)
    with Some c show ?thesis by (cases p; cases "fst p") (simp_all add: bindp_def flat_ord_def)
  qed
qed

section \<open>Hoare triples\<close>

definition hoare ::
  "('s \<Rightarrow> bool) \<Rightarrow> ('s, 'e, 'a) prog \<Rightarrow> ('a \<Rightarrow> 's \<Rightarrow> bool) \<Rightarrow> ('e \<Rightarrow> 's \<Rightarrow> bool) \<Rightarrow> bool" where
  "hoare P m Q E = (\<forall>s. P s \<longrightarrow> (case m s of None \<Rightarrow> True
       | Some (Inl e, t) \<Rightarrow> E e t | Some (Inr x, t) \<Rightarrow> Q x t))"

lemma hoareI:
  "(\<And>s x t. P s \<Longrightarrow> m s = Some (Inr x, t) \<Longrightarrow> Q x t) \<Longrightarrow>
   (\<And>s e t. P s \<Longrightarrow> m s = Some (Inl e, t) \<Longrightarrow> E e t) \<Longrightarrow> hoare P m Q E"
  by (auto simp: hoare_def split: option.splits sum.splits)

lemma hoareD_Inr: "hoare P m Q E \<Longrightarrow> P s \<Longrightarrow> m s = Some (Inr x, t) \<Longrightarrow> Q x t"
  by (auto simp: hoare_def split: option.splits sum.splits)

lemma hoareD_Inl: "hoare P m Q E \<Longrightarrow> P s \<Longrightarrow> m s = Some (Inl e, t) \<Longrightarrow> E e t"
  by (auto simp: hoare_def split: option.splits sum.splits)

lemma hoare_outcome:
  "hoare P m Q E \<Longrightarrow> P s \<Longrightarrow> m s = Some (r, t) \<Longrightarrow> case r of Inr x \<Rightarrow> Q x t | Inl e \<Rightarrow> E e t"
  by (cases r) (auto dest: hoareD_Inr hoareD_Inl)

lemma hoare_cons:
  "hoare P' m Q' E' \<Longrightarrow> (\<And>s. P s \<Longrightarrow> P' s) \<Longrightarrow> (\<And>x s. Q' x s \<Longrightarrow> Q x s) \<Longrightarrow>
   (\<And>e s. E' e s \<Longrightarrow> E e s) \<Longrightarrow> hoare P m Q E"
  by (fastforce simp: hoare_def split: option.splits sum.splits)

lemma hoare_pre: "hoare P' m Q E \<Longrightarrow> (\<And>s. P s \<Longrightarrow> P' s) \<Longrightarrow> hoare P m Q E"
  by (rule hoare_cons)

lemma hoare_ret [hoare_rules]: "hoare (Q x) (ret x) Q E"
  by (simp add: hoare_def ret_def)

lemma hoare_throw [hoare_rules]: "hoare (E e) (throw e) Q E"
  by (simp add: hoare_def throw_def)

lemma hoare_diverge [hoare_rules]: "hoare (\<lambda>_. True) diverge Q E"
  by (simp add: hoare_def diverge_def)

lemma hoare_gets [hoare_rules]: "hoare (\<lambda>s. Q (f s) s) (gets f) Q E"
  by (simp add: hoare_def gets_def)

lemma hoare_modifyp [hoare_rules]: "hoare (\<lambda>s. Q () (f s)) (modifyp f) Q E"
  by (simp add: hoare_def modifyp_def)

lemma hoare_lift_result [hoare_rules]:
  "hoare (\<lambda>s. case r of Inl e \<Rightarrow> E e s | Inr x \<Rightarrow> Q x s) (lift_result r) Q E"
  by (auto simp: hoare_def lift_result_def split: sum.splits)

lemma hoare_effect [hoare_rules]:
  "hoare (\<lambda>s. case f s of (x, s') \<Rightarrow> Q x s') (effect f) Q E"
  by (auto simp: hoare_def effect_def split: prod.splits)

lemma hoare_bindp [hoare_rules]:
  "(\<And>x. hoare (R x) (k x) Q E) \<Longrightarrow> hoare P m R E \<Longrightarrow> hoare P (bindp m k) Q E"
  by (rule hoareI) (fastforce simp: bindp_eq_Inr bindp_eq_Inl dest: hoareD_Inr hoareD_Inl)+

lemma hoare_seqp [hoare_rules]:
  "hoare R k Q E \<Longrightarrow> hoare P m (\<lambda>_. R) E \<Longrightarrow> hoare P (seqp m k) Q E"
  unfolding seqp_def by (rule hoare_bindp)

lemma hoare_attempt [hoare_rules]:
  "hoare P m (\<lambda>x. Q (Inr x)) (\<lambda>e. Q (Inl e)) \<Longrightarrow> hoare P (attempt m) Q E"
proof (rule hoareI)
  fix s r t
  assume h: "hoare P m (\<lambda>x. Q (Inr x)) (\<lambda>e. Q (Inl e))" and "P s"
    and "attempt m s = Some (Inr r, t)"
  then have "m s = Some (r, t)" by (auto simp: attempt_def split: option.splits)
  with h \<open>P s\<close> show "Q r t" by (cases r) (auto dest: hoareD_Inr hoareD_Inl)
qed (auto simp: attempt_def split: option.splits)

lemma hoare_map_errp [hoare_rules]:
  "hoare P m Q (\<lambda>e. E (f e)) \<Longrightarrow> hoare P (map_errp f m) Q E"
  by (auto simp: hoare_def map_errp_def split: option.splits sum.splits)

lemma hoare_if [hoare_rules]:
  "(b \<Longrightarrow> hoare P m Q E) \<Longrightarrow> (\<not> b \<Longrightarrow> hoare P' n Q E) \<Longrightarrow>
   hoare (\<lambda>s. if b then P s else P' s) (if b then m else n) Q E"
  by simp

lemma hoare_inv_bindp:
  "hoare I m (\<lambda>_. I) (\<lambda>_. I) \<Longrightarrow> (\<And>x. hoare I (k x) Q (\<lambda>_. I)) \<Longrightarrow> hoare I (bindp m k) Q (\<lambda>_. I)"
  by (rule hoare_bindp)

lemma hoare_for_each:
  "(\<And>x. x \<in> set xs \<Longrightarrow> hoare I (body x) (\<lambda>_. I) E) \<Longrightarrow> hoare I (for_each xs body) (\<lambda>_. I) E"
proof (induction xs)
  case Nil
  then show ?case by (auto simp: ret_def hoare_def)
next
  case (Cons x xs)
  have "hoare I (for_each xs body) (\<lambda>_. I) E" by (rule Cons.IH) (simp add: Cons.prems)
  moreover have "hoare I (body x) (\<lambda>_. I) E" by (rule Cons.prems) simp
  ultimately show ?case
    by (auto intro!: hoare_bindp hoare_ret[THEN hoare_pre])
qed

text \<open>An operation that leaves a predicate alone, whatever its outcome.\<close>

definition preserves :: "('s, 'e, 'a) prog \<Rightarrow> ('s \<Rightarrow> bool) \<Rightarrow> bool" where
  "preserves m I = hoare I m (\<lambda>_. I) (\<lambda>_. I)"

lemma preservesD: "preserves m I \<Longrightarrow> I s \<Longrightarrow> m s = Some (r, t) \<Longrightarrow> I t"
  by (cases r) (auto simp: preserves_def dest: hoareD_Inr hoareD_Inl)

lemma preservesI: "(\<And>s r t. I s \<Longrightarrow> m s = Some (r, t) \<Longrightarrow> I t) \<Longrightarrow> preserves m I"
  unfolding preserves_def by (rule hoareI) blast+

lemma preserves_hoare:
  "preserves m I \<Longrightarrow> (\<And>s x t. m s = Some (Inr x, t) \<Longrightarrow> Q x) \<Longrightarrow>
   hoare I m (\<lambda>x t. I t \<and> Q x) (\<lambda>_. I)"
  by (rule hoareI) (blast dest: preservesD)+

named_theorems preserves_rules \<open>an invariant is kept by a compound program when its parts keep it\<close>

lemma preserves_basic [preserves_rules]:
  "preserves (ret x) I" "preserves (throw e) I" "preserves diverge I" "preserves (gets f) I"
  "preserves (lift_result r) I"
  by (simp_all add: preserves_def hoare_def prog_defs split: sum.splits)

lemma preserves_bindp [preserves_rules]:
  "preserves m I \<Longrightarrow> (\<And>x. preserves (k x) I) \<Longrightarrow> preserves (bindp m k) I"
  unfolding preserves_def by (rule hoare_bindp)

lemma preserves_seqp [preserves_rules]:
  "preserves m I \<Longrightarrow> preserves k I \<Longrightarrow> preserves (seqp m k) I"
  unfolding preserves_def by (rule hoare_seqp)

lemma preserves_attempt [preserves_rules]: "preserves m I \<Longrightarrow> preserves (attempt m) I"
  unfolding preserves_def by (rule hoare_attempt) simp

lemma preserves_map_errp [preserves_rules]: "preserves m I \<Longrightarrow> preserves (map_errp f m) I"
  unfolding preserves_def by (rule hoare_map_errp) simp

lemma preserves_modifyp [preserves_rules]: "(\<And>s. I s \<Longrightarrow> I (f s)) \<Longrightarrow> preserves (modifyp f) I"
  by (simp add: preserves_def hoare_def modifyp_def)

lemma preserves_for_each [preserves_rules]:
  "(\<And>x. preserves (body x) I) \<Longrightarrow> preserves (for_each xs body) I"
  unfolding preserves_def by (rule hoare_for_each)

lemma preserves_if [preserves_rules]:
  "(b \<Longrightarrow> preserves m I) \<Longrightarrow> (\<not> b \<Longrightarrow> preserves n I) \<Longrightarrow> preserves (if b then m else n) I"
  by simp

lemma preserves_case_option [preserves_rules]:
  "(x = None \<Longrightarrow> preserves m I) \<Longrightarrow> (\<And>y. x = Some y \<Longrightarrow> preserves (k y) I) \<Longrightarrow>
   preserves (case x of None \<Rightarrow> m | Some y \<Rightarrow> k y) I"
  by (cases x) simp_all

lemma preserves_case_sum [preserves_rules]:
  "(\<And>y. x = Inl y \<Longrightarrow> preserves (h y) I) \<Longrightarrow> (\<And>y. x = Inr y \<Longrightarrow> preserves (k y) I) \<Longrightarrow>
   preserves (case x of Inl y \<Rightarrow> h y | Inr y \<Rightarrow> k y) I"
  by (cases x) simp_all

lemma preserves_case_prod [preserves_rules]:
  "(\<And>y z. x = (y, z) \<Longrightarrow> preserves (k y z) I) \<Longrightarrow> preserves (case x of (y, z) \<Rightarrow> k y z) I"
  by (cases x) simp_all

section \<open>Loops of turns\<close>

text \<open>
  A loop whose turn ends it with a result (\<open>Inr\<close>) or goes on with a new loop state (\<open>Inl\<close>);
  \<open>None\<close> when it never ends.
\<close>

partial_function (option) repeat_turns ::
  "('i \<Rightarrow> ('s, 'e, 'i + 'a) prog) \<Rightarrow> 'i \<Rightarrow> 's \<Rightarrow> (('e + 'a) \<times> 's) option" where
  "repeat_turns turn it s =
     bindp (turn it) (\<lambda>r. case r of Inl it' \<Rightarrow> repeat_turns turn it' | Inr out \<Rightarrow> ret out) s"

declare repeat_turns.simps [code]

lemma repeat_turns_unfold:
  "repeat_turns turn x = bindp (turn x) (\<lambda>r. case r of Inl x' \<Rightarrow> repeat_turns turn x' | Inr y \<Rightarrow> ret y)"
  by (rule ext) (rule repeat_turns.simps)

lemma repeat_turns_inv:
  "repeat_turns turn x s = Some y \<Longrightarrow> (\<And>x. preserves (turn x) I) \<Longrightarrow> I s \<Longrightarrow> I (snd y)"
proof (induction rule: repeat_turns.raw_induct[rotated, consumes 1, case_names turn])
  case (turn loop turn x s y)
  from turn(2) obtain r s1 where once: "turn x s = Some (r, s1)"
    by (cases "turn x s") (auto simp: bindp_def)
  have "I s1" using preservesD[OF turn(3) turn(4) once] .
  with turn(1,2) turn(3) once show ?case
    by (cases r) (auto simp: bindp_def ret_def split: sum.splits)
qed

lemma preserves_repeat_turns [preserves_rules]:
  "(\<And>x. preserves (turn x) I) \<Longrightarrow> preserves (repeat_turns turn x) I"
proof (rule preservesI)
  fix s r t
  assume "\<And>x. preserves (turn x) I" and "I s" and "repeat_turns turn x s = Some (r, t)"
  then show "I t" using repeat_turns_inv[of turn x s "(r, t)" I] by simp
qed

lemma repeat_turns_returns:
  assumes wf: "wf R" and total: "\<And>x s. turn x s \<noteq> None"
    and less: "\<And>x s x' s'. turn x s = Some (Inr (Inl x'), s') \<Longrightarrow> ((x', s'), (x, s)) \<in> R"
  shows "repeat_turns turn x s \<noteq> None"
proof (induction "(x, s)" arbitrary: x s rule: wf_induct_rule[OF wf])
  case 1
  show ?case
    unfolding repeat_turns_unfold[of turn x]
  proof (rule bindp_returns[OF total])
    fix r s1
    assume "turn x s = Some (Inr r, s1)"
    with 1 less show "(case r of Inl x' \<Rightarrow> repeat_turns turn x' | Inr y \<Rightarrow> ret y) s1 \<noteq> None"
      by (cases r) (auto simp: ret_def)
  qed
qed

end
