(* ===== verification/Errors.thy ===== *)
theory Errors
  imports Programs
begin

text \<open>
  \<open>opc-da-client/src/errors.rs\<close>: the error type of the library, its display text, the
  HRESULT hints and the classification of native errors that decides between falling back,
  skipping and failing.

  A Rust \<open>String\<close> is the list of its UTF-8 bytes. \<open>dbg_str\<close> is the \<open>\{:?\}\<close> of a string:
  ASCII is escaped as \<open>core::fmt\<close> does, bytes from 0x80 on pass through (so the
  Unicode tables that escape unprintable characters outside ASCII are not modelled).
  The text of a \<open>windows::core::Error\<close> comes from the operating system and is part of the
  error value.
\<close>

datatype opc_error =
    Com u32 string  \<comment> \<open>\<open>source.code()\<close> and the display text of \<open>source\<close>\<close>
  | Connection string
  | Server string u32
  | Conversion string
  | InvalidState string
  | NotImplemented string
  | BrowseNonProgress (np_iterator_type: string) (np_browse_path: string)
      (np_repeated_value: string) (np_consecutive: nat) (np_yielded: nat)
  | BrowseContinuationNonProgress string string
  | Internal string

section \<open>Text\<close>

definition hex_digit_lower :: "nat \<Rightarrow> char" where
  "hex_digit_lower d = (if d < 10 then char_of (48 + d) else char_of (87 + d))"

definition dbg_char :: "char \<Rightarrow> string" where
  "dbg_char c =
     (let n = of_char c :: nat in
      if n = 0 then [CHR 92, CHR ''0'']
      else if n = 9 then [CHR 92, CHR ''t'']
      else if n = 10 then [CHR 92, CHR ''n'']
      else if n = 13 then [CHR 92, CHR ''r'']
      else if n = 34 then [CHR 92, CHR 34]
      else if n = 92 then [CHR 92, CHR 92]
      else if n < 16 then [CHR 92, CHR ''u'', CHR 123, hex_digit_lower n, CHR 125]
      else if n < 32 \<or> n = 127 then
        [CHR 92, CHR ''u'', CHR 123, hex_digit_lower (n div 16), hex_digit_lower (n mod 16), CHR 125]
      else [c])"

definition dbg_str :: "string \<Rightarrow> string" where
  "dbg_str s = [CHR 34] @ concat (map dbg_char s) @ [CHR 34]"

fun join :: "string \<Rightarrow> string list \<Rightarrow> string" where
  "join sep [] = []"
| "join sep [x] = x"
| "join sep (x # y # xs) = x @ sep @ join sep (y # xs)"

definition em_dash :: string where
  "em_dash = [CHR 0xE2, CHR 0x80, CHR 0x94]"

definition hex8 :: "u32 \<Rightarrow> string" where
  "hex8 w = ''0x'' @ hex_fixed 8 (unat w)"

definition format_browse_path :: "string list \<Rightarrow> string" where
  "format_browse_path path =
     (if path = [] then ''<root>'' else join '' > '' (map dbg_str path))"

section \<open>Hints\<close>

definition friendly_hresult_hint :: "u32 \<Rightarrow> string option" where
  "friendly_hresult_hint hr =
     (if hr = 0x80040112 then Some ''Server license does not permit OPC client connections''
      else if hr = 0x80080005 then
        Some (''Server process failed to start '' @ em_dash @ '' check if it is installed and running'')
      else if hr = 0x80070005 then
        Some (''Access denied '' @ em_dash @ '' DCOM launch/activation permissions not configured for this user'')
      else if hr = 0x800706BA then
        Some (''RPC server unavailable '' @ em_dash @ '' the target host may be offline or blocking RPC'')
      else if hr = 0x800706F4 then
        Some (''COM marshalling error '' @ em_dash @ '' try restarting the OPC server'')
      else if hr = 0x80040154 then Some ''Server is not registered on this machine''
      else if hr = 0x80004003 then Some ''Invalid pointer (E_POINTER)''
      else if hr = 0xC0040004 then
        Some (''Server rejected write '' @ em_dash @ '' the item may be read-only (OPC_E_BADRIGHTS)'')
      else if hr = 0xC0040006 then
        Some (''Data type mismatch '' @ em_dash @ '' server cannot convert the written value (OPC_E_BADTYPE)'')
      else if hr = 0xC0040007 then Some ''Item ID not found in server address space (OPC_E_UNKNOWNITEMID)''
      else if hr = 0xC0040008 then Some ''Item ID syntax is invalid for this server (OPC_E_INVALIDITEMID)''
      else None)"

definition format_hresult :: "u32 \<Rightarrow> string" where
  "format_hresult hr =
     (case friendly_hresult_hint hr of
        Some hint \<Rightarrow> hex8 hr @ '': '' @ hint
      | None \<Rightarrow> hex8 hr)"

fun friendly_com_hint :: "opc_error \<Rightarrow> string option" where
  "friendly_com_hint (Com code text) = friendly_hresult_hint code"
| "friendly_com_hint _ = None"

text \<open>The \<open>Display\<close> of the error (\<open>thiserror\<close> attributes).\<close>

fun show_error :: "opc_error \<Rightarrow> string" where
  "show_error (Com code text) = ''COM error: '' @ text @ '' ('' @
     (case friendly_hresult_hint code of Some h \<Rightarrow> h | None \<Rightarrow> ''No hint available'') @ '')''"
| "show_error (Connection m) = ''Connection failed: '' @ m"
| "show_error (Server m code) = ''Server error: '' @ m @ '' ('' @ hex8 code @ '')''"
| "show_error (Conversion m) = ''Data conversion failed: '' @ m"
| "show_error (InvalidState m) = ''Invalid state: '' @ m"
| "show_error (NotImplemented m) = ''Not implemented: '' @ m"
| "show_error (BrowseNonProgress ty path val consecutive yielded) =
     ''OPC DA browse iterator '' @ ty @ '' made no progress at browse path '' @ path @
     '': repeated value '' @ dbg_str val @ '' for '' @ show_nat consecutive @
     '' consecutive results after '' @ show_nat yielded @ '' values''"
| "show_error (BrowseContinuationNonProgress path detail) =
     ''OPC DA browse continuation made no progress at browse path '' @ path @ '': '' @ detail"
| "show_error (Internal m) = ''Internal error: '' @ m"

section \<open>Classification\<close>

definition E_INVALIDARG_HRESULT :: u32 where "E_INVALIDARG_HRESULT = 0x80070057"
definition E_NOTIMPL_HRESULT :: u32 where "E_NOTIMPL_HRESULT = 0x80004001"
definition RPC_X_NULL_REF_POINTER_HRESULT :: u32 where "RPC_X_NULL_REF_POINTER_HRESULT = 0x800706F4"
definition MAX_CONSECUTIVE_IDENTICAL_BROWSE_VALUES :: nat where
  "MAX_CONSECUTIVE_IDENTICAL_BROWSE_VALUES = 64"
definition MAX_CONSECUTIVE_EMPTY_DA3_PAGES :: nat where
  "MAX_CONSECUTIVE_EMPTY_DA3_PAGES = MAX_CONSECUTIVE_IDENTICAL_BROWSE_VALUES"

fun com_hresult :: "opc_error \<Rightarrow> u32 option" where
  "com_hresult (Com code text) = Some code"
| "com_hresult _ = None"

definition is_com_hresult :: "opc_error \<Rightarrow> u32 \<Rightarrow> bool" where
  "is_com_hresult error expected = (com_hresult error = Some expected)"

definition is_da3_browse_compatibility_error :: "opc_error \<Rightarrow> bool" where
  "is_da3_browse_compatibility_error error =
     (is_com_hresult error RPC_X_NULL_REF_POINTER_HRESULT \<or> is_com_hresult error E_NOTIMPL_HRESULT)"

definition is_da2_browse_to_fallback_error :: "opc_error \<Rightarrow> bool" where
  "is_da2_browse_to_fallback_error error =
     ((case error of NotImplemented _ \<Rightarrow> True | _ \<Rightarrow> False)
      \<or> is_com_hresult error E_INVALIDARG_HRESULT
      \<or> is_com_hresult error E_NOTIMPL_HRESULT
      \<or> is_com_hresult error RPC_X_NULL_REF_POINTER_HRESULT
      \<or> com_hresult error = Some 0xC0040007 \<or> com_hresult error = Some 0xC0040008)"

fun is_non_progress_browse_error :: "opc_error \<Rightarrow> bool" where
  "is_non_progress_browse_error (BrowseNonProgress _ _ _ _ _) = True"
| "is_non_progress_browse_error _ = False"

section \<open>Constructors with context\<close>

definition browse_non_progress_error ::
  "string \<Rightarrow> string list \<Rightarrow> string \<Rightarrow> nat \<Rightarrow> nat \<Rightarrow> opc_error" where
  "browse_non_progress_error iterator_type browse_path repeated_value consecutive yielded =
     BrowseNonProgress iterator_type (format_browse_path browse_path) repeated_value consecutive yielded"

definition browse_continuation_non_progress_error :: "string list \<Rightarrow> string \<Rightarrow> opc_error" where
  "browse_continuation_non_progress_error browse_path detail =
     BrowseContinuationNonProgress (format_browse_path browse_path) detail"

definition contextual_browse_error ::
  "opc_error \<Rightarrow> string \<Rightarrow> string list \<Rightarrow> string option \<Rightarrow> opc_error" where
  "contextual_browse_error error operation browse_path item_name =
     (let path = format_browse_path browse_path;
          item = (case item_name of Some name \<Rightarrow> '' item '' @ dbg_str name | None \<Rightarrow> [])
      in case error of
           BrowseNonProgress ty _ val consecutive yielded \<Rightarrow>
             BrowseNonProgress ty path val consecutive yielded
         | _ \<Rightarrow> Internal (''OPC DA '' @ operation @ '' failed at browse path '' @ path @ item @ '': '' @
                 show_error error))"

section \<open>Facts the components use\<close>

lemma is_non_progress_iff:
  "is_non_progress_browse_error e \<longleftrightarrow> (\<exists>ty p v c y. e = BrowseNonProgress ty p v c y)"
  by (cases e) auto

lemma com_hresult_Some: "com_hresult e = Some c \<longleftrightarrow> (\<exists>t. e = Com c t)"
  by (cases e) auto

lemma browse_non_progress_is [simp]:
  "is_non_progress_browse_error (browse_non_progress_error ty p v c y)"
  by (simp add: browse_non_progress_error_def)

lemma contextual_non_progress [simp]:
  "is_non_progress_browse_error (contextual_browse_error e op p i) = is_non_progress_browse_error e"
  by (cases e) (auto simp: contextual_browse_error_def Let_def)

lemma contextual_no_hresult [simp]: "com_hresult (contextual_browse_error e op p i) = None"
  by (cases e) (auto simp: contextual_browse_error_def Let_def)

lemma contextual_not_not_implemented: "contextual_browse_error e op p i \<noteq> NotImplemented m"
  by (cases e) (auto simp: contextual_browse_error_def Let_def)

lemma non_progress_has_no_hresult: "is_non_progress_browse_error e \<Longrightarrow> com_hresult e = None"
  by (cases e) auto

lemma hresult_constants_distinct:
  "E_INVALIDARG_HRESULT \<noteq> E_NOTIMPL_HRESULT"
  "E_INVALIDARG_HRESULT \<noteq> RPC_X_NULL_REF_POINTER_HRESULT"
  "E_NOTIMPL_HRESULT \<noteq> RPC_X_NULL_REF_POINTER_HRESULT"
  by (simp_all add: E_INVALIDARG_HRESULT_def E_NOTIMPL_HRESULT_def RPC_X_NULL_REF_POINTER_HRESULT_def)

end
