(* ===== verification/Provider.thy ===== *)
theory Provider
  imports Errors
begin

text \<open>
  \<open>opc-da-client/src/provider.rs\<close>: the public value models. Opaque browse tokens wrap a
  version 4 UUID, a 128-bit value drawn by the \<open>uuid\<close> crate; \<open>draw_fresh\<close> is the loop
  that draws until the value is not yet in use, over the list of values the crate will
  return (\<open>None\<close> if the list ends first).
\<close>

type_synonym token = "128 word"

datatype browse_namespace = NsFlat | NsHierarchical | NsUnknown

record browse_capabilities =
  cap_namespace :: browse_namespace
  cap_supports_da3 :: bool
  cap_supports_da2 :: bool
  cap_max_page_size :: u32

datatype browse_node_kind = KBranch | KItem | KBranchAndItem

definition has_children :: "browse_node_kind \<Rightarrow> bool" where
  "has_children kind = (kind = KBranch \<or> kind = KBranchAndItem)"

definition is_item :: "browse_node_kind \<Rightarrow> bool" where
  "is_item kind = (kind = KItem \<or> kind = KBranchAndItem)"

datatype browse_node_filter = FBranches | FItems | FAll

record browse_node =
  bn_token :: token
  bn_name :: string
  bn_item_id :: "string option"
  bn_kind :: browse_node_kind

record browse_page_request =
  rq_parent :: "token option"
  rq_filter :: browse_node_filter
  rq_max_elements :: u32
  rq_continuation :: "token option"

record browse_page =
  pg_nodes :: "browse_node list"
  pg_continuation :: "token option"

datatype opc_value = VString string | VInt "32 word" | VFloat "64 word" | VBool bool
  \<comment> \<open>\<open>Int\<close> holds the two's complement bits of the \<open>i32\<close>, \<open>Float\<close> the bits of the \<open>f64\<close>\<close>

record tag_value =
  tv_tag_id :: string
  tv_value :: string
  tv_quality :: string
  tv_timestamp :: string

record write_result =
  wr_tag_id :: string
  wr_success :: bool
  wr_error :: "string option"

definition MAX_INVENTORY_BATCH_SIZE :: u32 where "MAX_INVENTORY_BATCH_SIZE = 1000"

record inventory_options =
  io_batch_size :: u32
  io_max_entries :: "u64 option"

definition default_inventory_options :: inventory_options where
  "default_inventory_options = \<lparr>io_batch_size = 100, io_max_entries = None\<rparr>"

record inventory_entry =
  ent_display_name :: string
  ent_item_id :: string
  ent_kind :: browse_node_kind
  ent_breadcrumbs :: "string list"

datatype slice_backend = SliceDa3 | SliceDa2

section \<open>Minting tokens\<close>

fun draw_fresh :: "('k \<Rightarrow> bool) \<Rightarrow> 'k list \<Rightarrow> ('k \<times> 'k list) option" where
  "draw_fresh used [] = None"
| "draw_fresh used (c # cs) = (if used c then draw_fresh used cs else Some (c, cs))"

lemma draw_fresh_unused: "draw_fresh used cs = Some (c, cs') \<Longrightarrow> \<not> used c"
  by (induction cs) (auto split: if_splits)

lemma draw_fresh_suffix: "draw_fresh used cs = Some (c, cs') \<Longrightarrow> \<exists>pre. cs = pre @ c # cs'"
proof (induction cs)
  case Nil
  then show ?case by simp
next
  case (Cons a cs)
  show ?case
  proof (cases "used a")
    case True
    with Cons obtain pre where "cs = pre @ c # cs'" by auto
    then have "a # cs = (a # pre) @ c # cs'" by simp
    then show ?thesis by blast
  next
    case False
    with Cons.prems have "a # cs = [] @ c # cs'" by simp
    then show ?thesis by blast
  qed
qed

lemma draw_fresh_returns:
  assumes "distinct cs" and "finite U" and "card U < length cs"
  shows "draw_fresh (\<lambda>c. c \<in> U) cs \<noteq> None"
proof
  assume "draw_fresh (\<lambda>c. c \<in> U) cs = None"
  then have "set cs \<subseteq> U" by (induction cs) (auto split: if_splits)
  then have "card (set cs) \<le> card U" by (rule card_mono[OF assms(2)])
  with assms show False by (simp add: distinct_card)
qed

lemma kind_cases_simps [simp]:
  "has_children KBranch" "has_children KBranchAndItem" "\<not> has_children KItem"
  "is_item KItem" "is_item KBranchAndItem" "\<not> is_item KBranch"
  by (simp_all add: has_children_def is_item_def)

end
