(* ===== verification/Telemetry.thy ===== *)
theory Telemetry
  imports Provider
begin

text \<open>
  Native-operation telemetry: the latency histogram and its percentiles
  (\<open>provider.rs\<close>), and the collector with its thread-local scopes
  (\<open>inventory/telemetry.rs\<close>). A \<open>Duration\<close> is its number of nanoseconds;
  \<open>duration_add\<close> saturates at \<open>Duration::MAX\<close>. The mutex around a collector has no
  effect on the values (a poisoned lock hands the collector out unchanged), so collectors
  are a store indexed by the identity of their \<open>Arc\<close>.
\<close>

type_synonym duration = nat

definition DURATION_MAX :: duration where
  "DURATION_MAX = (2 ^ 64 - 1) * 1000000000 + 999999999"

definition duration_add :: "duration \<Rightarrow> duration \<Rightarrow> duration" where
  "duration_add a b = min (a + b) DURATION_MAX"

section \<open>Histogram\<close>

definition bucket_bounds :: "u64 list" where
  "bucket_bounds = [50000, 100000, 250000, 500000, 1000000, 2500000, 5000000, 10000000,
                    25000000, 50000000, 100000000, 250000000]"

datatype op_kind =
    NamespaceOrganizationQuery | Da2BranchEnumeratorCreation | Da2LeafEnumeratorCreation
  | Da2FlatEnumeratorCreation | Da2StringRefill | GetItemId | Da2ClassificationDown
  | Da2ClassificationUp | Da2PathDown | Da2PathTo | Da2PathUp | Da2ProbeDown | Da2ProbeUp
  | Da3Page

record histogram =
  bucket_counts :: "u64 list"

definition empty_histogram :: histogram where
  "empty_histogram = \<lparr>bucket_counts = replicate 13 0\<rparr>"

fun position :: "('a \<Rightarrow> bool) \<Rightarrow> 'a list \<Rightarrow> nat option" where
  "position p [] = None"
| "position p (x # xs) = (if p x then Some 0 else map_option Suc (position p xs))"

definition bucket_index :: "duration \<Rightarrow> nat" where
  "bucket_index elapsed =
     (let nanos = clamp_word elapsed :: u64
      in case position (\<lambda>bound. nanos \<le> bound) bucket_bounds of
           Some i \<Rightarrow> i
         | None \<Rightarrow> length bucket_bounds)"

definition histogram_record :: "duration \<Rightarrow> histogram \<Rightarrow> histogram" where
  "histogram_record elapsed h =
     (let index = bucket_index elapsed
      in h\<lparr>bucket_counts := (bucket_counts h)[index := sat_add (bucket_counts h ! index) 1]\<rparr>)"

text \<open>The loop of \<open>percentile_from_rank\<close> from bucket \<open>index\<close> on.\<close>

fun percentile_loop :: "u64 list \<Rightarrow> nat \<Rightarrow> u64 \<Rightarrow> u64 \<Rightarrow> duration \<Rightarrow> duration" where
  "percentile_loop [] index cumulative rank max_elapsed = max_elapsed"
| "percentile_loop (count # counts) index cumulative rank max_elapsed =
     (let cumulative' = sat_add cumulative count
      in if rank \<le> cumulative' then
           (if index < length bucket_bounds then unat (bucket_bounds ! index) else max_elapsed)
         else percentile_loop counts (Suc index) cumulative' rank max_elapsed)"

definition percentile_from_rank :: "histogram \<Rightarrow> u64 \<Rightarrow> u64 \<Rightarrow> duration \<Rightarrow> duration" where
  "percentile_from_rank h total_count rank max_elapsed =
     (if total_count = 0 then 0 else percentile_loop (bucket_counts h) 0 0 rank max_elapsed)"

definition rank_of :: "u64 \<Rightarrow> u64 \<Rightarrow> u64" where
  "rank_of total_count percentile = max (sat_add (sat_mul total_count percentile) 99 div 100) 1"

record percentiles =
  p50 :: duration
  p95 :: duration
  p99 :: duration

definition histogram_percentiles :: "histogram \<Rightarrow> u64 \<Rightarrow> duration \<Rightarrow> percentiles" where
  "histogram_percentiles h total_count max_elapsed =
     (if total_count = 0 then \<lparr>p50 = 0, p95 = 0, p99 = 0\<rparr>
      else \<lparr>p50 = percentile_from_rank h total_count (rank_of total_count 50) max_elapsed,
            p95 = percentile_from_rank h total_count (rank_of total_count 95) max_elapsed,
            p99 = percentile_from_rank h total_count (rank_of total_count 99) max_elapsed\<rparr>)"

section \<open>Collector\<close>

record op_stats =
  st_count :: u64
  st_total_elapsed :: duration
  st_max_elapsed :: duration
  st_histogram :: histogram

definition empty_stats :: op_stats where
  "empty_stats = \<lparr>st_count = 0, st_total_elapsed = 0, st_max_elapsed = 0,
                  st_histogram = empty_histogram\<rparr>"

definition stats_record :: "duration \<Rightarrow> op_stats \<Rightarrow> op_stats" where
  "stats_record elapsed s =
     \<lparr>st_count = sat_add (st_count s) 1,
      st_total_elapsed = duration_add (st_total_elapsed s) elapsed,
      st_max_elapsed = max (st_max_elapsed s) elapsed,
      st_histogram = histogram_record elapsed (st_histogram s)\<rparr>"

record op_observation =
  ob_kind :: op_kind
  ob_count :: u64
  ob_total_elapsed :: duration
  ob_max_elapsed :: duration
  ob_histogram :: histogram
  ob_percentiles :: percentiles

definition stats_finish :: "op_kind \<Rightarrow> op_stats \<Rightarrow> op_observation" where
  "stats_finish kind s =
     \<lparr>ob_kind = kind, ob_count = st_count s, ob_total_elapsed = st_total_elapsed s,
      ob_max_elapsed = st_max_elapsed s, ob_histogram = st_histogram s,
      ob_percentiles = histogram_percentiles (st_histogram s) (st_count s) (st_max_elapsed s)\<rparr>"

type_synonym collector = "(op_kind \<times> op_stats) list"

fun collector_record :: "op_kind \<Rightarrow> duration \<Rightarrow> collector \<Rightarrow> collector" where
  "collector_record kind elapsed [] = [(kind, stats_record elapsed empty_stats)]"
| "collector_record kind elapsed ((k, s) # rest) =
     (if k = kind then (k, stats_record elapsed s) # rest
      else (k, s) # collector_record kind elapsed rest)"

definition collector_take :: "collector \<Rightarrow> op_observation list \<times> collector" where
  "collector_take c = (map (\<lambda>(kind, stats). stats_finish kind stats) c, [])"

section \<open>Thread-local scopes\<close>

type_synonym collector_id = nat

record telemetry_thread =
  tt_slot :: "collector_id option"
  tt_store :: "collector_id \<Rightarrow> collector"

record telemetry_scope =
  scope_previous :: "collector_id option"

definition install_native_operation_telemetry ::
  "collector_id \<Rightarrow> telemetry_thread \<Rightarrow> telemetry_scope \<times> telemetry_thread" where
  "install_native_operation_telemetry recorder t =
     (\<lparr>scope_previous = tt_slot t\<rparr>, t\<lparr>tt_slot := Some recorder\<rparr>)"

definition drop_scope :: "telemetry_scope \<Rightarrow> telemetry_thread \<Rightarrow> telemetry_thread" where
  "drop_scope scope t = t\<lparr>tt_slot := scope_previous scope\<rparr>"

definition record_native_operation :: "op_kind \<Rightarrow> duration \<Rightarrow> telemetry_thread \<Rightarrow> telemetry_thread" where
  "record_native_operation kind elapsed t =
     (case tt_slot t of
        None \<Rightarrow> t
      | Some recorder \<Rightarrow>
          t\<lparr>tt_store := (tt_store t)(recorder := collector_record kind elapsed (tt_store t recorder))\<rparr>)"

text \<open>
  What a thread does with scopes: record an operation, or install a recorder, run a body and
  drop the scope at the end of the block, as the borrow checker makes the code do.
\<close>

datatype scoped_action = Record op_kind duration | Scoped collector_id "scoped_action list"

fun run_action :: "scoped_action \<Rightarrow> telemetry_thread \<Rightarrow> telemetry_thread"
  and run_actions :: "scoped_action list \<Rightarrow> telemetry_thread \<Rightarrow> telemetry_thread" where
  "run_action (Record kind elapsed) t = record_native_operation kind elapsed t"
| "run_action (Scoped recorder body) t =
     (case install_native_operation_telemetry recorder t of
        (scope, t') \<Rightarrow> drop_scope scope (run_actions body t'))"
| "run_actions [] t = t"
| "run_actions (a # as) t = run_actions as (run_action a t)"

section \<open>The histogram counts samples\<close>

lemma position_None: "position p xs = None \<longleftrightarrow> (\<forall>x\<in>set xs. \<not> p x)"
  by (induction xs) auto

lemma position_Some:
  "position p xs = Some i \<Longrightarrow> i < length xs \<and> p (xs ! i) \<and> (\<forall>j<i. \<not> p (xs ! j))"
proof (induction xs arbitrary: i)
  case Nil
  then show ?case by simp
next
  case (Cons x xs)
  then show ?case by (auto split: if_splits simp: nth_Cons split: nat.splits)
qed

lemma clamp_le_bound:
  "unat b < 2 ^ 64 - 1 \<Longrightarrow> (clamp_word n :: u64) \<le> b \<longleftrightarrow> n \<le> unat b"
  by (auto simp: word_le_nat_alt unat_clamp_word)

lemma length_bucket_bounds [simp]: "length bucket_bounds = 12"
  by (simp add: bucket_bounds_def)

lemma bucket_bounds_small: "i < 12 \<Longrightarrow> unat (bucket_bounds ! i) < 2 ^ 64 - 1"
proof -
  assume "i < 12"
  then have "bucket_bounds ! i \<in> set bucket_bounds" by simp
  moreover have "\<forall>b\<in>set bucket_bounds. unat b < 2 ^ 64 - 1" by (simp add: bucket_bounds_def)
  ultimately show ?thesis by blast
qed

lemma bucket_index_le: "bucket_index d \<le> 12"
  by (auto simp: bucket_index_def Let_def split: option.splits dest: position_Some)

lemma bucket_index_below:
  assumes "i < 12"
  shows "bucket_index d \<le> i \<longleftrightarrow> d \<le> unat (bucket_bounds ! i)"
proof -
  have sorted: "sorted_wrt (\<lambda>a b. a \<le> b) bucket_bounds"
    by (simp add: bucket_bounds_def)
  let ?p = "\<lambda>b. (clamp_word d :: u64) \<le> b"
  have at: "?p (bucket_bounds ! j) \<longleftrightarrow> d \<le> unat (bucket_bounds ! j)" if "j < 12" for j
    using clamp_le_bound bucket_bounds_small that by blast
  show ?thesis
  proof (cases "position ?p bucket_bounds")
    case None
    then have "\<not> ?p (bucket_bounds ! i)" using assms by (simp add: position_None)
    with None assms at show ?thesis by (simp add: bucket_index_def)
  next
    case (Some k)
    then have k: "k < 12" "?p (bucket_bounds ! k)" "\<forall>j<k. \<not> ?p (bucket_bounds ! j)"
      by (auto dest: position_Some)
    have idx: "bucket_index d = k" using Some by (simp add: bucket_index_def)
    have "?p (bucket_bounds ! i)" if "k \<le> i"
    proof -
      have "bucket_bounds ! k \<le> bucket_bounds ! i"
        using sorted assms that by (cases "k = i") (auto simp: sorted_wrt_iff_nth_less)
      with k(2) show ?thesis by (rule order_trans)
    qed
    moreover have "k \<le> i" if "?p (bucket_bounds ! i)"
      using k(3) that by (meson not_le_imp_less)
    ultimately show ?thesis using idx at[OF assms] by blast
  qed
qed

definition histogram_of :: "duration list \<Rightarrow> histogram" where
  "histogram_of xs = fold histogram_record xs empty_histogram"

definition in_bucket :: "duration list \<Rightarrow> nat \<Rightarrow> nat" where
  "in_bucket xs i = length (filter (\<lambda>x. bucket_index x = i) xs)"

lemma length_histogram_record:
  "length (bucket_counts (histogram_record d h)) = length (bucket_counts h)"
  by (simp add: histogram_record_def Let_def)

lemma histogram_record_nth:
  assumes "length (bucket_counts h) = 13"
  shows "bucket_counts (histogram_record d h) ! i =
    (if i = bucket_index d then sat_add (bucket_counts h ! i) 1 else bucket_counts h ! i)"
  using bucket_index_le[of d] assms by (auto simp: histogram_record_def Let_def nth_list_update)

lemma fold_histogram_record:
  assumes "length (bucket_counts h) = 13" and "i < 13"
    and "unat (bucket_counts h ! i) + length xs < 2 ^ 64"
  shows "length (bucket_counts (fold histogram_record xs h)) = 13 \<and>
    unat (bucket_counts (fold histogram_record xs h) ! i) = unat (bucket_counts h ! i) + in_bucket xs i"
  using assms
proof (induction xs arbitrary: h)
  case Nil
  then show ?case by (simp add: in_bucket_def)
next
  case (Cons x xs)
  let ?h = "histogram_record x h"
  have len: "length (bucket_counts ?h) = 13" using Cons.prems(1) by (simp add: length_histogram_record)
  have step: "unat (bucket_counts ?h ! i) =
      unat (bucket_counts h ! i) + (if bucket_index x = i then 1 else 0)"
    using Cons.prems by (auto simp: histogram_record_nth unat_sat_add)
  with Cons.prems have "unat (bucket_counts ?h ! i) + length xs < 2 ^ 64" by simp
  from Cons.IH[OF len Cons.prems(2) this] step show ?case by (simp add: in_bucket_def)
qed

lemma histogram_of_counts:
  assumes "length xs < 2 ^ 64" and "i < 13"
  shows "unat (bucket_counts (histogram_of xs) ! i) = in_bucket xs i"
  using fold_histogram_record[of empty_histogram i xs] assms
  by (simp add: histogram_of_def empty_histogram_def)

lemma histogram_of_length: "length (bucket_counts (histogram_of xs)) = 13"
proof -
  have "length (bucket_counts (fold histogram_record ys h)) = length (bucket_counts h)" for ys h
    by (induction ys arbitrary: h) (simp_all add: length_histogram_record)
  then show ?thesis by (simp add: histogram_of_def empty_histogram_def)
qed

lemma sum_buckets:
  "(\<Sum>i<n. in_bucket xs i) = length (filter (\<lambda>x. bucket_index x < n) xs)"
proof (induction n)
  case 0
  then show ?case by simp
next
  case (Suc n)
  have "length (filter (\<lambda>x. bucket_index x < n) xs) + length (filter (\<lambda>x. bucket_index x = n) xs) =
      length (filter (\<lambda>x. bucket_index x < Suc n) xs)"
    by (induction xs) auto
  with Suc show ?case by (simp add: in_bucket_def)
qed

section \<open>Percentiles cover the samples they claim\<close>

definition bucket_value :: "duration \<Rightarrow> nat \<Rightarrow> duration" where
  "bucket_value m i = (if i < 12 then unat (bucket_bounds ! i) else m)"

lemma percentile_loop_finds:
  assumes "unat cum + (\<Sum>i<length cs. unat (cs ! i)) < 2 ^ 64"
    and "unat cum < unat r"
    and "unat r \<le> unat cum + (\<Sum>i<length cs. unat (cs ! i))"
  shows "\<exists>j<length cs. percentile_loop cs k cum r m = bucket_value m (k + j)
     \<and> unat cum + (\<Sum>i<j. unat (cs ! i)) < unat r
     \<and> unat r \<le> unat cum + (\<Sum>i<Suc j. unat (cs ! i))"
  using assms
proof (induction cs arbitrary: k cum)
  case Nil
  then show ?case by simp
next
  case (Cons c cs)
  have split_sum: "(\<Sum>i<Suc n. unat ((c # cs) ! i)) = unat c + (\<Sum>i<n. unat (cs ! i))" for n
    by (simp only: sum.lessThan_Suc_shift nth_Cons_0 nth_Cons_Suc)
  let ?S = "\<Sum>i<length cs. unat (cs ! i)"
  have total: "(\<Sum>i<length (c # cs). unat ((c # cs) ! i)) = unat c + ?S"
    using split_sum[of "length cs"] by simp
  have step: "unat (sat_add cum c) = unat cum + unat c"
    using Cons.prems(1) unfolding total by (simp add: unat_sat_add)
  show ?case
  proof (cases "r \<le> sat_add cum c")
    case True
    then have "unat r \<le> unat cum + unat c" by (simp add: word_le_nat_alt step)
    with True Cons.prems(2) show ?thesis
      by (intro exI[of _ 0]) (simp add: bucket_value_def Let_def)
  next
    case False
    then have lt: "unat (sat_add cum c) < unat r" by (simp add: word_le_nat_alt)
    have a: "unat (sat_add cum c) + ?S < 2 ^ 64" and b: "unat r \<le> unat (sat_add cum c) + ?S"
      using Cons.prems unfolding total step by simp_all
    obtain j where j: "j < length cs"
      "percentile_loop cs (Suc k) (sat_add cum c) r m = bucket_value m (Suc k + j)"
      "unat (sat_add cum c) + (\<Sum>i<j. unat (cs ! i)) < unat r"
      "unat r \<le> unat (sat_add cum c) + (\<Sum>i<Suc j. unat (cs ! i))"
      using Cons.IH[OF a lt b] by blast
    have "percentile_loop (c # cs) k cum r m = bucket_value m (k + Suc j)"
      using False j(2) by (simp add: Let_def)
    moreover have "unat cum + (\<Sum>i<Suc j. unat ((c # cs) ! i)) < unat r"
      using j(3) unfolding split_sum step by simp
    moreover have "unat r \<le> unat cum + (\<Sum>i<Suc (Suc j). unat ((c # cs) ! i))"
      using j(4) unfolding split_sum[of "Suc j"] step by simp
    ultimately show ?thesis using j(1) by (intro exI[of _ "Suc j"]) simp
  qed
qed

text \<open>The bucket where the rank is reached, in terms of the samples.\<close>

definition reaches :: "duration list \<Rightarrow> nat \<Rightarrow> nat \<Rightarrow> bool" where
  "reaches xs r j = (j \<le> 12 \<and> length (filter (\<lambda>x. bucket_index x < j) xs) < r
     \<and> r \<le> length (filter (\<lambda>x. bucket_index x \<le> j) xs))"

lemma percentile_from_rank_reaches:
  assumes "length xs < 2 ^ 64" and "0 < unat r" and "unat r \<le> length xs" and "tot \<noteq> 0"
  shows "\<exists>j. reaches xs (unat r) j \<and>
    percentile_from_rank (histogram_of xs) tot r m = bucket_value m j"
proof -
  let ?cs = "bucket_counts (histogram_of xs)"
  have sums: "(\<Sum>i<n. unat (?cs ! i)) = length (filter (\<lambda>x. bucket_index x < n) xs)"
    if "n \<le> 13" for n
  proof -
    have "(\<Sum>i<n. unat (?cs ! i)) = (\<Sum>i<n. in_bucket xs i)"
      using that by (intro sum.cong) (simp_all add: histogram_of_counts[OF assms(1)])
    then show ?thesis by (simp add: sum_buckets)
  qed
  have all: "filter (\<lambda>x. bucket_index x < 13) xs = xs"
    using bucket_index_le by (simp add: less_Suc_eq_le numeral_eq_Suc)
  have full: "(\<Sum>i<length ?cs. unat (?cs ! i)) = length xs"
    using sums[of 13] all by (simp add: histogram_of_length)
  have "\<exists>j<length ?cs. percentile_loop ?cs 0 0 r m = bucket_value m (0 + j)
     \<and> unat (0::u64) + (\<Sum>i<j. unat (?cs ! i)) < unat r
     \<and> unat r \<le> unat (0::u64) + (\<Sum>i<Suc j. unat (?cs ! i))"
    by (rule percentile_loop_finds) (use assms full in simp_all)
  then obtain j where j: "j < 13" "percentile_loop ?cs 0 0 r m = bucket_value m j"
    "(\<Sum>i<j. unat (?cs ! i)) < unat r" "unat r \<le> (\<Sum>i<Suc j. unat (?cs ! i))"
    by (auto simp: histogram_of_length)
  have "reaches xs (unat r) j"
    using j sums[of j] sums[of "Suc j"] by (simp add: reaches_def less_Suc_eq_le)
  with j(2) assms(4) show ?thesis by (auto simp: percentile_from_rank_def)
qed

lemma reaches_covers:
  assumes "reaches xs r j" and "\<forall>x\<in>set xs. x \<le> m"
  shows "r \<le> length (filter (\<lambda>x. x \<le> bucket_value m j) xs)"
proof -
  have "bucket_index x \<le> j \<Longrightarrow> x \<in> set xs \<Longrightarrow> x \<le> bucket_value m j" for x
    using assms bucket_index_below[of j x] by (cases "j < 12") (auto simp: bucket_value_def)
  then have "length (filter (\<lambda>x. bucket_index x \<le> j) xs) \<le> length (filter (\<lambda>x. x \<le> bucket_value m j) xs)"
    by (induction xs) (auto simp: le_SucI)
  with assms(1) show ?thesis by (simp add: reaches_def)
qed

lemma reaches_mono:
  assumes "reaches xs r j" and "reaches xs r' j'" and "r \<le> r'" and "\<forall>x\<in>set xs. x \<le> m"
  shows "bucket_value m j \<le> bucket_value m j'"
proof -
  have "j \<le> j'"
  proof (rule ccontr)
    assume "\<not> j \<le> j'"
    then have "bucket_index x \<le> j' \<Longrightarrow> bucket_index x < j" for x by simp
    then have "length (filter (\<lambda>x. bucket_index x \<le> j') xs) \<le> length (filter (\<lambda>x. bucket_index x < j) xs)"
      by (induction xs) (auto simp: le_SucI)
    with assms(1-3) show False by (simp add: reaches_def)
  qed
  have asc: "unat (bucket_bounds ! a) \<le> unat (bucket_bounds ! b)" if "a \<le> b" "b < 12" for a b
  proof (cases "a = b")
    case False
    have "sorted_wrt (\<lambda>a b. unat a \<le> unat b) bucket_bounds" by (simp add: bucket_bounds_def)
    with False that show ?thesis by (auto simp: sorted_wrt_iff_nth_less)
  qed simp
  show ?thesis
  proof (cases "j' < 12")
    case True
    with \<open>j \<le> j'\<close> asc show ?thesis by (simp add: bucket_value_def)
  next
    case last: False
    show ?thesis
    proof (cases "j < 12")
      case True
      from assms(2) last have "j' = 12" by (simp add: reaches_def)
      have "\<exists>x\<in>set xs. \<not> bucket_index x < 12"
      proof (rule ccontr)
        assume "\<not> (\<exists>x\<in>set xs. \<not> bucket_index x < 12)"
        then have "filter (\<lambda>x. bucket_index x < 12) xs = xs" by simp
        then have "length xs < r'" and "r' \<le> length (filter (\<lambda>x. bucket_index x \<le> 12) xs)"
          using assms(2) \<open>j' = 12\<close> by (simp_all add: reaches_def)
        with length_filter_le[of "\<lambda>x. bucket_index x \<le> 12" xs] show False by linarith
      qed
      then obtain x where x: "x \<in> set xs" "\<not> bucket_index x \<le> 11" by auto
      then have "unat (bucket_bounds ! 11) < x" using bucket_index_below[of 11 x] by simp
      with asc[of j 11] True x assms(4) last show ?thesis
        by (fastforce simp: bucket_value_def)
    next
      case False
      with last show ?thesis by (simp add: bucket_value_def)
    qed
  qed
qed

section \<open>The collector is a grouping of the log\<close>

definition stats_of :: "duration list \<Rightarrow> op_stats" where
  "stats_of xs = fold stats_record xs empty_stats"

text \<open>The kinds of a log in the order in which each was first seen.\<close>

fun first_seen :: "op_kind list \<Rightarrow> op_kind list" where
  "first_seen [] = []"
| "first_seen (k # ks) = k # filter (\<lambda>k'. k' \<noteq> k) (first_seen ks)"

definition durations_of :: "op_kind \<Rightarrow> (op_kind \<times> duration) list \<Rightarrow> duration list" where
  "durations_of k log = map snd (filter (\<lambda>p. fst p = k) log)"

definition collect :: "(op_kind \<times> duration) list \<Rightarrow> collector" where
  "collect log = fold (\<lambda>(k, d). collector_record k d) log []"

lemma first_seen_distinct: "distinct (first_seen ks)"
  by (induction ks) auto

lemma first_seen_set: "set (first_seen ks) = set ks"
  by (induction ks) auto

lemma first_seen_snoc:
  "first_seen (ks @ [k]) = (if k \<in> set ks then first_seen ks else first_seen ks @ [k])"
  by (induction ks) (auto simp: first_seen_set)

lemma collector_record_map:
  "distinct ks \<Longrightarrow> collector_record k d (map (\<lambda>x. (x, f x)) ks) =
     (if k \<in> set ks then map (\<lambda>x. (x, (f(k := stats_record d (f k))) x)) ks
      else map (\<lambda>x. (x, f x)) ks @ [(k, stats_record d empty_stats)])"
  by (induction ks) auto

lemma collect_groups:
  "collect log = map (\<lambda>k. (k, stats_of (durations_of k log))) (first_seen (map fst log))"
proof (induction log rule: rev_induct)
  case Nil
  then show ?case by (simp add: collect_def)
next
  case (snoc p log)
  obtain k d where p: "p = (k, d)" by force
  have "collect (log @ [p]) = collector_record k d (collect log)"
    by (simp add: collect_def p)
  also have "\<dots> = map (\<lambda>x. (x, stats_of (durations_of x (log @ [p])))) (first_seen (map fst (log @ [p])))"
  proof (cases "k \<in> set (map fst log)")
    case True
    then show ?thesis
      unfolding snoc collector_record_map[OF first_seen_distinct]
      by (auto simp: first_seen_snoc first_seen_set p durations_of_def stats_of_def)
  next
    case False
    then have "durations_of k log = []" by (force simp: durations_of_def filter_empty_conv)
    with False show ?thesis
      unfolding snoc collector_record_map[OF first_seen_distinct]
      by (auto simp: first_seen_snoc first_seen_set p durations_of_def stats_of_def)
  qed
  finally show ?case .
qed

lemma stats_of_fields:
  "st_count (stats_of xs) = clamp_word (length xs)"
  "st_max_elapsed (stats_of xs) = fold max xs 0"
  "st_histogram (stats_of xs) = histogram_of xs"
proof (induction xs rule: rev_induct)
  case Nil
  {
    case 1
    show ?case by (simp add: stats_of_def empty_stats_def clamp_word_def)
  next
    case 2
    show ?case by (simp add: stats_of_def empty_stats_def)
  next
    case 3
    show ?case by (simp add: stats_of_def empty_stats_def histogram_of_def)
  }
next
  case (snoc x xs)
  {
    case 1
    have "unat (sat_add (clamp_word (length xs) :: u64) 1) = unat (clamp_word (Suc (length xs)) :: u64)"
      by (simp add: unat_sat_add unat_clamp_word)
    then have "sat_add (clamp_word (length xs) :: u64) 1 = clamp_word (Suc (length xs))"
      by (simp add: word_unat_eq_iff)
    with snoc show ?case by (simp add: stats_of_def stats_record_def)
  next
    case 2
    from snoc show ?case by (simp add: stats_of_def stats_record_def max.commute)
  next
    case 3
    from snoc show ?case by (simp add: stats_of_def stats_record_def histogram_of_def)
  }
qed

lemma fold_max_upper: "x \<in> set xs \<Longrightarrow> x \<le> fold max xs (a::nat)" "a \<le> fold max xs a"
proof (induction xs arbitrary: a)
  case (Cons y ys)
  {
    case 1
    then show ?case using Cons.IH(1) Cons.IH(2)[of "max y a"] by auto
  next
    case 2
    then show ?case using Cons.IH(2)[of "max y a"] by auto
  }
qed auto

section \<open>Properties\<close>

lemma rank_of_unat:
  "100 * n + 99 < 2 ^ 64 \<Longrightarrow> unat p \<le> 100 \<Longrightarrow> 0 < n \<Longrightarrow> 0 < unat p \<Longrightarrow>
   unat (rank_of (clamp_word n) p) = (n * unat p + 99) div 100"
proof -
  assume n: "100 * n + 99 < 2 ^ 64" "0 < n" and p: "unat p \<le> 100" "0 < unat p"
  then have "n * unat p \<le> 100 * n" by (metis mult.commute mult_le_mono1)
  with n have "n * unat p \<le> 2 ^ 64 - 1 - 99" by linarith
  moreover have "1 \<le> (n * unat p + 99) div 100"
    using n p by (simp add: div_greater_zero_iff Suc_leI)
  moreover have n_word: "unat (clamp_word n :: u64) = n" using n by (simp add: unat_clamp_word)
  ultimately have "unat (sat_add (sat_mul (clamp_word n) p) 99) = n * unat p + 99"
    using n by (simp add: unat_sat_add unat_sat_mul)
  then have "unat (sat_add (sat_mul (clamp_word n) p) 99 div 100) = (n * unat p + 99) div 100"
    by (simp add: unat_div)
  with \<open>1 \<le> (n * unat p + 99) div 100\<close> show ?thesis
    by (simp add: rank_of_def max_def word_le_nat_alt)
qed

lemma percentile_reaches:
  assumes "xs \<noteq> []" and "100 * length xs + 99 < 2 ^ 64" and "unat p \<le> 100" and "0 < unat p"
  shows "\<exists>j. reaches xs ((length xs * unat p + 99) div 100) j \<and>
    percentile_from_rank (histogram_of xs) (clamp_word (length xs)) (rank_of (clamp_word (length xs)) p) m
      = bucket_value m j"
proof -
  let ?n = "length xs"
  have r: "unat (rank_of (clamp_word ?n) p) = (?n * unat p + 99) div 100"
    using assms by (intro rank_of_unat) auto
  have "?n * unat p \<le> ?n * 100" using assms(3) by (rule mult_le_mono2)
  then have "(?n * unat p + 99) div 100 \<le> ?n" by linarith
  moreover have "0 < (?n * unat p + 99) div 100"
    using assms(1,4) by (simp add: div_greater_zero_iff Suc_leI)
  moreover have "(clamp_word ?n :: u64) \<noteq> 0"
    using assms(1) by (simp add: word_unat_eq_iff unat_clamp_word min_def)
  ultimately show ?thesis
    using percentile_from_rank_reaches[of xs "rank_of (clamp_word ?n) p" "clamp_word ?n" m] assms(2)
    unfolding r by simp
qed

text \<open>
  The percentiles that a finished observation reports for a nonempty list of recorded
  latencies (short enough that \<open>total * 100 + 99\<close> does not saturate) are upper bounds of at
  least 50, 95 and 99 percent of the latencies, and they are ordered.
\<close>

theorem percentiles_cover:
  assumes "xs \<noteq> []" and "100 * length xs + 99 < 2 ^ 64"
  shows "let p = ob_percentiles (stats_finish kind (fold stats_record xs empty_stats)) in
    50 * length xs \<le> 100 * length (filter (\<lambda>x. x \<le> p50 p) xs) \<and>
    95 * length xs \<le> 100 * length (filter (\<lambda>x. x \<le> p95 p) xs) \<and>
    99 * length xs \<le> 100 * length (filter (\<lambda>x. x \<le> p99 p) xs) \<and>
    p50 p \<le> p95 p \<and> p95 p \<le> p99 p"
proof -
  let ?m = "fold max xs 0" and ?n = "length xs"
  have m: "\<forall>x\<in>set xs. x \<le> ?m" by (simp add: fold_max_upper)
  have nz: "(clamp_word ?n :: u64) \<noteq> 0"
    using assms(1) by (simp add: word_unat_eq_iff unat_clamp_word min_def)
  obtain a where a: "reaches xs ((?n * 50 + 99) div 100) a"
    "percentile_from_rank (histogram_of xs) (clamp_word ?n) (rank_of (clamp_word ?n) 50) ?m = bucket_value ?m a"
    using percentile_reaches[OF assms, of 50 ?m] by auto
  obtain b where b: "reaches xs ((?n * 95 + 99) div 100) b"
    "percentile_from_rank (histogram_of xs) (clamp_word ?n) (rank_of (clamp_word ?n) 95) ?m = bucket_value ?m b"
    using percentile_reaches[OF assms, of 95 ?m] by auto
  obtain c where c: "reaches xs ((?n * 99 + 99) div 100) c"
    "percentile_from_rank (histogram_of xs) (clamp_word ?n) (rank_of (clamp_word ?n) 99) ?m = bucket_value ?m c"
    using percentile_reaches[OF assms, of 99 ?m] by auto
  have "bucket_value ?m a \<le> bucket_value ?m b" "bucket_value ?m b \<le> bucket_value ?m c"
    using reaches_mono[OF a(1) b(1) _ m] reaches_mono[OF b(1) c(1) _ m] by (simp_all add: div_le_mono)
  moreover have "50 * ?n \<le> 100 * length (filter (\<lambda>x. x \<le> bucket_value ?m a) xs)"
    using reaches_covers[OF a(1) m] by linarith
  moreover have "95 * ?n \<le> 100 * length (filter (\<lambda>x. x \<le> bucket_value ?m b) xs)"
    using reaches_covers[OF b(1) m] by linarith
  moreover have "99 * ?n \<le> 100 * length (filter (\<lambda>x. x \<le> bucket_value ?m c) xs)"
    using reaches_covers[OF c(1) m] by linarith
  ultimately show ?thesis
    using nz by (simp add: Let_def stats_finish_def stats_of_fields[unfolded stats_of_def]
        histogram_percentiles_def a(2) b(2) c(2))
qed

theorem percentiles_cover_witness:
  "50 * length [60000, 300000000 :: duration] \<le>
     100 * length (filter (\<lambda>x. x \<le> p50 (ob_percentiles (stats_finish Da3Page
       (fold stats_record [60000, 300000000] empty_stats)))) [60000, 300000000])"
proof -
  have h: "[60000, 300000000 :: duration] \<noteq> []" "100 * length [60000, 300000000 :: duration] + 99 < 2 ^ 64"
    by simp_all
  show ?thesis using percentiles_cover[OF h, of Da3Page] unfolding Let_def by blast
qed

text \<open>
  Recording a log of native operations and taking the observations yields one observation
  per operation kind, in the order in which the kinds were first seen, each summarising exactly
  the latencies logged for its kind; the collector is empty afterwards.
\<close>

theorem collector_groups_log:
  "collector_take (fold (\<lambda>(k, d). collector_record k d) log []) =
     (map (\<lambda>k. stats_finish k (fold stats_record (map snd (filter (\<lambda>p. fst p = k) log)) empty_stats))
        (first_seen (map fst log)), [])"
  using collect_groups[of log]
  by (simp add: collect_def collector_take_def stats_of_def durations_of_def)

text \<open>The operations of a block that belong to one collector: those whose innermost scope it is.\<close>

fun attributed_one :: "collector_id option \<Rightarrow> collector_id \<Rightarrow> scoped_action \<Rightarrow> (op_kind \<times> duration) list"
  and attributed :: "collector_id option \<Rightarrow> collector_id \<Rightarrow> scoped_action list \<Rightarrow> (op_kind \<times> duration) list" where
  "attributed_one inner i (Record k d) = (if inner = Some i then [(k, d)] else [])"
| "attributed_one inner i (Scoped r body) = attributed (Some r) i body"
| "attributed inner i [] = []"
| "attributed inner i (a # as) = attributed_one inner i a @ attributed inner i as"

lemma scoped_run:
  "tt_slot (run_action a t) = tt_slot t \<and>
     tt_store (run_action a t) i = fold (\<lambda>(k, d). collector_record k d) (attributed_one (tt_slot t) i a) (tt_store t i)"
  "tt_slot (run_actions as t) = tt_slot t \<and>
     tt_store (run_actions as t) i = fold (\<lambda>(k, d). collector_record k d) (attributed (tt_slot t) i as) (tt_store t i)"
  by (induction a t and as t rule: run_action_run_actions.induct)
    (auto simp: record_native_operation_def install_native_operation_telemetry_def drop_scope_def
      split: option.splits)

text \<open>
  Nested telemetry scopes: running any block leaves the thread's current recorder as it
  was, and every recorded operation is accounted in the collector of its innermost enclosing
  scope and in no other (outside every scope: in the recorder that was current, if any).
\<close>

theorem telemetry_scopes_nest:
  "tt_slot (run_actions as t) = tt_slot t \<and>
   tt_store (run_actions as t) i =
     fold (\<lambda>(k, d). collector_record k d) (attributed (tt_slot t) i as) (tt_store t i)"
  by (rule scoped_run(2))

end
