(* ===== verification/Control.thy ===== *)
theory Control
  imports Telemetry
begin

text \<open>
  The control handle of a running inventory, its pacing and its event stream
  (\<open>provider.rs\<close>), and the observations through which the inventory thread sees the
  control and the clock.

  The control's fields are atomics written by other threads. What the inventory thread reads
  is a sequence of observations (\<open>tick\<close>): each read of the control or of the clock moves to
  the next one (\<open>advance\<close>). The code never resets the cancel flag and \<open>Instant\<close> is
  monotonic, so \<open>advance\<close> keeps a flag once seen and never moves the clock back. When the
  listed observations are used up, every further read sees a cancelled control: a run of the
  code that ends reads the control finitely often, so it is the run of a list that holds at
  least its reads.
\<close>

record inventory_pacing =
  min_interval :: duration
  item_rate_per_second :: "u32 option"

definition default_pacing :: inventory_pacing where
  "default_pacing = \<lparr>min_interval = 0, item_rate_per_second = None\<rparr>"

record inventory_control =
  ct_cancelled :: bool
  ct_paused :: bool
  ct_pacing_interval_ns :: u64
  ct_pacing_item_rate :: u64
  ct_batch_size :: nat

definition control_new :: inventory_control where
  "control_new = \<lparr>ct_cancelled = False, ct_paused = False, ct_pacing_interval_ns = 0,
                  ct_pacing_item_rate = 0, ct_batch_size = 0\<rparr>"

definition control_new_with_batch_size :: "u32 \<Rightarrow> inventory_control" where
  "control_new_with_batch_size batch_size = control_new\<lparr>ct_batch_size := unat batch_size\<rparr>"

definition control_cancel :: "inventory_control \<Rightarrow> inventory_control" where
  "control_cancel c = c\<lparr>ct_cancelled := True\<rparr>"

definition control_pause :: "inventory_control \<Rightarrow> inventory_control" where
  "control_pause c = c\<lparr>ct_paused := True\<rparr>"

definition control_resume :: "inventory_control \<Rightarrow> inventory_control" where
  "control_resume c = c\<lparr>ct_paused := False\<rparr>"

definition set_pacing :: "inventory_pacing \<Rightarrow> inventory_control \<Rightarrow> inventory_control" where
  "set_pacing pacing c =
     c\<lparr>ct_pacing_interval_ns := clamp_word (min_interval pacing),
       ct_pacing_item_rate :=
         (case item_rate_per_second pacing of None \<Rightarrow> 0 | Some rate \<Rightarrow> ucast rate)\<rparr>"

definition get_pacing :: "inventory_control \<Rightarrow> inventory_pacing" where
  "get_pacing c =
     \<lparr>min_interval = unat (ct_pacing_interval_ns c),
      item_rate_per_second =
        (if ct_pacing_item_rate c = 0 then None
         else Some (clamp_word (unat (ct_pacing_item_rate c))))\<rparr>"

definition batch_size_error :: opc_error where
  "batch_size_error = InvalidState ''Inventory batch size must be between 1 and 1000''"

definition set_batch_size :: "u32 \<Rightarrow> inventory_control \<Rightarrow> (opc_error + unit) \<times> inventory_control" where
  "set_batch_size batch_size c =
     (if \<not> (1 \<le> batch_size \<and> batch_size \<le> MAX_INVENTORY_BATCH_SIZE) then (Inl batch_size_error, c)
      else (Inr (), c\<lparr>ct_batch_size := unat batch_size\<rparr>))"

definition get_batch_size :: "inventory_control \<Rightarrow> u32 option" where
  "get_batch_size c =
     (if ct_batch_size c < 2 ^ 32 \<and> of_nat (ct_batch_size c) \<noteq> (0 :: u32)
      then Some (of_nat (ct_batch_size c)) else None)"

section \<open>The event stream handle\<close>

text \<open>
  \<open>InventoryStream\<close>: the receiving end of the event channel. \<open>is_completed\<close> tells whether
  an event is \<open>InventoryEvent::Completed\<close>; the queue holds what the worker has sent, the
  worker handle is present until it is joined.
\<close>

record 'e inventory_stream =
  is_queue :: "'e list"
  is_receiver_closed :: bool
  is_control :: inventory_control
  is_worker_joined :: bool
  is_terminal_event_seen :: bool

definition stream_message ::
  "('e \<Rightarrow> bool) \<Rightarrow> 'e inventory_stream \<Rightarrow> 'e option \<times> 'e inventory_stream" where
  "stream_message is_completed s =
     (case is_queue s of
        [] \<Rightarrow> (None, s)
      | event # rest \<Rightarrow>
          (Some event, s\<lparr>is_queue := rest,
             is_terminal_event_seen := (is_terminal_event_seen s \<or> is_completed event)\<rparr>))"

definition stream_drop :: "'e inventory_stream \<Rightarrow> 'e inventory_stream" where
  "stream_drop s =
     (let s = s\<lparr>is_receiver_closed := True\<rparr>;
          s = (if \<not> is_terminal_event_seen s then s\<lparr>is_control := control_cancel (is_control s)\<rparr> else s)
      in s\<lparr>is_worker_joined := True\<rparr>)"

fun stream_messages ::
  "nat \<Rightarrow> ('e \<Rightarrow> bool) \<Rightarrow> 'e inventory_stream \<Rightarrow> 'e inventory_stream" where
  "stream_messages 0 is_completed s = s"
| "stream_messages (Suc n) is_completed s = stream_messages n is_completed (snd (stream_message is_completed s))"

section \<open>Observations\<close>

record tick =
  tk_now :: nat
  tk_control :: inventory_control

record env =
  env_current :: tick
  env_rest :: "tick list"

definition advance :: "env \<Rightarrow> env" where
  "advance e =
     (case env_rest e of
        [] \<Rightarrow> e\<lparr>env_current := (env_current e)\<lparr>tk_control := control_cancel (tk_control (env_current e))\<rparr>\<rparr>
      | t # ts \<Rightarrow>
          \<lparr>env_current =
             \<lparr>tk_now = max (tk_now (env_current e)) (tk_now t),
              tk_control = (tk_control t)\<lparr>ct_cancelled :=
                (ct_cancelled (tk_control (env_current e)) \<or> ct_cancelled (tk_control t))\<rparr>\<rparr>,
           env_rest = ts\<rparr>)"

definition env_now :: "env \<Rightarrow> nat" where
  "env_now e = tk_now (env_current e)"

definition env_control :: "env \<Rightarrow> inventory_control" where
  "env_control e = tk_control (env_current e)"

definition env_cancelled :: "env \<Rightarrow> bool" where
  "env_cancelled e = ct_cancelled (env_control e)"

definition env_paused :: "env \<Rightarrow> bool" where
  "env_paused e = ct_paused (env_control e)"

lemma advance_exhausted: "env_rest e = [] \<Longrightarrow> env_cancelled (advance e)"
  by (simp add: advance_def env_cancelled_def env_control_def control_cancel_def)

lemma advance_sticky: "env_cancelled e \<Longrightarrow> env_cancelled (advance e)"
  by (auto simp: advance_def env_cancelled_def env_control_def control_cancel_def split: list.split)

lemma advance_now: "env_now e \<le> env_now (advance e)"
  by (auto simp: advance_def env_now_def split: list.split)

lemma advance_length: "length (env_rest (advance e)) = length (env_rest e) - 1"
  by (auto simp: advance_def split: list.split)

lemma advance_length_le: "length (env_rest (advance e)) \<le> length (env_rest e)"
  by (simp add: advance_length)

lemma not_cancelled_shrinks:
  "\<not> env_cancelled (advance e) \<Longrightarrow> length (env_rest (advance e)) < length (env_rest e)"
  using advance_exhausted[of e] by (cases "env_rest e") (auto simp: advance_length)

text \<open>
  \<open>later e e'\<close>: the observations of \<open>e'\<close> come at or after those of \<open>e\<close>. Whatever the
  inventory thread does moves its environment to a later one.
\<close>

definition later :: "env \<Rightarrow> env \<Rightarrow> bool" where
  "later e e' \<longleftrightarrow> length (env_rest e') \<le> length (env_rest e) \<and> env_now e \<le> env_now e' \<and>
     (env_cancelled e \<longrightarrow> env_cancelled e')"

named_theorems later_intros \<open>steps that lead to a later environment\<close>

lemma later_refl [later_intros]: "later e e"
  by (simp add: later_def)

lemma later_trans: "later a b \<Longrightarrow> later b c \<Longrightarrow> later a c"
  by (auto simp: later_def)

lemma later_advance [later_intros]: "later a b \<Longrightarrow> later a (advance b)"
  using advance_length_le[of b] advance_now[of b] advance_sticky[of b] by (auto simp: later_def)

lemma later_cancelled: "later a b \<Longrightarrow> env_cancelled a \<Longrightarrow> env_cancelled b"
  by (simp add: later_def)

lemma later_now: "later a b \<Longrightarrow> env_now a \<le> env_now b"
  by (simp add: later_def)

lemma later_decreases:
  "\<not> env_cancelled (advance e) \<Longrightarrow> later (advance e) e' \<Longrightarrow> length (env_rest e') < length (env_rest e)"
  using not_cancelled_shrinks[of e] by (auto simp: later_def)

section \<open>Properties\<close>

text \<open>
  Pacing round trip: reading the pacing back after setting it gives the interval saturated
  at \<open>u64::MAX\<close> nanoseconds and the same item rate, a rate of zero being no rate.
\<close>

theorem pacing_roundtrip:
  "get_pacing (set_pacing p c) =
     \<lparr>min_interval = min (min_interval p) (2 ^ 64 - 1),
      item_rate_per_second = (if item_rate_per_second p = Some 0 then None else item_rate_per_second p)\<rparr>"
proof -
  have "clamp_word (unat r) = r" for r :: u32
  proof -
    have "unat r < 2 ^ LENGTH(32)" by (rule unsigned_less)
    then show ?thesis by (simp add: clamp_word_def)
  qed
  moreover have "unat (ucast r :: u64) = unat r" for r :: u32
  proof -
    have "unat r < 2 ^ LENGTH(32)" by (rule unsigned_less)
    then show ?thesis by (simp add: unsigned_ucast_eq take_bit_nat_eq_self)
  qed
  ultimately show ?thesis
    by (auto simp: get_pacing_def set_pacing_def unat_clamp_word word_unat_eq_iff split: option.splits)
qed

text \<open>What a holder of the control handle can do.\<close>

datatype control_op = OpCancel | OpPause | OpResume | OpSetPacing inventory_pacing | OpSetBatchSize u32

fun control_step :: "inventory_control \<Rightarrow> control_op \<Rightarrow> inventory_control" where
  "control_step c OpCancel = control_cancel c"
| "control_step c OpPause = control_pause c"
| "control_step c OpResume = control_resume c"
| "control_step c (OpSetPacing p) = set_pacing p c"
| "control_step c (OpSetBatchSize n) = snd (set_batch_size n c)"

definition control_batch_ok :: "inventory_control \<Rightarrow> bool" where
  "control_batch_ok c = (1 \<le> ct_batch_size c \<and> ct_batch_size c \<le> 1000)"

lemma control_step_inv:
  "control_batch_ok c \<Longrightarrow> control_batch_ok (control_step c op)"
  "ct_cancelled c \<Longrightarrow> ct_cancelled (control_step c op)"
  by (cases op; auto simp: control_batch_ok_def control_cancel_def control_pause_def control_resume_def
      set_pacing_def set_batch_size_def MAX_INVENTORY_BATCH_SIZE_def word_le_nat_alt)+

lemma get_batch_size_ok:
  "control_batch_ok c \<Longrightarrow> get_batch_size c = Some (of_nat (ct_batch_size c))"
proof -
  assume ok: "control_batch_ok c"
  then have "unat (of_nat (ct_batch_size c) :: u32) = ct_batch_size c"
    by (simp add: control_batch_ok_def unat_of_nat)
  with ok show ?thesis by (auto simp: control_batch_ok_def get_batch_size_def)
qed

text \<open>
  Whatever sequence of operations is applied to a control created with a valid batch size,
  the batch size it reports stays between 1 and \<open>MAX_INVENTORY_BATCH_SIZE\<close> (rejected updates
  leave it alone), and a cancellation, once requested, is never withdrawn.
\<close>

theorem control_operations_safe:
  assumes "1 \<le> n" and "n \<le> MAX_INVENTORY_BATCH_SIZE"
  shows "(\<exists>b. get_batch_size (foldl control_step (control_new_with_batch_size n) ops) = Some b
            \<and> 1 \<le> b \<and> b \<le> MAX_INVENTORY_BATCH_SIZE)
    \<and> (OpCancel \<in> set ops \<longrightarrow> ct_cancelled (foldl control_step (control_new_with_batch_size n) ops))"
proof -
  have start: "control_batch_ok (control_new_with_batch_size n)"
    using assms by (simp add: control_batch_ok_def control_new_with_batch_size_def word_le_nat_alt
        MAX_INVENTORY_BATCH_SIZE_def)
  have inv: "control_batch_ok c \<Longrightarrow> control_batch_ok (foldl control_step c ops)" for c
    by (induction ops arbitrary: c) (simp_all add: control_step_inv)
  let ?c = "foldl control_step (control_new_with_batch_size n) ops"
  from inv[OF start] have ok: "control_batch_ok ?c" .
  then have u: "unat (of_nat (ct_batch_size ?c) :: u32) = ct_batch_size ?c"
    by (simp add: control_batch_ok_def unat_of_nat)
  have sticky: "ct_cancelled c \<Longrightarrow> ct_cancelled (foldl control_step c os)" for c os
    by (induction os arbitrary: c) (simp_all add: control_step_inv)
  have "OpCancel \<in> set os \<Longrightarrow> ct_cancelled (foldl control_step c os)" for c os
  proof (induction os arbitrary: c)
    case (Cons op os)
    then show ?case
      by (cases "op = OpCancel") (auto intro!: sticky simp: control_cancel_def)
  qed simp
  with get_batch_size_ok[OF ok] ok u show ?thesis
    by (auto simp: control_batch_ok_def word_le_nat_alt MAX_INVENTORY_BATCH_SIZE_def)
qed

theorem control_operations_safe_witness:
  "ct_cancelled (foldl control_step (control_new_with_batch_size 100) [OpSetBatchSize 0, OpCancel, OpResume])"
proof -
  have h: "1 \<le> (100 :: u32)" "100 \<le> MAX_INVENTORY_BATCH_SIZE"
    by (simp_all add: MAX_INVENTORY_BATCH_SIZE_def)
  show ?thesis using control_operations_safe[OF h, of "[OpSetBatchSize 0, OpCancel, OpResume]"] by simp
qed

text \<open>
  Dropping an inventory stream closes the receiver, joins the worker, and requests
  cancellation exactly when no \<open>Completed\<close> event has been received before (a stream that was
  not yet terminal and whose control was not cancelled already).
\<close>

theorem stream_drop_cancels_unless_completed:
  assumes "\<not> is_terminal_event_seen s" and "\<not> ct_cancelled (is_control s)"
  shows "let d = stream_drop (stream_messages n is_completed s) in
    is_receiver_closed d \<and> is_worker_joined d \<and>
    (ct_cancelled (is_control d) \<longleftrightarrow> \<not> (\<exists>ev\<in>set (take n (is_queue s)). is_completed ev))"
proof -
  have seen: "is_terminal_event_seen (stream_messages n is_completed s) \<longleftrightarrow>
      is_terminal_event_seen s \<or> (\<exists>ev\<in>set (take n (is_queue s)). is_completed ev)" for s
    by (induction n arbitrary: s) (auto simp: stream_message_def take_Cons' split: list.splits)
  have control: "is_control (stream_messages n is_completed s) = is_control s" for s
    by (induction n arbitrary: s) (auto simp: stream_message_def split: list.splits)
  show ?thesis
    using assms by (auto simp: stream_drop_def Let_def seen control control_cancel_def)
qed

theorem stream_drop_cancels_unless_completed_witness:
  "ct_cancelled (is_control (stream_drop (stream_messages 1 (\<lambda>ev. ev = (2::nat))
     \<lparr>is_queue = [1, 2], is_receiver_closed = False, is_control = control_new,
      is_worker_joined = False, is_terminal_event_seen = False\<rparr>)))"
proof -
  let ?s = "\<lparr>is_queue = [1, 2 :: nat], is_receiver_closed = False, is_control = control_new,
      is_worker_joined = False, is_terminal_event_seen = False\<rparr>"
  have h: "\<not> is_terminal_event_seen ?s" "\<not> ct_cancelled (is_control ?s)"
    by (simp_all add: control_new_def)
  show ?thesis
    using stream_drop_cancels_unless_completed[OF h, of 1 "\<lambda>ev. ev = 2"] by (simp add: Let_def)
qed

end
