(* ===== verification/Boundary.thy ===== *)
theory Boundary
  imports Control
begin

text \<open>
  \<open>inventory/boundary.rs\<close> and \<open>inventory/error.rs\<close>: the gate before every bounded native
  operation of an inventory. It waits while the inventory is paused or the pacing interval
  since the last native start has not passed, and reports cancellation.

  \<open>pacing_interval\<close> divides two integers in \<open>f64\<close> and converts seconds to a \<open>Duration\<close>;
  both roundings are written out over natural numbers: the quotient is rounded to a 53-bit
  significand, half to even, and the product with 10\<open>^\<close>9 to a whole nanosecond, half to even.
\<close>

datatype inventory_error =
    Cancelled
  | Failed opc_error
  | InvalidDa2Branch (invalid_parent: "string list") (invalid_branch: string)

definition contextual_inventory_error ::
  "inventory_error \<Rightarrow> string \<Rightarrow> string list \<Rightarrow> string option \<Rightarrow> inventory_error" where
  "contextual_inventory_error error operation path item =
     (case error of
        Failed e \<Rightarrow> Failed (contextual_browse_error e operation path item)
      | Cancelled \<Rightarrow> Cancelled
      | InvalidDa2Branch p b \<Rightarrow> InvalidDa2Branch p b)"

section \<open>The pacing interval\<close>

definition round_half_even :: "nat \<Rightarrow> nat \<Rightarrow> nat" where
  "round_half_even a b =
     (let q = a div b; r = a mod b
      in if 2 * r < b \<or> (2 * r = b \<and> even q) then q else q + 1)"

text \<open>
  \<open>f64::from(a) / f64::from(b)\<close> for \<open>u32\<close> values is \<open>m / 2\<close>\<open>^\<close>\<open>k\<close>: the least \<open>k\<close> that scales the
  quotient to 2\<open>^\<close>52 or more, and the rounded significand \<open>m\<close>. Both operands are below
  2\<open>^\<close>32, so \<open>k\<close> is at most 84.
\<close>

definition f64_div_shift :: "nat \<Rightarrow> nat \<Rightarrow> nat" where
  "f64_div_shift a b = length (takeWhile (\<lambda>k. a * 2 ^ k < b * 2 ^ 52) [0..<85])"

definition f64_div :: "nat \<Rightarrow> nat \<Rightarrow> nat \<times> nat" where
  "f64_div a b = (let k = f64_div_shift a b in (round_half_even (a * 2 ^ k) b, k))"

definition from_secs_f64 :: "nat \<times> nat \<Rightarrow> duration" where
  "from_secs_f64 f = (case f of (m, k) \<Rightarrow> round_half_even (m * 1000000000) (2 ^ k))"

definition pacing_interval :: "inventory_pacing \<Rightarrow> u32 \<Rightarrow> duration" where
  "pacing_interval pacing item_cost =
     (let item_interval =
        (case item_rate_per_second pacing of
           None \<Rightarrow> 0
         | Some rate \<Rightarrow>
             (if 0 < rate then from_secs_f64 (f64_div (unat (max item_cost 1)) (unat rate)) else 0))
      in max (min_interval pacing) item_interval)"

section \<open>The gate\<close>

datatype boundary_result = Proceed | BoundaryCancelled

record boundary =
  bd_last_started :: "nat option"
  bd_paused_time :: duration
  bd_native_operations :: u64
  bd_first_operation_reported :: bool
  bd_telemetry :: collector

definition boundary_new :: boundary where
  "boundary_new = \<lparr>bd_last_started = None, bd_paused_time = 0, bd_native_operations = 0,
                   bd_first_operation_reported = False, bd_telemetry = []\<rparr>"

text \<open>\<open>while is_paused() \&\& !is_cancelled() \{ sleep \}\<close>\<close>

function wait_while_paused :: "env \<Rightarrow> env" where
  "wait_while_paused e =
     (let e = advance e
      in if \<not> env_paused e then e
         else let e = advance e
              in if env_cancelled e then e else wait_while_paused e)"
  by pat_completeness auto
termination
proof (relation "measure (\<lambda>e. length (env_rest e))")
  fix e x xa :: env
  assume "x = advance e" "\<not> \<not> env_paused x" "xa = advance x" "\<not> env_cancelled xa"
  then show "(xa, e) \<in> measure (\<lambda>e. length (env_rest e))"
    using not_cancelled_shrinks[of x] advance_length_le[of e] by simp
qed simp

declare wait_while_paused.simps [simp del]

lemma later_wait_while_paused [later_intros]: "later a e \<Longrightarrow> later a (wait_while_paused e)"
proof (induction e rule: wait_while_paused.induct)
  case (1 e)
  show ?case
    by (subst wait_while_paused.simps) (use 1 in \<open>auto simp: Let_def intro: later_intros\<close>)
qed

text \<open>The end of the loop body: the operation starts.\<close>

definition start_operation :: "boundary \<times> env \<Rightarrow> boundary_result \<times> boundary \<times> env" where
  "start_operation be =
     (case be of (b, e) \<Rightarrow>
        let (b, e) = (if \<not> bd_first_operation_reported b
              then (b\<lparr>bd_first_operation_reported := True\<rparr>, advance e) else (b, e));
            e = advance e
        in (Proceed,
            b\<lparr>bd_last_started := Some (env_now e),
              bd_native_operations := sat_add (bd_native_operations b) 1\<rparr>, e))"

text \<open>\<open>interval.checked_sub(elapsed)\<close> succeeds as long as the interval has not been exceeded.\<close>

function before_operation_with_cost ::
  "u32 \<Rightarrow> boundary \<times> env \<Rightarrow> boundary_result \<times> boundary \<times> env" where
  "before_operation_with_cost item_cost (b, e) =
     (let e = advance e
      in if env_cancelled e then (BoundaryCancelled, b, e)
         else let e = advance e
              in if env_paused e then
                   let e = advance e; started = env_now e;
                       e = wait_while_paused e; e = advance e
                   in before_operation_with_cost item_cost
                        (b\<lparr>bd_paused_time := bd_paused_time b + (env_now e - started)\<rparr>, e)
                 else let e = advance e;
                          interval = pacing_interval (get_pacing (env_control e)) item_cost;
                          e = (case bd_last_started b of None \<Rightarrow> e | Some _ \<Rightarrow> advance e)
                      in if (case bd_last_started b of
                               None \<Rightarrow> False
                             | Some last_started \<Rightarrow> env_now e - last_started \<le> interval)
                         then before_operation_with_cost item_cost (b, e)
                         else let e = advance e
                              in if env_cancelled e then before_operation_with_cost item_cost (b, e)
                                 else let e = advance e
                                      in if env_paused e then before_operation_with_cost item_cost (b, e)
                                         else start_operation (b, e))"
  by pat_completeness auto

termination before_operation_with_cost
  by (relation "measure (\<lambda>(c, b, e). length (env_rest e))")
    (auto intro!: later_decreases later_intros split: option.splits)

declare before_operation_with_cost.simps [simp del]

definition record_operation :: "op_kind \<Rightarrow> duration \<Rightarrow> boundary \<Rightarrow> boundary" where
  "record_operation kind elapsed b =
     b\<lparr>bd_telemetry := collector_record kind elapsed (bd_telemetry b)\<rparr>"

definition take_operation_observations :: "boundary \<Rightarrow> op_observation list \<times> boundary" where
  "take_operation_observations b =
     (case collector_take (bd_telemetry b) of (obs, c) \<Rightarrow> (obs, b\<lparr>bd_telemetry := c\<rparr>))"

section \<open>Paced calls\<close>

text \<open>
  The state of a thread that makes gated native calls: the boundary, the observations it will
  make, and the world the native operations act on. Components extend it with their own state.
\<close>

record 'w gated =
  gt_boundary :: boundary
  gt_env :: env
  gt_world :: 'w

definition before_operation :: "u32 \<Rightarrow> (('w, 'z) gated_scheme, 'e, boundary_result) prog" where
  "before_operation item_cost = effect (\<lambda>s.
     case before_operation_with_cost item_cost (gt_boundary s, gt_env s) of
       (r, b, e) \<Rightarrow> (r, s\<lparr>gt_boundary := b, gt_env := e\<rparr>))"

definition instant_now :: "(('w, 'z) gated_scheme, 'e, nat) prog" where
  "instant_now = effect (\<lambda>s. let e = advance (gt_env s) in (env_now e, s\<lparr>gt_env := e\<rparr>))"

definition on_world :: "('w, 'e, 'a) prog \<Rightarrow> (('w, 'z) gated_scheme, 'e, 'a) prog" where
  "on_world = zoom gt_world (\<lambda>w. gt_world_update (\<lambda>_. w))"

definition timed :: "op_kind \<Rightarrow> (('w, 'z) gated_scheme, 'e, 'a) prog \<Rightarrow> (('w, 'z) gated_scheme, 'e, 'a) prog" where
  "timed kind operation =
     bindp instant_now (\<lambda>started.
     bindp (attempt operation) (\<lambda>result.
     bindp instant_now (\<lambda>ended.
     seqp (modifyp (gt_boundary_update (record_operation kind (ended - started))))
          (lift_result result))))"

definition paced_call ::
  "op_kind \<Rightarrow> u32 \<Rightarrow> ('w, opc_error, 'a) prog \<Rightarrow> (('w, 'z) gated_scheme, inventory_error, 'a) prog" where
  "paced_call kind item_cost operation =
     bindp (before_operation item_cost) (\<lambda>r.
       case r of
         Proceed \<Rightarrow> timed kind (map_errp Failed (on_world operation))
       | BoundaryCancelled \<Rightarrow> throw Cancelled)"

section \<open>What the gate guarantees\<close>

lemma later_start_operation:
  "later a e \<Longrightarrow> start_operation (b, e) = (r, b', e') \<Longrightarrow> later a e'"
  by (auto simp: start_operation_def Let_def split: if_splits intro: later_intros)

lemma start_operation_facts:
  assumes "start_operation (b, e) = (r, b', e')"
  shows "r = Proceed" and "bd_last_started b' = Some (env_now e')"
    and "bd_native_operations b' = sat_add (bd_native_operations b) 1"
    and "bd_telemetry b' = bd_telemetry b" and "bd_paused_time b' = bd_paused_time b"
    and "later e e'"
  using assms by (auto simp: start_operation_def Let_def split: if_splits intro: later_intros)

definition gate_outcome ::
  "u32 \<Rightarrow> boundary \<Rightarrow> env \<Rightarrow> boundary_result \<times> boundary \<times> env \<Rightarrow> bool" where
  "gate_outcome c b e out = (case out of (r, b', e') \<Rightarrow>
     later e e' \<and> bd_telemetry b' = bd_telemetry b \<and> bd_paused_time b \<le> bd_paused_time b' \<and>
     (case r of
        Proceed \<Rightarrow>
          bd_last_started b' = Some (env_now e') \<and>
          bd_native_operations b' = sat_add (bd_native_operations b) 1 \<and>
          (\<exists>seen. later e seen \<and> later seen e' \<and> \<not> env_cancelled seen \<and>
             (\<forall>last. bd_last_started b = Some last \<longrightarrow>
                pacing_interval (get_pacing (env_control seen)) c < env_now e' - last))
      | BoundaryCancelled \<Rightarrow>
          bd_last_started b' = bd_last_started b \<and>
          bd_native_operations b' = bd_native_operations b \<and> env_cancelled e'))"

lemma gate_outcome_step:
  "gate_outcome c b1 e1 out \<Longrightarrow> later e e1 \<Longrightarrow> bd_last_started b1 = bd_last_started b \<Longrightarrow>
   bd_native_operations b1 = bd_native_operations b \<Longrightarrow> bd_telemetry b1 = bd_telemetry b \<Longrightarrow>
   bd_paused_time b \<le> bd_paused_time b1 \<Longrightarrow> gate_outcome c b e out"
  by (cases out) (auto simp: gate_outcome_def split: boundary_result.splits intro: later_trans)

lemma gate_outcome_cancelled:
  "later e e' \<Longrightarrow> env_cancelled e' \<Longrightarrow> gate_outcome c b e (BoundaryCancelled, b, e')"
  by (simp add: gate_outcome_def)

lemma gate_outcome_start:
  assumes "later e seen" and "later seen e1" and "\<not> env_cancelled seen"
    and gap: "\<And>last. bd_last_started b = Some last \<Longrightarrow>
      pacing_interval (get_pacing (env_control seen)) c < env_now e1 - last"
  shows "gate_outcome c b e (start_operation (b, e1))"
proof -
  obtain r b' e' where out: "start_operation (b, e1) = (r, b', e')" by (cases "start_operation (b, e1)")
  note facts = start_operation_facts[OF out]
  have "later seen e'" using assms(2) facts(6) by (rule later_trans)
  moreover have "env_now e1 \<le> env_now e'" using facts(6) by (rule later_now)
  then have "\<And>last. bd_last_started b = Some last \<Longrightarrow>
      pacing_interval (get_pacing (env_control seen)) c < env_now e' - last"
    using gap by (metis diff_le_mono order_less_le_trans)
  ultimately show ?thesis
    using assms(1,3) facts later_trans[OF assms(1)] unfolding out gate_outcome_def by auto
qed

lemma gate_outcome: "gate_outcome c b e (before_operation_with_cost c (b, e))"
proof (induction "length (env_rest e)" arbitrary: b e rule: less_induct)
  case less
  define e1 where "e1 = advance e"
  define e2 where "e2 = advance e1"
  define e3 where "e3 = advance e2"
  define e4 where "e4 = (case bd_last_started b of None \<Rightarrow> e3 | Some _ \<Rightarrow> advance e3)"
  define wait where "wait = (case bd_last_started b of None \<Rightarrow> False
      | Some last_started \<Rightarrow> env_now e4 - last_started
          \<le> pacing_interval (get_pacing (env_control e3)) c)"
  have l: "later e1 e2" "later e1 e3" "later e3 e4" "later e1 e4" "later e e1"
    by (auto simp: e1_def e2_def e3_def e4_def intro: later_intros split: option.split)
  have retry: "gate_outcome c b e (before_operation_with_cost c (b1, e'))"
    if "\<not> env_cancelled e1" "later e1 e'" "b1 = b\<lparr>bd_paused_time := bd_paused_time b + d\<rparr> \<or> b1 = b" for b1 e' d
  proof -
    have "length (env_rest e') < length (env_rest e)"
      using that(1,2) unfolding e1_def by (rule later_decreases)
    then have "gate_outcome c b1 e' (before_operation_with_cost c (b1, e'))" by (rule less)
    then show ?thesis
      by (rule gate_outcome_step) (use that(3) later_trans[OF l(5) that(2)] in auto)
  qed
  consider (cancelled) "env_cancelled e1" | (paused) "\<not> env_cancelled e1" "env_paused e2"
    | (wait) "\<not> env_cancelled e1" "\<not> env_paused e2" wait
    | (start) "\<not> env_cancelled e1" "\<not> env_paused e2" "\<not> wait" by blast
  then show ?case
  proof cases
    case cancelled
    then show ?thesis
      by (subst before_operation_with_cost.simps)
        (simp add: Let_def e1_def[symmetric] gate_outcome_cancelled l)
  next
    case paused
    define w where "w = advance (wait_while_paused e3)"
    have "later e1 w" using l(2) by (auto simp: w_def intro: later_intros)
    then have "gate_outcome c b e (before_operation_with_cost c
        (b\<lparr>bd_paused_time := bd_paused_time b + (env_now w - env_now e3)\<rparr>, w))"
      using paused(1) by (blast intro: retry)
    with paused show ?thesis
      by (subst before_operation_with_cost.simps)
        (simp add: Let_def e1_def[symmetric] e2_def[symmetric] e3_def[symmetric] w_def[symmetric])
  next
    case wait
    with retry[of e4 b] l show ?thesis
      by (subst before_operation_with_cost.simps)
        (simp add: Let_def e1_def[symmetric] e2_def[symmetric] e3_def[symmetric] e4_def wait_def
          split: option.splits)
  next
    case start
    define e5 where "e5 = advance e4"
    define e6 where "e6 = advance e5"
    have l': "later e1 e5" "later e1 e6" "later e e5" "later e5 e6" "later e4 e6" "later e3 e6"
      using l later_trans[OF l(5) l(4)] by (auto simp: e5_def e6_def intro!: later_intros)
    have "gate_outcome c b e (start_operation (b, e6))" if "\<not> env_cancelled e5"
    proof (rule gate_outcome_start)
      show "\<not> env_cancelled e3"
        using that later_cancelled[OF later_trans[OF l(3)], of e5] by (auto simp: e5_def intro: later_intros)
      show "later e e3" using l(5) l(2) by (rule later_trans)
      fix last assume "bd_last_started b = Some last"
      with start(3) have "pacing_interval (get_pacing (env_control e3)) c < env_now e4 - last"
        by (simp add: wait_def)
      with later_now[OF l'(5)]
      show "pacing_interval (get_pacing (env_control e3)) c < env_now e6 - last" by simp
    qed (rule l'(6))
    moreover have "gate_outcome c b e (before_operation_with_cost c (b, e5))"
      "gate_outcome c b e (before_operation_with_cost c (b, e6))"
      using retry[of _ b] start(1) l' by blast+
    ultimately show ?thesis using start
      by (subst before_operation_with_cost.simps)
        (simp add: Let_def e1_def[symmetric] e2_def[symmetric] e3_def[symmetric] e4_def wait_def
          e5_def e6_def split: option.splits)
  qed
qed

section \<open>Rounding\<close>

lemma round_half_even_close:
  assumes "0 < b"
  shows "\<bar>2 * int (round_half_even a b) * int b - 2 * int a\<bar> \<le> int b"
proof -
  define q r where "q = a div b" and "r = a mod b"
  have a: "int a = int q * int b + int r"
    unfolding q_def r_def by (metis div_mult_mod_eq of_nat_add of_nat_mult)
  have r: "int r < int b" using assms by (simp add: r_def)
  show ?thesis
  proof (cases "2 * r < b \<or> (2 * r = b \<and> even q)")
    case True
    then have "round_half_even a b = q" by (simp add: round_half_even_def Let_def q_def r_def)
    with a r True show ?thesis by (auto simp: algebra_simps abs_if)
  next
    case False
    then have "round_half_even a b = q + 1" "b \<le> 2 * r"
      by (auto simp: round_half_even_def Let_def q_def r_def)
    with a r show ?thesis by (auto simp: algebra_simps abs_if)
  qed
qed

lemma f64_div_shift_enough:
  assumes "0 < a" and "b < 2 ^ 32"
  shows "b * 2 ^ 52 \<le> a * 2 ^ f64_div_shift a b"
proof -
  let ?P = "\<lambda>k. a * 2 ^ k < b * 2 ^ 52"
  let ?n = "f64_div_shift a b"
  have "\<not> ?P 84"
  proof -
    have "b * 2 ^ 52 < 2 ^ 32 * 2 ^ 52" using assms(2) by simp
    also have "\<dots> \<le> a * 2 ^ 84" using assms(1) by simp
    finally show ?thesis by simp
  qed
  then have "takeWhile ?P [0..<85] \<noteq> [0..<85]"
    unfolding takeWhile_eq_all_conv set_upt by (auto intro!: bexI[of _ 84])
  then have "?n < length [0..<85]"
    unfolding f64_div_shift_def
    by (metis length_takeWhile_le le_neq_implies_less takeWhile_eq_take take_all_iff)
  then have "\<not> ?P ([0..<85] ! ?n)"
    unfolding f64_div_shift_def by (rule nth_length_takeWhile)
  with \<open>?n < length [0..<85]\<close> show ?thesis by (simp del: upt_Suc)
qed

lemma clear_scale:
  fixes K D a b :: int
  assumes "0 < K" and "\<bar>2 * K * D\<bar> \<le> K * b + b * 1000000000" and "b * 2 ^ 52 \<le> a * K"
  shows "2 ^ 53 * \<bar>D\<bar> \<le> 2 ^ 52 * b + a * 1000000000"
proof -
  have "2 * (K * \<bar>D\<bar>) \<le> K * b + b * 1000000000"
    using assms(1,2) by (simp only: abs_mult abs_of_pos mult.assoc abs_numeral)
  then have "K * (2 ^ 53 * \<bar>D\<bar>) \<le> K * (2 ^ 52 * b + a * 1000000000)"
    using assms(3) by (simp add: algebra_simps)
  with assms(1) show ?thesis by (simp only: mult_le_cancel_left_pos)
qed

lemma product_close:
  fixes i m a b K G :: int
  assumes m: "\<bar>2 * m * b - 2 * (a * K)\<bar> \<le> b" and i: "\<bar>2 * i * K - 2 * (m * G)\<bar> \<le> K"
    and "0 \<le> b" and "0 \<le> G"
  shows "\<bar>2 * K * (i * b - a * G)\<bar> \<le> K * b + b * G"
proof -
  have "2 * K * (i * b - a * G) = (2 * i * K - 2 * (m * G)) * b + (2 * m * b - 2 * (a * K)) * G"
    by (simp add: algebra_simps)
  also have "\<bar>\<dots>\<bar> \<le> \<bar>2 * i * K - 2 * (m * G)\<bar> * b + \<bar>2 * m * b - 2 * (a * K)\<bar> * G"
    using assms(3,4) abs_triangle_ineq by (metis abs_mult abs_of_nonneg)
  also have "\<dots> \<le> K * b + b * G"
    using assms by (intro add_mono mult_right_mono)
  finally show ?thesis .
qed

lemma f64_seconds_close:
  assumes "0 < a" and "0 < b" and "b < 2 ^ 32"
  shows "2 ^ 53 * \<bar>int (from_secs_f64 (f64_div a b)) * int b - int a * 1000000000\<bar>
    \<le> 2 ^ 52 * int b + int a * 1000000000"
proof -
  define k where "k = f64_div_shift a b"
  define m where "m = round_half_even (a * 2 ^ k) b"
  define i where "i = round_half_even (m * 1000000000) (2 ^ k)"
  define K :: int where "K = 2 ^ k"
  have K: "0 < K" by (simp add: K_def)
  have m: "\<bar>2 * int m * int b - 2 * (int a * K)\<bar> \<le> int b"
    using round_half_even_close[OF assms(2), of "a * 2 ^ k"] by (simp add: m_def K_def)
  have "0 < (2 :: nat) ^ k" by simp
  from round_half_even_close[OF this, of "m * 1000000000"]
  have i: "\<bar>2 * int i * K - 2 * (int m * 1000000000)\<bar> \<le> K" by (simp add: i_def K_def)
  have sum: "\<bar>2 * K * (int i * int b - int a * 1000000000)\<bar> \<le> K * int b + int b * 1000000000"
    by (rule product_close[OF m i]) simp_all
  have "b * 2 ^ 52 \<le> a * 2 ^ k" unfolding k_def by (rule f64_div_shift_enough) (use assms in simp_all)
  then have shift: "int b * 2 ^ 52 \<le> int a * K"
    unfolding K_def using of_nat_mono[of "b * 2 ^ 52" "a * 2 ^ k", where 'a = int]
    by (simp only: of_nat_mult of_nat_power of_nat_numeral)
  from clear_scale[OF K sum shift]
  have "2 ^ 53 * \<bar>int i * int b - int a * 1000000000\<bar> \<le> 2 ^ 52 * int b + int a * 1000000000" .
  then show ?thesis
    by (simp add: from_secs_f64_def f64_div_def Let_def k_def[symmetric] m_def[symmetric] i_def[symmetric])
qed

section \<open>One paced call\<close>

lemma timed_run:
  "timed k op s = (case op (s\<lparr>gt_env := advance (gt_env s)\<rparr>) of
     None \<Rightarrow> None
   | Some (r, t) \<Rightarrow> let e = advance (gt_env t) in
       Some (r, t\<lparr>gt_env := e, gt_boundary := record_operation k
         (env_now e - env_now (advance (gt_env s))) (gt_boundary t)\<rparr>))"
  by (auto simp: timed_def prog_defs instant_now_def Let_def split: option.split)

lemma on_world_run:
  "on_world op s = (case op (gt_world s) of None \<Rightarrow> None | Some (r, w) \<Rightarrow> Some (r, s\<lparr>gt_world := w\<rparr>))"
  by (simp add: on_world_def zoom_def)

lemma map_errp_run:
  "map_errp f m s = (case m s of None \<Rightarrow> None | Some (r, t) \<Rightarrow> Some (map_sum f id r, t))"
  by (auto simp: map_errp_def split: option.split sum.split)

lemma before_operation_run:
  "before_operation c s = (case before_operation_with_cost c (gt_boundary s, gt_env s) of
     (r, b, e) \<Rightarrow> Some (Inr r, s\<lparr>gt_boundary := b, gt_env := e\<rparr>))"
  by (simp add: before_operation_def effect_def split: prod.split)

lemma paced_call_cases:
  assumes "paced_call k c op s = Some (r, s')"
  obtains (cancelled) e b where
      "before_operation_with_cost c (gt_boundary s, gt_env s) = (BoundaryCancelled, b, e)"
      "r = Inl Cancelled" "s' = s\<lparr>gt_boundary := b, gt_env := e\<rparr>"
  | (ran) b e r0 w where
      "before_operation_with_cost c (gt_boundary s, gt_env s) = (Proceed, b, e)"
      "op (gt_world s) = Some (r0, w)" "r = map_sum Failed id r0"
      "s' = s\<lparr>gt_world := w, gt_env := advance (advance e),
        gt_boundary := record_operation k (env_now (advance (advance e)) - env_now (advance e)) b\<rparr>"
proof -
  obtain g b e where gate: "before_operation_with_cost c (gt_boundary s, gt_env s) = (g, b, e)"
    by (cases "before_operation_with_cost c (gt_boundary s, gt_env s)")
  show thesis
  proof (cases g)
    case BoundaryCancelled
    with assms gate show thesis
      by (intro cancelled) (auto simp: paced_call_def bindp_def before_operation_run throw_def)
  next
    case Proceed
    with assms gate obtain r0 w where "op (gt_world s) = Some (r0, w)"
      by (auto simp: paced_call_def bindp_def before_operation_run timed_run map_errp_run on_world_run
          split: option.splits)
    with assms gate Proceed show thesis
      by (intro ran[of b e r0 w])
        (auto simp: paced_call_def bindp_def before_operation_run timed_run map_errp_run on_world_run Let_def)
  qed
qed

lemma gate_when_cancelled:
  "env_cancelled e \<Longrightarrow> before_operation_with_cost c (b, e) = (BoundaryCancelled, b, advance e)"
  by (subst before_operation_with_cost.simps) (simp add: Let_def advance_sticky)

section \<open>Properties\<close>

text \<open>
  The pacing interval is never below the configured minimum, is exactly that minimum when
  no positive item rate is set, and otherwise, when the rate governs, it is \<open>cost / rate\<close>
  seconds in nanoseconds up to the two roundings: half a nanosecond and one part in 2\<open>^\<close>53.
\<close>

theorem pacing_interval_accurate:
  "min_interval p \<le> pacing_interval p c
   \<and> (item_rate_per_second p = None \<or> item_rate_per_second p = Some 0 \<longrightarrow>
        pacing_interval p c = min_interval p)
   \<and> (\<forall>rate. item_rate_per_second p = Some rate \<and> 0 < rate \<and> min_interval p < pacing_interval p c \<longrightarrow>
        2 ^ 53 * \<bar>int (pacing_interval p c) * int (unat rate) - int (unat (max c 1)) * 1000000000\<bar>
          \<le> 2 ^ 52 * int (unat rate) + int (unat (max c 1)) * 1000000000)"
proof -
  have "2 ^ 53 * \<bar>int (pacing_interval p c) * int (unat rate) - int (unat (max c 1)) * 1000000000\<bar>
          \<le> 2 ^ 52 * int (unat rate) + int (unat (max c 1)) * 1000000000"
    if rate: "item_rate_per_second p = Some rate" "0 < rate" "min_interval p < pacing_interval p c" for rate
  proof -
    have "pacing_interval p c = from_secs_f64 (f64_div (unat (max c 1)) (unat rate))"
      using rate by (auto simp: pacing_interval_def Let_def max_def split: if_splits)
    moreover have "(1 :: u32) \<le> max c 1" by simp
    then have "unat (1 :: u32) \<le> unat (max c 1)" by (simp only: word_le_nat_alt)
    then have "0 < unat (max c 1)" by simp
    moreover have "0 < unat rate" using rate(2) by (simp add: word_greater_zero_iff unat_gt_0)
    moreover have "unat rate < 2 ^ 32" using unsigned_less[of rate] by simp
    ultimately show ?thesis by (simp only: f64_seconds_close)
  qed
  then show ?thesis by (auto simp: pacing_interval_def Let_def)
qed

theorem pacing_interval_accurate_witness:
  "2 ^ 53 * \<bar>int (pacing_interval \<lparr>min_interval = 0, item_rate_per_second = Some 3\<rparr> 1) * 3 - 1000000000\<bar>
     \<le> (2 ^ 52 * 3 + 1000000000 :: int)"
proof -
  let ?p = "\<lparr>min_interval = 0, item_rate_per_second = Some 3\<rparr>"
  have "pacing_interval ?p 1 = from_secs_f64 (f64_div 1 3)"
    by (simp add: pacing_interval_def Let_def)
  then have "min_interval ?p < pacing_interval ?p 1"
    using f64_seconds_close[of 1 3] by (cases "from_secs_f64 (f64_div 1 3)") auto
  with pacing_interval_accurate[of ?p 1] show ?thesis by simp
qed

text \<open>An environment that is never cancelled while its ticks last, for the examples.\<close>

definition quiet_env :: "nat \<Rightarrow> env" where
  "quiet_env n = \<lparr>env_current = \<lparr>tk_now = 0, tk_control = control_new\<rparr>,
     env_rest = replicate n \<lparr>tk_now = 5, tk_control = control_new\<rparr>\<rparr>"

lemma quiet_gate:
  "\<exists>b e. before_operation_with_cost c (boundary_new, quiet_env 9) = (Proceed, b, e)"
proof -
  have "fst (before_operation_with_cost c (boundary_new, quiet_env 9)) = Proceed"
    by (simp add: before_operation_with_cost.simps Let_def advance_def env_cancelled_def env_control_def
        env_paused_def boundary_new_def control_new_def start_operation_def quiet_env_def numeral_eq_Suc)
  then show ?thesis by (metis prod.exhaust fst_conv)
qed



text \<open>
  A paced call runs its native operation at most once. Either it ran once, its error is
  passed on as a failure and exactly one observation of its kind was recorded; or the call
  was cancelled, and then the world and the telemetry are untouched. A call under
  cancellation is always refused.
\<close>

theorem paced_call_runs_once:
  "(\<forall>r s'. paced_call k c op s = Some (r, s') \<longrightarrow>
      (\<exists>r0 d. op (gt_world s) = Some (r0, gt_world s') \<and> r = map_sum Failed id r0 \<and>
         bd_telemetry (gt_boundary s') = collector_record k d (bd_telemetry (gt_boundary s)) \<and>
         bd_native_operations (gt_boundary s') = sat_add (bd_native_operations (gt_boundary s)) 1) \<or>
      (r = Inl Cancelled \<and> gt_world s' = gt_world s \<and> env_cancelled (gt_env s') \<and>
         bd_telemetry (gt_boundary s') = bd_telemetry (gt_boundary s) \<and>
         bd_native_operations (gt_boundary s') = bd_native_operations (gt_boundary s)))
   \<and> (env_cancelled (gt_env s) \<longrightarrow>
      (\<exists>s'. paced_call k c op s = Some (Inl Cancelled, s') \<and> gt_world s' = gt_world s))"
proof -
  have "(\<exists>r0 d. op (gt_world s) = Some (r0, gt_world s') \<and> r = map_sum Failed id r0 \<and>
         bd_telemetry (gt_boundary s') = collector_record k d (bd_telemetry (gt_boundary s)) \<and>
         bd_native_operations (gt_boundary s') = sat_add (bd_native_operations (gt_boundary s)) 1) \<or>
      (r = Inl Cancelled \<and> gt_world s' = gt_world s \<and> env_cancelled (gt_env s') \<and>
         bd_telemetry (gt_boundary s') = bd_telemetry (gt_boundary s) \<and>
         bd_native_operations (gt_boundary s') = bd_native_operations (gt_boundary s))"
    if "paced_call k c op s = Some (r, s')" for r s'
    using that gate_outcome[of c "gt_boundary s" "gt_env s"]
    by (cases rule: paced_call_cases) (auto simp: gate_outcome_def record_operation_def)
  moreover have "\<exists>s'. paced_call k c op s = Some (Inl Cancelled, s') \<and> gt_world s' = gt_world s"
    if "env_cancelled (gt_env s)"
    using that
    by (simp add: paced_call_def bindp_def before_operation_run gate_when_cancelled throw_def)
  ultimately show ?thesis by blast
qed

theorem paced_call_runs_once_witness:
  "\<exists>s'. paced_call Da3Page 1 (\<lambda>w. Some (Inr w, w + 1))
      \<lparr>gt_boundary = boundary_new, gt_env = quiet_env 9, gt_world = 7 :: nat\<rparr> = Some (Inr (7 :: nat), s')
    \<and> gt_world s' = 8 \<and> bd_native_operations (gt_boundary s') = 1"
proof -
  let ?op = "\<lambda>w. Some (Inr w, w + 1)"
  let ?s = "\<lparr>gt_boundary = boundary_new, gt_env = quiet_env 9, gt_world = 7 :: nat\<rparr>"
  obtain b e where gate: "before_operation_with_cost 1 (boundary_new, quiet_env 9) = (Proceed, b, e)"
    using quiet_gate by blast
  then have run: "\<exists>s'. paced_call Da3Page 1 ?op ?s = Some (Inr 7, s')"
    by (simp add: paced_call_def bindp_def before_operation_run timed_run map_errp_run on_world_run Let_def)
  then obtain s' where run: "paced_call Da3Page 1 ?op ?s = Some (Inr 7, s')" ..
  have "sat_add (bd_native_operations boundary_new) 1 = 1"
    by (simp add: boundary_new_def sat_add_def)
  with run paced_call_runs_once[of Da3Page 1 ?op ?s] show ?thesis by fastforce
qed

end
