(* ===== verification/Iterators.thy ===== *)
theory Iterators
  imports Boundary
begin

text \<open>
  The enumerators of names: \<open>GuidIterator\<close>, \<open>GroupIterator\<close> and \<open>StringIterator\<close>
  (\<open>opc_da/client/iterator.rs\<close>), the trait \<open>BrowseStringIterator\<close> with its default method
  and the guard against servers that repeat a value (\<open>backend/connector.rs\<close>), and the
  one-element buffer around a guarded iterator (\<open>inventory/iterator.rs\<close>,
  \<open>native_browse/da2.rs\<close>).

  The COM enumerator is third-party code: \<open>ih_next\<close> is its \<open>Next\<close> method on the state \<open>'s\<close>
  of its host. It returns the HRESULT, the slots it wrote from the front of the (zeroed)
  cache, and the count it reported; nothing is assumed of them. A slot is null, a string, or
  memory that does not decode to a string, with the code and text of the conversion error. Freeing the
  COM memory of a slot has no effect on the values and is left out; what \<open>mem::replace\<close> does
  to the cache is kept. Indices and counts are natural numbers: the code keeps both at most
  256 wherever it adds to them.
\<close>

datatype pwstr = PNull | PText string | PBad u32 string

record refill =
  rf_code :: u32
  rf_slots :: "pwstr list"
  rf_count :: u32

definition hresult_is_ok :: "u32 \<Rightarrow> bool" where
  "hresult_is_ok code = (0 \<le> sint code)"

text \<open>What the caller of a gated \<open>next\<close> provides, with the native enumerator.\<close>

record 's iterator_host =
  ih_before :: "u32 \<Rightarrow> 's \<Rightarrow> bool \<times> 's"
  ih_cancel :: "'s \<Rightarrow> bool \<times> 's"
  ih_now :: "'s \<Rightarrow> nat \<times> 's"
  ih_next :: "'s \<Rightarrow> refill \<times> 's"
  ih_record :: "op_kind \<Rightarrow> duration \<Rightarrow> 's \<Rightarrow> 's"

definition MAX_CACHE_SIZE :: nat where "MAX_CACHE_SIZE = 16"
definition STRING_CACHE_SIZE :: nat where "STRING_CACHE_SIZE = 256"

definition validate_fetched_count :: "u32 \<Rightarrow> nat \<Rightarrow> string \<Rightarrow> opc_error + unit" where
  "validate_fetched_count count capacity iterator =
     (if capacity < unat count then
        Inl (Internal (iterator @ '' returned '' @ show_nat (unat count) @ '' entries for a '' @
          show_nat capacity @ ''-entry cache''))
      else Inr ())"

section \<open>StringIterator\<close>

record string_iterator =
  si_cache :: "pwstr list"
  si_index :: nat
  si_count :: nat
  si_done :: bool
  si_populated :: nat
  si_last_value :: "string option"
  si_consecutive :: nat
  si_yielded :: nat
  si_empty_batches :: nat

definition string_iterator_new :: string_iterator where
  "string_iterator_new = \<lparr>si_cache = replicate STRING_CACHE_SIZE PNull, si_index = STRING_CACHE_SIZE,
     si_count = 0, si_done = False, si_populated = 0, si_last_value = None, si_consecutive = 0,
     si_yielded = 0, si_empty_batches = 0\<rparr>"

text \<open>What a \<open>next\<close> returns.\<close>

type_synonym next_result = "(opc_error + string) option"

definition fill_cache :: "refill \<Rightarrow> string_iterator \<Rightarrow> string_iterator" where
  "fill_cache r it =
     it\<lparr>si_cache := take STRING_CACHE_SIZE (rf_slots r @ replicate STRING_CACHE_SIZE PNull),
        si_index := 0, si_count := unat (rf_count r),
        si_populated := min (unat (rf_count r)) STRING_CACHE_SIZE\<rparr>"

definition null_count :: "string_iterator \<Rightarrow> nat" where
  "null_count it = length (filter (\<lambda>p. p = PNull) (take (si_populated it) (si_cache it)))"

text \<open>The checks after a refill: \<open>Inl\<close> returns from \<open>next\<close>, \<open>Inr\<close> goes on to read a slot.\<close>

definition accept_refill :: "refill \<Rightarrow> string_iterator \<Rightarrow> (next_result + unit) \<times> string_iterator" where
  "accept_refill r it =
     (if hresult_is_ok (rf_code r) then
        case validate_fetched_count (rf_count r) STRING_CACHE_SIZE ''IEnumString'' of
          Inl error \<Rightarrow> (Inl (Some (Inl error)), it\<lparr>si_done := True\<rparr>)
        | Inr _ \<Rightarrow>
            if si_count it = 0 then (Inl None, it\<lparr>si_done := True\<rparr>)
            else if null_count it = si_populated it then
              (let it = it\<lparr>si_empty_batches := si_empty_batches it + 1\<rparr>
               in if MAX_CONSECUTIVE_IDENTICAL_BROWSE_VALUES \<le> si_empty_batches it then
                    (Inl (Some (Inl (browse_non_progress_error ''IEnumString'' [] ''<null PWSTR>''
                       (si_empty_batches it) (si_yielded it)))), it\<lparr>si_done := True\<rparr>)
                  else (Inr (), it\<lparr>si_index := 0\<rparr>))
            else (Inr (), it\<lparr>si_empty_batches := 0, si_index := 0\<rparr>)
      else (Inl (Some (Inl (Com (rf_code r) ''Failed to get next string''))), it\<lparr>si_done := True\<rparr>))"

definition refill_cache ::
  "'s iterator_host \<Rightarrow> string_iterator \<Rightarrow> 's \<Rightarrow> (next_result + unit) \<times> string_iterator \<times> 's" where
  "refill_cache host it s =
     (case ih_before host (of_nat (length (si_cache it))) s of
        (False, s) \<Rightarrow> (Inl None, it, s)
      | (True, s) \<Rightarrow>
          case ih_now host s of (started, s) \<Rightarrow>
          case ih_next host s of (r, s) \<Rightarrow>
          case ih_now host s of (ended, s) \<Rightarrow>
          let s = ih_record host Da2StringRefill (ended - started) s
          in case accept_refill r (fill_cache r it) of (out, it) \<Rightarrow> (out, it, s))"

text \<open>A decoded value is counted and compared with the one before it.\<close>

definition yield_value :: "string \<Rightarrow> string_iterator \<Rightarrow> next_result \<times> string_iterator" where
  "yield_value val it =
     (let it = it\<lparr>si_yielded := si_yielded it + 1\<rparr>;
          it = (if si_last_value it = Some val then it\<lparr>si_consecutive := si_consecutive it + 1\<rparr>
                else it\<lparr>si_last_value := Some val, si_consecutive := 1\<rparr>)
      in if MAX_CONSECUTIVE_IDENTICAL_BROWSE_VALUES \<le> si_consecutive it then
           (Some (Inl (browse_non_progress_error ''IEnumString'' [] val (si_consecutive it)
              (si_yielded it))), it\<lparr>si_done := True\<rparr>)
         else (Some (Inr val), it))"

definition take_slot :: "string_iterator \<Rightarrow> pwstr \<times> string_iterator" where
  "take_slot it = (si_cache it ! si_index it,
     it\<lparr>si_cache := (si_cache it)[si_index it := PNull], si_index := si_index it + 1\<rparr>)"

text \<open>
  Why the loop ends: skipping a null slot brings the index closer to the count, a refill
  either brings a string (which the loop then reaches before it refills again) or is one
  more batch of nulls, of which 64 in a row are an error.
\<close>

definition string_waiting :: "string_iterator \<Rightarrow> bool" where
  "string_waiting it = (\<exists>i\<in>{si_index it ..< si_count it}. si_cache it ! i \<noteq> PNull)"

definition next_measure :: "string_iterator \<Rightarrow> nat \<times> nat \<times> nat" where
  "next_measure it =
     (if string_waiting it then 0 else 1,
      MAX_CONSECUTIVE_IDENTICAL_BROWSE_VALUES - si_empty_batches it,
      si_count it - si_index it)"

definition next_order :: "(string_iterator \<times> string_iterator) set" where
  "next_order = inv_image (less_than <*lex*> less_than <*lex*> less_than) next_measure"

lemma wf_next_order: "wf next_order"
  by (auto simp: next_order_def)

lemma accept_refill_progress:
  assumes "accept_refill r (fill_cache r it0) = (Inr (), it)"
  shows "si_index it = 0 \<and> 0 < si_count it \<and> si_count it \<le> STRING_CACHE_SIZE
    \<and> length (si_cache it) = STRING_CACHE_SIZE
    \<and> (string_waiting it \<and> si_empty_batches it = 0 \<or>
       si_empty_batches it = si_empty_batches it0 + 1 \<and>
       si_empty_batches it < MAX_CONSECUTIVE_IDENTICAL_BROWSE_VALUES)"
proof -
  let ?f = "fill_cache r it0"
  have len: "length (si_cache ?f) = STRING_CACHE_SIZE" by (simp add: fill_cache_def)
  have pop: "si_populated ?f = si_count ?f" if "si_count ?f \<le> STRING_CACHE_SIZE"
    using that by (simp add: fill_cache_def)
  have waiting: "string_waiting (?f\<lparr>si_empty_batches := 0, si_index := 0\<rparr>)"
    if le: "si_count ?f \<le> STRING_CACHE_SIZE" and some: "null_count ?f \<noteq> si_populated ?f"
  proof -
    have "\<not> (\<forall>p\<in>set (take (si_populated ?f) (si_cache ?f)). p = PNull)"
    proof
      assume all: "\<forall>p\<in>set (take (si_populated ?f) (si_cache ?f)). p = PNull"
      have "null_count ?f = si_populated ?f"
        unfolding null_count_def using filter_True[OF all] len pop[OF le] le by simp
      with some show False ..
    qed
    then show ?thesis
      using pop[OF le] le len
      by (fastforce simp: string_waiting_def in_set_conv_nth)
  qed
  show ?thesis
    using assms len waiting
    by (auto simp: accept_refill_def validate_fetched_count_def Let_def fill_cache_def
        split: if_splits)
qed


lemma skip_null:
  assumes "si_cache it ! si_index it = PNull" and "si_index it < si_count it"
  shows "string_waiting (snd (take_slot it)) = string_waiting it"
proof -
  have "{si_index it ..< si_count it} = insert (si_index it) {Suc (si_index it) ..< si_count it}"
    using assms(2) by auto
  then show ?thesis
    using assms(1) by (auto simp: string_waiting_def take_slot_def)
qed

lemma skip_null_progress:
  assumes "take_slot it = (PNull, it')" and "si_index it < si_count it"
  shows "(it', it) \<in> next_order"
  using assms skip_null[of it]
  by (auto simp: next_order_def next_measure_def take_slot_def)

lemma refill_progress:
  assumes "refill_cache host it s = (Inr u, it1, s1)" and "take_slot it1 = (PNull, it')"
    and "si_count it \<le> si_index it"
  shows "(it', it) \<in> next_order"
proof -
  from assms(1) obtain r where acc: "accept_refill r (fill_cache r it) = (Inr (), it1)"
    by (auto simp: refill_cache_def Let_def split: prod.splits bool.splits)
  note p = accept_refill_progress[OF acc]
  have "\<not> string_waiting it" using assms(3) by (simp add: string_waiting_def)
  moreover have "string_waiting it' = string_waiting it1"
    using assms(2) p skip_null[of it1] by (simp add: take_slot_def)
  moreover have "si_empty_batches it' = si_empty_batches it1"
    using assms(2) by (auto simp: take_slot_def)
  ultimately show ?thesis
    using p by (auto simp: next_order_def next_measure_def)
qed

text \<open>\<open>if self.index >= self.count \{ .. \}\<close>\<close>

definition ensure_cached ::
  "'s iterator_host \<Rightarrow> string_iterator \<Rightarrow> 's \<Rightarrow> (next_result + unit) \<times> string_iterator \<times> 's" where
  "ensure_cached host it s =
     (if si_count it \<le> si_index it then refill_cache host it s else (Inr (), it, s))"

lemma ensure_cached_progress:
  "ensure_cached host it s = (Inr u, it1, s1) \<Longrightarrow> take_slot it1 = (PNull, it') \<Longrightarrow> (it', it) \<in> next_order"
  by (auto simp: ensure_cached_def not_le split: if_splits intro: refill_progress skip_null_progress)

text \<open>\<open>StringIterator::next_with_gate\<close>\<close>

function next_with_gate ::
  "'s iterator_host \<Rightarrow> string_iterator \<Rightarrow> 's \<Rightarrow> next_result \<times> string_iterator \<times> 's" where
  "next_with_gate host it s =
     (if si_done it then (None, it, s)
      else case ih_cancel host s of (cancel, s) \<Rightarrow>
        if cancel then (None, it, s)
        else case ensure_cached host it s of
               (Inl out, it, s) \<Rightarrow> (out, it, s)
             | (Inr _, it, s) \<Rightarrow>
                 case take_slot it of (p, it) \<Rightarrow>
                   case p of
                     PNull \<Rightarrow> next_with_gate host it s
                   | PBad code text \<Rightarrow> (Some (Inl (Com code text)), it, s)
                   | PText val \<Rightarrow> (case yield_value val it of (out, it) \<Rightarrow> (out, it, s)))"
  by pat_completeness auto

termination next_with_gate
proof (relation "inv_image next_order (\<lambda>(host, it, s). it)")
  show "wf (inv_image next_order (\<lambda>(host, it, s). it))"
    by (simp add: wf_next_order)
qed (auto, metis ensure_cached_progress)

declare next_with_gate.simps [simp del]

lemma next_with_gate_done: "si_done it \<Longrightarrow> next_with_gate host it s = (None, it, s)"
  by (subst next_with_gate.simps) simp

lemma next_with_gate_cancelled:
  "\<not> si_done it \<Longrightarrow> ih_cancel host s = (True, s1) \<Longrightarrow> next_with_gate host it s = (None, it, s1)"
  by (subst next_with_gate.simps) simp

lemma next_with_gate_returned:
  "\<not> si_done it \<Longrightarrow> ih_cancel host s = (False, s1) \<Longrightarrow> ensure_cached host it s1 = (Inl out, it1, s2) \<Longrightarrow>
   next_with_gate host it s = (out, it1, s2)"
  by (subst next_with_gate.simps) simp

lemma next_with_gate_slot:
  "\<not> si_done it \<Longrightarrow> ih_cancel host s = (False, s1) \<Longrightarrow> ensure_cached host it s1 = (Inr (), it1, s2) \<Longrightarrow>
   take_slot it1 = (p, it2) \<Longrightarrow>
   next_with_gate host it s = (case p of
       PNull \<Rightarrow> next_with_gate host it2 s2
     | PBad code text \<Rightarrow> (Some (Inl (Com code text)), it2, s2)
     | PText val \<Rightarrow> (case yield_value val it2 of (out, it) \<Rightarrow> (out, it, s2)))"
  by (subst next_with_gate.simps) (simp split: pwstr.split)

text \<open>The four ways through the loop body, as an induction over the null slots skipped.\<close>

lemma next_with_gate_induct [case_names stopped cancelled returned bad found null]:
  assumes stopped: "\<And>it s. si_done it \<Longrightarrow> P it s (None, it, s)"
    and cancelled: "\<And>it s s1. \<not> si_done it \<Longrightarrow> ih_cancel host s = (True, s1) \<Longrightarrow> P it s (None, it, s1)"
    and returned: "\<And>it s s1 out it1 s2. \<not> si_done it \<Longrightarrow> ih_cancel host s = (False, s1) \<Longrightarrow>
      ensure_cached host it s1 = (Inl out, it1, s2) \<Longrightarrow> P it s (out, it1, s2)"
    and bad: "\<And>it s s1 it1 s2 it2 code t. \<not> si_done it \<Longrightarrow> ih_cancel host s = (False, s1) \<Longrightarrow>
      ensure_cached host it s1 = (Inr (), it1, s2) \<Longrightarrow> take_slot it1 = (PBad code t, it2) \<Longrightarrow>
      P it s (Some (Inl (Com code t)), it2, s2)"
    and found: "\<And>it s s1 it1 s2 it2 val out it3. \<not> si_done it \<Longrightarrow> ih_cancel host s = (False, s1) \<Longrightarrow>
      ensure_cached host it s1 = (Inr (), it1, s2) \<Longrightarrow> take_slot it1 = (PText val, it2) \<Longrightarrow>
      yield_value val it2 = (out, it3) \<Longrightarrow> P it s (out, it3, s2)"
    and null: "\<And>it s s1 it1 s2 it2. \<not> si_done it \<Longrightarrow> ih_cancel host s = (False, s1) \<Longrightarrow>
      ensure_cached host it s1 = (Inr (), it1, s2) \<Longrightarrow> take_slot it1 = (PNull, it2) \<Longrightarrow>
      P it2 s2 (next_with_gate host it2 s2) \<Longrightarrow> P it s (next_with_gate host it2 s2)"
  shows "P it s (next_with_gate host it s)"
proof (induction it arbitrary: s rule: wf_induct_rule[OF wf_next_order])
  case (1 it)
  obtain c s1 where c: "ih_cancel host s = (c, s1)" by (cases "ih_cancel host s")
  obtain r it1 s2 where r: "ensure_cached host it s1 = (r, it1, s2)" by (cases "ensure_cached host it s1")
  obtain p it2 where p: "take_slot it1 = (p, it2)" by (cases "take_slot it1")
  consider (a) "si_done it" | (b) "\<not> si_done it" c | (c) out where "\<not> si_done it" "\<not> c" "r = Inl out"
    | (d) "\<not> si_done it" "\<not> c" "r = Inr ()"
    by (cases r) auto
  then show ?case
  proof cases
    case a
    then show ?thesis by (simp add: next_with_gate_done stopped)
  next
    case b
    with c cancelled show ?thesis by (simp add: next_with_gate_cancelled)
  next
    case c': c
    with c have "ih_cancel host s = (False, s1)" by simp
    from next_with_gate_returned[OF c'(1) this r[unfolded c'(3)]] returned[OF c'(1) this r[unfolded c'(3)]]
    show ?thesis by simp
  next
    case d
    with c r have now: "\<not> si_done it" "ih_cancel host s = (False, s1)" "ensure_cached host it s1 = (Inr (), it1, s2)"
      by simp_all
    show ?thesis
    proof (cases p)
      case PNull
      with 1 p null now show ?thesis
        by (simp add: next_with_gate_slot[OF now p] ensure_cached_progress[OF now(3)])
    next
      case (PText val)
      with p found[OF now] show ?thesis
        by (auto simp: next_with_gate_slot[OF now p] split: prod.split)
    next
      case (PBad code t)
      with p bad[OF now] show ?thesis by (simp add: next_with_gate_slot[OF now p])
    qed
  qed
qed

text \<open>\<open>Drop\<close> and \<open>release_pending\<close> free what the cache still holds.\<close>

definition release_pending :: "string_iterator \<Rightarrow> pwstr list \<times> string_iterator" where
  "release_pending it =
     (let start = min (si_index it) (si_populated it)
      in (filter (\<lambda>p. p \<noteq> PNull) (drop start (take (si_populated it) (si_cache it))),
          it\<lparr>si_cache := take start (si_cache it) @ replicate (si_populated it - start) PNull
               @ drop (si_populated it) (si_cache it),
             si_populated := 0\<rparr>))"

section \<open>GuidIterator and GroupIterator\<close>

text \<open>
  Both keep a cache of 16 entries that \<open>Next\<close> overwrites from the front. \<open>conv\<close> is what
  happens to the entry taken: a GUID is copied, an interface pointer is taken out of the
  cache (\<open>None\<close> is a null pointer) and converted to the group type.
\<close>

record 'g array_iterator =
  ai_cache :: "'g list"
  ai_index :: nat
  ai_count :: nat
  ai_done :: bool

definition array_iterator_new :: "'g \<Rightarrow> 'g array_iterator" where
  "array_iterator_new zeroed = \<lparr>ai_cache = replicate MAX_CACHE_SIZE zeroed, ai_index = MAX_CACHE_SIZE,
     ai_count = 0, ai_done = False\<rparr>"

definition array_refill ::
  "string \<Rightarrow> string \<Rightarrow> u32 \<times> 'g list \<times> u32 \<Rightarrow> 'g array_iterator
     \<Rightarrow> ((opc_error option) + unit) \<times> 'g array_iterator" where
  "array_refill name failure reply it =
     (case reply of (code, slots, count) \<Rightarrow>
        let it = it\<lparr>ai_cache := take MAX_CACHE_SIZE (slots @ drop (length slots) (ai_cache it)),
                    ai_count := unat count\<rparr>
        in if hresult_is_ok code then
             (case validate_fetched_count count MAX_CACHE_SIZE name of
                Inl error \<Rightarrow> (Inl (Some error), it\<lparr>ai_done := True\<rparr>)
              | Inr _ \<Rightarrow>
                  if ai_count it = 0 then (Inl None, it\<lparr>ai_done := True\<rparr>)
                  else (Inr (), it\<lparr>ai_index := 0\<rparr>))
           else (Inl (Some (Com code failure)), it\<lparr>ai_done := True\<rparr>))"

definition guid_next ::
  "('s \<Rightarrow> (u32 \<times> 'g list \<times> u32) \<times> 's) \<Rightarrow> 'g array_iterator \<Rightarrow> 's
     \<Rightarrow> (opc_error + 'g) option \<times> 'g array_iterator \<times> 's" where
  "guid_next native it s =
     (if ai_done it then (None, it, s)
      else case (if ai_count it \<le> ai_index it then
                   (case native s of (reply, s) \<Rightarrow>
                      (case array_refill ''IEnumGUID'' ''Failed to get next GUID'' reply it of
                         (r, it) \<Rightarrow> (r, it, s)))
                 else (Inr (), it, s)) of
             (Inl error, it, s) \<Rightarrow> (map_option Inl error, it, s)
           | (Inr _, it, s) \<Rightarrow>
               (Some (Inr (ai_cache it ! ai_index it)), it\<lparr>ai_index := ai_index it + 1\<rparr>, s))"

definition E_POINTER :: u32 where "E_POINTER = 0x80004003"

definition group_next ::
  "('u \<Rightarrow> opc_error + 'g) \<Rightarrow> ('s \<Rightarrow> (u32 \<times> 'u option list \<times> u32) \<times> 's) \<Rightarrow> 'u option array_iterator
     \<Rightarrow> 's \<Rightarrow> (opc_error + 'g) option \<times> 'u option array_iterator \<times> 's" where
  "group_next try_into native it s =
     (if ai_done it then (None, it, s)
      else case (if ai_count it \<le> ai_index it then
                   (case native s of (reply, s) \<Rightarrow>
                      (case array_refill ''IEnumUnknown'' ''Failed to get next group'' reply it of
                         (r, it) \<Rightarrow> (r, it, s)))
                 else (Inr (), it, s)) of
             (Inl error, it, s) \<Rightarrow> (map_option Inl error, it, s)
           | (Inr _, it, s) \<Rightarrow>
               (Some (case ai_cache it ! ai_index it of
                        Some unknown \<Rightarrow> try_into unknown
                      | None \<Rightarrow> Inl (Com E_POINTER ''Failed to get group, returned null'')),
                it\<lparr>ai_cache := (ai_cache it)[ai_index it := None], ai_index := ai_index it + 1\<rparr>, s))"

section \<open>BrowseStringIterator\<close>

text \<open>The default \<open>next_string_with_gate\<close> of the trait, around a plain \<open>next_string\<close>.\<close>

definition default_next_with_gate ::
  "'s iterator_host \<Rightarrow> ('i \<Rightarrow> 's \<Rightarrow> next_result \<times> 'i \<times> 's) \<Rightarrow> 'i \<Rightarrow> 's \<Rightarrow> next_result \<times> 'i \<times> 's" where
  "default_next_with_gate host next_string it s =
     (case ih_cancel host s of (cancel, s) \<Rightarrow>
        if cancel then (None, it, s)
        else case ih_before host 1 s of (proceed, s) \<Rightarrow>
          if proceed then
            (case ih_cancel host s of (cancel, s) \<Rightarrow>
               if cancel then (None, it, s) else next_string it s)
          else (None, it, s))"

record 'i guarded =
  gd_inner :: 'i
  gd_iterator_type :: string
  gd_browse_path :: "string list"
  gd_last_value :: "string option"
  gd_consecutive :: nat
  gd_yielded :: nat
  gd_done :: bool

definition guard_browse_iterator :: "'i \<Rightarrow> string \<Rightarrow> string list \<Rightarrow> 'i guarded" where
  "guard_browse_iterator inner iterator_type browse_path =
     \<lparr>gd_inner = inner, gd_iterator_type = iterator_type, gd_browse_path = browse_path,
      gd_last_value = None, gd_consecutive = 0, gd_yielded = 0, gd_done = False\<rparr>"

text \<open>What the guard makes of one result of the inner iterator.\<close>

definition guard_result :: "opc_error + string \<Rightarrow> 'i guarded \<Rightarrow> next_result \<times> 'i guarded" where
  "guard_result result g =
     (case result of
        Inl error \<Rightarrow>
          (case error of
             BrowseNonProgress ty path val consecutive yielded \<Rightarrow>
               if path = ''<root>'' \<and> gd_browse_path g \<noteq> [] then
                 (Some (Inl (browse_non_progress_error (gd_iterator_type g) (gd_browse_path g) val
                    consecutive yielded)), g\<lparr>gd_done := True\<rparr>)
               else (Some (Inl error), g\<lparr>gd_done := True\<rparr>)
           | _ \<Rightarrow> (Some (Inl error), g))
      | Inr val \<Rightarrow>
          let g = g\<lparr>gd_yielded := gd_yielded g + 1\<rparr>;
              g = (if gd_last_value g = Some val then g\<lparr>gd_consecutive := gd_consecutive g + 1\<rparr>
                   else g\<lparr>gd_last_value := Some val, gd_consecutive := 1\<rparr>)
          in if MAX_CONSECUTIVE_IDENTICAL_BROWSE_VALUES \<le> gd_consecutive g then
               (Some (Inl (browse_non_progress_error (gd_iterator_type g) (gd_browse_path g) val
                  (gd_consecutive g) (gd_yielded g))), g\<lparr>gd_done := True\<rparr>)
             else (Some (Inr val), g))"

definition guarded_next ::
  "('i \<Rightarrow> 's \<Rightarrow> next_result \<times> 'i \<times> 's) \<Rightarrow> 'i guarded \<Rightarrow> 's \<Rightarrow> next_result \<times> 'i guarded \<times> 's" where
  "guarded_next inner_next g s =
     (if gd_done g then (None, g, s)
      else case inner_next (gd_inner g) s of (r, inner, s) \<Rightarrow>
        let g = g\<lparr>gd_inner := inner\<rparr>
        in case r of
             None \<Rightarrow> (None, g, s)
           | Some result \<Rightarrow> (case guard_result result g of (out, g) \<Rightarrow> (out, g, s)))"

section \<open>BufferedBrowseIterator\<close>

text \<open>
  A native DA2 enumeration is a COM enumerator (its handle \<open>'h\<close>) with the cache around it;
  \<open>enum_next h\<close> is the enumerator's \<open>Next\<close> on the world \<open>'w\<close>. The buffer holds one result
  that \<open>has_more\<close> fetched ahead.
\<close>

type_synonym 'h native_names = "('h \<times> string_iterator) guarded"

record 'h buffered =
  bf_inner :: "'h native_names"
  bf_pending :: next_result

definition buffered_new :: "'h \<Rightarrow> string \<Rightarrow> string list \<Rightarrow> 'h buffered" where
  "buffered_new h iterator_type browse_path =
     \<lparr>bf_inner = guard_browse_iterator (h, string_iterator_new) iterator_type browse_path,
      bf_pending = None\<rparr>"

definition names_next ::
  "('h \<Rightarrow> 's iterator_host) \<Rightarrow> 'h native_names \<Rightarrow> 's \<Rightarrow> next_result \<times> 'h native_names \<times> 's" where
  "names_next host_of = guarded_next (\<lambda>(h, it) s.
     case next_with_gate (host_of h) it s of (r, it, s) \<Rightarrow> (r, (h, it), s))"

text \<open>\<open>take_non_progress\<close>, the same in both files.\<close>

definition take_non_progress :: "'h buffered \<Rightarrow> opc_error option \<times> 'h buffered" where
  "take_non_progress b =
     (case bf_pending b of
        Some (Inl error) \<Rightarrow>
          if is_non_progress_browse_error error then (Some error, b\<lparr>bf_pending := None\<rparr>) else (None, b)
      | _ \<Rightarrow> (None, b))"

subsection \<open>Interactive browsing: no gate\<close>

definition ungated_host :: "('h \<Rightarrow> 'w \<Rightarrow> refill \<times> 'w) \<Rightarrow> 'h \<Rightarrow> 'w iterator_host" where
  "ungated_host enum_next h =
     \<lparr>ih_before = (\<lambda>cost w. (True, w)), ih_cancel = (\<lambda>w. (False, w)), ih_now = (\<lambda>w. (0, w)),
      ih_next = enum_next h, ih_record = (\<lambda>kind elapsed w. w)\<rparr>"

definition session_next ::
  "('h \<Rightarrow> 'w \<Rightarrow> refill \<times> 'w) \<Rightarrow> 'h buffered \<Rightarrow> 'w \<Rightarrow> next_result \<times> 'h buffered \<times> 'w" where
  "session_next enum_next b w =
     (case bf_pending b of
        Some r \<Rightarrow> (Some r, b\<lparr>bf_pending := None\<rparr>, w)
      | None \<Rightarrow> (case names_next (ungated_host enum_next) (bf_inner b) w of
                   (r, inner, w) \<Rightarrow> (r, b\<lparr>bf_inner := inner\<rparr>, w)))"

definition session_has_more ::
  "('h \<Rightarrow> 'w \<Rightarrow> refill \<times> 'w) \<Rightarrow> 'h buffered \<Rightarrow> 'w \<Rightarrow> bool \<times> 'h buffered \<times> 'w" where
  "session_has_more enum_next b w =
     (case (if bf_pending b = None then
              (case names_next (ungated_host enum_next) (bf_inner b) w of
                 (r, inner, w) \<Rightarrow> (b\<lparr>bf_inner := inner, bf_pending := r\<rparr>, w))
            else (b, w)) of
        (b, w) \<Rightarrow> (bf_pending b \<noteq> None, b, w))"

subsection \<open>Inventory: every refill is gated\<close>

text \<open>The closures of \<open>next_native\<close> set \<open>cancelled\<close>, the second part of the host state.\<close>

definition inventory_host ::
  "('h \<Rightarrow> 'w \<Rightarrow> refill \<times> 'w) \<Rightarrow> 'h \<Rightarrow> (('w, 'z) gated_scheme \<times> bool) iterator_host" where
  "inventory_host enum_next h =
     \<lparr>ih_before = (\<lambda>cost (g, cancelled).
        case before_operation_with_cost cost (gt_boundary g, gt_env g) of
          (Proceed, b, e) \<Rightarrow> (True, g\<lparr>gt_boundary := b, gt_env := e\<rparr>, cancelled)
        | (BoundaryCancelled, b, e) \<Rightarrow> (False, g\<lparr>gt_boundary := b, gt_env := e\<rparr>, True)),
      ih_cancel = (\<lambda>(g, cancelled).
        let e = advance (gt_env g) in (env_cancelled e, g\<lparr>gt_env := e\<rparr>, cancelled)),
      ih_now = (\<lambda>(g, cancelled).
        let e = advance (gt_env g) in (env_now e, g\<lparr>gt_env := e\<rparr>, cancelled)),
      ih_next = (\<lambda>(g, cancelled).
        case enum_next h (gt_world g) of (r, w) \<Rightarrow> (r, g\<lparr>gt_world := w\<rparr>, cancelled)),
      ih_record = (\<lambda>kind elapsed (g, cancelled).
        (g\<lparr>gt_boundary := record_operation kind elapsed (gt_boundary g)\<rparr>, cancelled))\<rparr>"

definition next_native ::
  "('h \<Rightarrow> 'w \<Rightarrow> refill \<times> 'w) \<Rightarrow> 'h buffered
     \<Rightarrow> (('w, 'z) gated_scheme, inventory_error, next_result \<times> 'h buffered) prog" where
  "next_native enum_next b = (\<lambda>g.
     case names_next (inventory_host enum_next) (bf_inner b) (g, False) of
       (r, inner, g, cancelled) \<Rightarrow>
         if cancelled then Some (Inl Cancelled, g)
         else let e = advance (gt_env g); g = g\<lparr>gt_env := e\<rparr>
              in if env_cancelled e then Some (Inl Cancelled, g)
                 else Some (Inr (r, b\<lparr>bf_inner := inner\<rparr>), g))"

definition inventory_next ::
  "('h \<Rightarrow> 'w \<Rightarrow> refill \<times> 'w) \<Rightarrow> 'h buffered
     \<Rightarrow> (('w, 'z) gated_scheme, 'e, (inventory_error + string) option \<times> 'h buffered) prog" where
  "inventory_next enum_next b =
     (case bf_pending b of
        Some r \<Rightarrow> ret (Some (map_sum Failed id r), b\<lparr>bf_pending := None\<rparr>)
      | None \<Rightarrow> bindp (attempt (next_native enum_next b)) (\<lambda>out.
          case out of
            Inr (r, b) \<Rightarrow> ret (map_option (map_sum Failed id) r, b)
          | Inl error \<Rightarrow> ret (Some (Inl error), b)))"

definition inventory_has_more ::
  "('h \<Rightarrow> 'w \<Rightarrow> refill \<times> 'w) \<Rightarrow> 'h buffered
     \<Rightarrow> (('w, 'z) gated_scheme, inventory_error, bool \<times> 'h buffered) prog" where
  "inventory_has_more enum_next b =
     bindp (if bf_pending b = None
            then bindp (next_native enum_next b) (\<lambda>(r, b). ret (b\<lparr>bf_pending := r\<rparr>))
            else ret b)
       (\<lambda>b. ret (bf_pending b \<noteq> None, b))"

section \<open>Draining an iterator\<close>

fun drain ::
  "('i \<Rightarrow> 's \<Rightarrow> 'r option \<times> 'i \<times> 's) \<Rightarrow> nat \<Rightarrow> 'i \<Rightarrow> 's \<Rightarrow> 'r list \<times> 'i \<times> 's" where
  "drain step 0 i s = ([], i, s)"
| "drain step (Suc n) i s =
     (case step i s of
        (None, i, s) \<Rightarrow> ([], i, s)
      | (Some r, i, s) \<Rightarrow> (case drain step n i s of (rs, i, s) \<Rightarrow> (r # rs, i, s)))"

text \<open>
  The contract of the enumerators: once finished they return nothing and touch nothing, and
  an error that is fatal for them finishes them.
\<close>

locale fused_iterator =
  fixes step :: "'i \<Rightarrow> 's \<Rightarrow> ('e + 'a) option \<times> 'i \<times> 's"
    and finished :: "'i \<Rightarrow> bool"
    and fatal :: "'e \<Rightarrow> bool"
  assumes finished_stops: "finished i \<Longrightarrow> step i s = (None, i, s)"
    and fatal_finishes: "step i s = (Some (Inl e), i', s') \<Longrightarrow> fatal e \<Longrightarrow> finished i'"
begin

lemma drain_finished: "finished i \<Longrightarrow> drain step n i s = ([], i, s)"
  by (cases n) (simp_all add: finished_stops)

lemma fatal_is_last:
  "fst (drain step n i s) = pre @ Inl e # post \<Longrightarrow> fatal e \<Longrightarrow> post = []"
proof (induction n arbitrary: i s pre)
  case 0
  then show ?case by simp
next
  case (Suc n)
  obtain r i1 s1 where step: "step i s = (Some r, i1, s1)"
    using Suc.prems(1) by (cases "step i s"; cases "fst (step i s)") auto
  have rest: "fst (drain step (Suc n) i s) = r # fst (drain step n i1 s1)"
    by (simp add: step split: prod.split)
  show ?case
  proof (cases pre)
    case Nil
    with Suc.prems rest have "r = Inl e" "fst (drain step n i1 s1) = post" by auto
    moreover from this have "finished i1" using step fatal_finishes Suc.prems(2) by blast
    ultimately show ?thesis by (simp add: drain_finished)
  next
    case (Cons p pre')
    with Suc.prems rest have "fst (drain step n i1 s1) = pre' @ Inl e # post" by auto
    then show ?thesis using Suc.IH Suc.prems(2) by blast
  qed
qed

end

lemma guard_result_fatal:
  "guard_result r g = (Some (Inl e), g') \<Longrightarrow> is_non_progress_browse_error e \<Longrightarrow> gd_done g'"
  by (auto simp: guard_result_def Let_def split: sum.splits opc_error.splits if_splits)

lemma guarded_next_cases:
  assumes "guarded_next inner g s = (Some out, g', s')"
  obtains r i where "\<not> gd_done g" "inner (gd_inner g) s = (Some r, i, s')"
    "guard_result r (g\<lparr>gd_inner := i\<rparr>) = (Some out, g')"
  using assms
  by (auto simp: guarded_next_def Let_def split: if_splits prod.splits option.splits)

interpretation guard: fused_iterator "guarded_next inner" gd_done is_non_progress_browse_error
proof unfold_locales
  fix g s e g' s'
  assume "guarded_next inner g s = (Some (Inl e), g', s')" "is_non_progress_browse_error e"
  then show "gd_done g'" by (auto elim!: guarded_next_cases intro: guard_result_fatal)
qed (simp add: guarded_next_def)

interpretation guid: fused_iterator "guid_next native" ai_done "\<lambda>_. True"
  by unfold_locales
    (auto simp: guid_next_def array_refill_def Let_def split: if_splits prod.splits sum.splits option.splits)

lemma accept_refill_returns_done:
  "accept_refill r it = (Inl out, it') \<Longrightarrow> si_done it'"
  by (auto simp: accept_refill_def Let_def split: if_splits sum.splits)

lemma yield_value_fatal: "yield_value v it = (Some (Inl e), it') \<Longrightarrow> si_done it'"
  by (auto simp: yield_value_def Let_def split: if_splits)

lemma ensure_cached_returns_done:
  "ensure_cached host it s = (Inl (Some r), it', s') \<Longrightarrow> si_done it'"
  by (auto simp: ensure_cached_def refill_cache_def Let_def dest: accept_refill_returns_done
      split: if_splits prod.splits bool.splits)

lemma next_with_gate_fatal:
  "next_with_gate host it s = (Some (Inl e), it', s') \<Longrightarrow> is_non_progress_browse_error e \<Longrightarrow> si_done it'"
proof -
  have "\<forall>e it' s'. out = (Some (Inl e), it', s') \<and> is_non_progress_browse_error e \<longrightarrow> si_done it'"
    if "out = next_with_gate host it s" for out
    unfolding that
    by (induction it s rule: next_with_gate_induct[where host = host])
      (auto dest: ensure_cached_returns_done yield_value_fatal)
  then show "next_with_gate host it s = (Some (Inl e), it', s') \<Longrightarrow> is_non_progress_browse_error e
    \<Longrightarrow> si_done it'" by blast
qed

interpretation strings: fused_iterator "next_with_gate host" si_done is_non_progress_browse_error
  by unfold_locales (simp_all add: next_with_gate_done next_with_gate_fatal)

section \<open>Runs of equal values\<close>

definition no_run :: "nat \<Rightarrow> 'a list \<Rightarrow> bool" where
  "no_run m xs = (\<nexists>pre v post. xs = pre @ replicate m v @ post)"

lemma no_run_tail: "no_run m (x # xs) \<Longrightarrow> no_run m xs"
  by (auto simp: no_run_def) (metis append_Cons)

lemma no_run_append: "no_run m (xs @ ys) \<Longrightarrow> no_run m ys"
  by (induction xs) (auto dest: no_run_tail)

lemma no_run_short: "length xs < m \<Longrightarrow> no_run m xs"
  by (auto simp: no_run_def)

lemma no_run_change:
  assumes "c < m" and "v \<noteq> w" and "no_run m (w # xs)"
  shows "no_run m (replicate c v @ w # xs)"
  using assms(1)
proof (induction c)
  case 0
  with assms(3) show ?case by simp
next
  case (Suc c)
  let ?xs = "replicate c v @ w # xs"
  have "False" if run: "v # ?xs = pre @ replicate m u @ post" for pre u post
  proof (cases pre)
    case Nil
    have at: "(v # ?xs) ! k = u" if "k < m" for k
      using that run Nil by (simp add: nth_append)
    from at[of 0] at[of "Suc c"] Suc.prems assms(2) show False by (simp add: nth_append)
  next
    case (Cons p pre')
    with run have "?xs = pre' @ replicate m u @ post" by auto
    with Suc show False by (auto simp: no_run_def)
  qed
  then show ?case by (auto simp: no_run_def)
qed

text \<open>The values among the results of an iterator.\<close>

fun oks :: "('e + 'a) list \<Rightarrow> 'a list" where
  "oks [] = []"
| "oks (Inl e # rs) = oks rs"
| "oks (Inr x # rs) = x # oks rs"

definition repeated_so_far :: "'i guarded \<Rightarrow> string list" where
  "repeated_so_far g = (case gd_last_value g of None \<Rightarrow> [] | Some v \<Rightarrow> replicate (gd_consecutive g) v)"

lemma guard_drain_no_run:
  assumes "gd_consecutive g < 64" and "gd_last_value g = None \<longrightarrow> gd_consecutive g = 0"
  shows "no_run 64 (repeated_so_far g @ oks (fst (drain (guarded_next inner) n g s)))"
  using assms
proof (induction n arbitrary: g s)
  case 0
  then show ?case by (auto simp: repeated_so_far_def intro: no_run_short split: option.split)
next
  case (Suc n)
  have stop: "no_run 64 (repeated_so_far g @ [])"
    using Suc.prems by (auto simp: repeated_so_far_def intro: no_run_short split: option.split)
  obtain out g1 s1 where step: "guarded_next inner g s = (out, g1, s1)"
    by (cases "guarded_next inner g s")
  show ?case
  proof (cases out)
    case None
    with step stop show ?thesis by simp
  next
    case (Some o1)
    with step obtain r i where res: "guard_result r (g\<lparr>gd_inner := i\<rparr>) = (Some o1, g1)"
      by (auto elim: guarded_next_cases)
    show ?thesis
    proof (cases o1)
      case (Inl e)
      show ?thesis
      proof (cases "gd_done g1")
        case True
        with step Some Inl stop show ?thesis by (simp add: guard.drain_finished)
      next
        case False
        with res Inl have same: "gd_last_value g1 = gd_last_value g" "gd_consecutive g1 = gd_consecutive g"
          by (auto simp: guard_result_def Let_def split: sum.splits opc_error.splits if_splits)
        then have "repeated_so_far g1 = repeated_so_far g" by (simp add: repeated_so_far_def cong: option.case_cong)
        with Suc.IH[of g1 s1] Suc.prems same have
          "no_run 64 (repeated_so_far g @ oks (fst (drain (guarded_next inner) n g1 s1)))" by simp
        with step Some Inl show ?thesis by (auto split: prod.split)
      qed
    next
      case (Inr v)
      with res have g1: "gd_last_value g1 = Some v" "gd_consecutive g1 < 64"
        "gd_consecutive g1 = (if gd_last_value g = Some v then gd_consecutive g + 1 else 1)"
        by (auto simp: guard_result_def Let_def MAX_CONSECUTIVE_IDENTICAL_BROWSE_VALUES_def
            split: sum.splits opc_error.splits if_splits)
      let ?rest = "oks (fst (drain (guarded_next inner) n g1 s1))"
      have ih: "no_run 64 (replicate (gd_consecutive g1) v @ ?rest)"
        using Suc.IH[of g1 s1] g1 by (simp add: repeated_so_far_def)
      have "no_run 64 (repeated_so_far g @ v # ?rest)"
      proof (cases "gd_last_value g = Some v")
        case True
        with ih g1 show ?thesis by (simp add: repeated_so_far_def replicate_app_Cons_same)
      next
        case False
        with ih g1 Suc.prems no_run_change[of "gd_consecutive g" 64 _ v ?rest] show ?thesis
          by (auto simp: repeated_so_far_def split: option.split)
      qed
      with step Some Inr show ?thesis by (auto split: prod.split)
    qed
  qed
qed

section \<open>How often the native enumerator is called\<close>

definition counts_refills :: "('s \<Rightarrow> nat) \<Rightarrow> 's iterator_host \<Rightarrow> bool" where
  "counts_refills f host = (\<forall>s c k d.
     f (snd (ih_before host c s)) = f s \<and> f (snd (ih_cancel host s)) = f s \<and>
     f (snd (ih_now host s)) = f s \<and> f (snd (ih_next host s)) = f s + 1 \<and>
     f (ih_record host k d s) = f s)"

lemma refill_cache_counts:
  assumes "counts_refills f host" and "refill_cache host it s = (r, it', s')"
  shows "f s' \<le> f s + 1"
proof -
  have c: "f s1 = f s0" if "ih_before host k s0 = (b, s1)" for s0 s1 b k
    using assms(1) that unfolding counts_refills_def by (metis snd_conv)
  have n: "f s1 = f s0" if "ih_now host s0 = (b, s1)" for s0 s1 b
    using assms(1) that unfolding counts_refills_def by (metis snd_conv)
  have x: "f s1 = f s0 + 1" if "ih_next host s0 = (b, s1)" for s0 s1 b
    using assms(1) that unfolding counts_refills_def by (metis snd_conv)
  have rc: "f (ih_record host k d s0) = f s0" for k d s0
    using assms(1) unfolding counts_refills_def by blast
  from assms(2) show ?thesis
    by (auto simp: refill_cache_def Let_def rc split: prod.splits bool.splits dest!: c n x)
qed

lemma next_with_gate_refills:
  assumes "counts_refills f host"
  shows "si_empty_batches it < 64 \<Longrightarrow>
    f (snd (snd (next_with_gate host it s)))
      \<le> f s + (if string_waiting it then 0 else 64 - si_empty_batches it)"
proof -
  have cancel: "f s1 = f s0" if "ih_cancel host s0 = (b, s1)" for s0 s1 b
    using assms that unfolding counts_refills_def by (metis snd_conv)
  have fetch: "f s1 \<le> f s0 + (if string_waiting it0 then 0 else 1)"
    if "ensure_cached host it0 s0 = (r, it1, s1)" for it0 s0 r it1 s1
    using that refill_cache_counts[OF assms]
    by (fastforce simp: ensure_cached_def string_waiting_def split: if_splits)
  have after: "f s1 + (if string_waiting it2 then 0 else 64 - si_empty_batches it2)
      \<le> f s0 + (if string_waiting it0 then 0 else 64 - si_empty_batches it0)
      \<and> si_empty_batches it2 < 64"
    if e: "ensure_cached host it0 s0 = (Inr (), it1, s1)" and t: "take_slot it1 = (PNull, it2)"
      and lt: "si_empty_batches it0 < 64" for it0 s0 it1 s1 it2
  proof (cases "si_count it0 \<le> si_index it0")
    case False
    with e have "it1 = it0" "s1 = s0" by (auto simp: ensure_cached_def)
    with False t lt skip_null[of it0] show ?thesis by (auto simp: take_slot_def)
  next
    case True
    then have r: "refill_cache host it0 s0 = (Inr (), it1, s1)" and w: "\<not> string_waiting it0"
      using e by (auto simp: ensure_cached_def string_waiting_def)
    from r obtain rf where acc: "accept_refill rf (fill_cache rf it0) = (Inr (), it1)"
      by (auto simp: refill_cache_def Let_def split: prod.splits bool.splits)
    have "string_waiting it2 = string_waiting it1" "si_empty_batches it2 = si_empty_batches it1"
      using t accept_refill_progress[OF acc] skip_null[of it1] by (auto simp: take_slot_def)
    with accept_refill_progress[OF acc] fetch[OF e] w lt show ?thesis
      by (auto simp: MAX_CONSECUTIVE_IDENTICAL_BROWSE_VALUES_def)
  qed
  show "si_empty_batches it < 64 \<Longrightarrow> ?thesis"
  proof (induction it s rule: next_with_gate_induct[where host = host])
    case (null it s s1 it1 s2 it2)
    then show ?case using cancel after by fastforce
  qed (use cancel fetch in \<open>fastforce split: if_splits\<close>)+
qed

section \<open>A well-behaved enumerator\<close>

text \<open>
  An enumerator that delivers the batches it holds and then \<open>S_FALSE\<close> with no entry, under a
  host that neither gates nor cancels.
\<close>

definition script_host :: "refill list iterator_host" where
  "script_host = \<lparr>ih_before = (\<lambda>cost s. (True, s)), ih_cancel = (\<lambda>s. (False, s)), ih_now = (\<lambda>s. (0, s)),
     ih_next = (\<lambda>s. case s of [] \<Rightarrow> (\<lparr>rf_code = 1, rf_slots = [], rf_count = 0\<rparr>, []) | r # rs \<Rightarrow> (r, rs)),
     ih_record = (\<lambda>kind elapsed s. s)\<rparr>"

definition readable :: "pwstr \<Rightarrow> bool" where
  "readable p = (\<forall>code t. p \<noteq> PBad code t)"

definition good_batch :: "refill \<Rightarrow> bool" where
  "good_batch r \<longleftrightarrow> hresult_is_ok (rf_code r) \<and> 0 < rf_count r \<and> unat (rf_count r) \<le> STRING_CACHE_SIZE \<and>
     length (rf_slots r) = unat (rf_count r) \<and> (\<forall>p\<in>set (rf_slots r). readable p)"

definition null_batch :: "refill \<Rightarrow> bool" where
  "null_batch r = (\<forall>p\<in>set (rf_slots r). p = PNull)"

fun texts :: "pwstr list \<Rightarrow> string list" where
  "texts [] = []"
| "texts (PText t # ps) = t # texts ps"
| "texts (_ # ps) = texts ps"

definition cached :: "string_iterator \<Rightarrow> pwstr list" where
  "cached it = drop (si_index it) (take (si_count it) (si_cache it))"

definition remaining :: "string_iterator \<Rightarrow> refill list \<Rightarrow> string list" where
  "remaining it rs = texts (cached it) @ concat (map (\<lambda>r. texts (rf_slots r)) rs)"

definition last_run :: "string_iterator \<Rightarrow> string list" where
  "last_run it = (case si_last_value it of None \<Rightarrow> [] | Some v \<Rightarrow> replicate (si_consecutive it) v)"

definition script_ok :: "string_iterator \<Rightarrow> refill list \<Rightarrow> bool" where
  "script_ok it rs \<longleftrightarrow> \<not> si_done it \<and> si_count it \<le> STRING_CACHE_SIZE \<and>
     length (si_cache it) = STRING_CACHE_SIZE \<and> (\<forall>p\<in>set (cached it). readable p) \<and>
     (\<forall>r\<in>set rs. good_batch r) \<and> si_empty_batches it + length (filter null_batch rs) < 64 \<and>
     si_consecutive it < 64 \<and> (si_last_value it = None \<longrightarrow> si_consecutive it = 0) \<and>
     no_run 64 (last_run it @ remaining it rs)"

lemma null_batch_count:
  assumes "good_batch r"
  shows "null_count (fill_cache r it) = si_populated (fill_cache r it) \<longleftrightarrow> null_batch r"
proof -
  have "take (si_populated (fill_cache r it)) (si_cache (fill_cache r it)) = rf_slots r"
    using assms by (simp add: fill_cache_def good_batch_def)
  moreover have "si_populated (fill_cache r it) = length (rf_slots r)"
    using assms by (simp add: fill_cache_def good_batch_def)
  ultimately show ?thesis
    using filter_True[of "rf_slots r" "\<lambda>p. p = PNull"] length_filter_less[of _ "rf_slots r" "\<lambda>p. p = PNull"]
    by (auto simp: null_count_def null_batch_def) blast
qed

lemma accept_good_batch:
  assumes "good_batch r" and "si_empty_batches it + (if null_batch r then 1 else 0) < 64"
  shows "accept_refill r (fill_cache r it) =
    (Inr (), (fill_cache r it)\<lparr>si_empty_batches := (if null_batch r then si_empty_batches it + 1 else 0)\<rparr>)"
proof -
  have "0 < unat (rf_count r)" using assms(1) by (simp add: good_batch_def word_less_nat_alt)
  with assms null_batch_count[OF assms(1), of it] show ?thesis
    by (auto simp: accept_refill_def validate_fetched_count_def good_batch_def Let_def fill_cache_def
        MAX_CONSECUTIVE_IDENTICAL_BROWSE_VALUES_def)
qed

lemma ensure_cached_script:
  assumes "script_ok it rs"
  obtains (ended) it1 where "ensure_cached script_host it rs = (Inl None, it1, [])" "si_done it1"
      "remaining it rs = []"
  | (slot) it1 rs1 where "ensure_cached script_host it rs = (Inr (), it1, rs1)" "script_ok it1 rs1"
      "remaining it1 rs1 = remaining it rs" "si_index it1 < si_count it1"
proof (cases "si_count it \<le> si_index it")
  case False
  with assms slot show thesis by (simp add: ensure_cached_def)
next
  case True
  then have empty: "cached it = []" by (simp add: cached_def)
  show thesis
  proof (cases rs)
    case Nil
    with True empty ended show thesis
      by (simp add: ensure_cached_def refill_cache_def script_host_def accept_refill_def hresult_is_ok_def
          validate_fetched_count_def fill_cache_def remaining_def Let_def)
  next
    case (Cons r rs')
    with assms have r: "good_batch r" "si_empty_batches it + (if null_batch r then 1 else 0) < 64"
      by (auto simp: script_ok_def)
    let ?it = "(fill_cache r it)\<lparr>si_empty_batches := (if null_batch r then si_empty_batches it + 1 else 0)\<rparr>"
    have "ensure_cached script_host it rs = (Inr (), ?it, rs')"
      using True Cons accept_good_batch[OF r]
      by (simp add: ensure_cached_def refill_cache_def script_host_def Let_def)
    moreover have c: "cached ?it = rf_slots r" "si_count ?it = length (rf_slots r)" "si_index ?it = 0"
      using r(1) by (simp_all add: cached_def fill_cache_def good_batch_def)
    moreover have rem: "remaining ?it rs' = remaining it rs"
      using c Cons empty by (simp add: remaining_def)
    moreover have "script_ok ?it rs'"
      using assms r c Cons rem
      by (auto simp: script_ok_def good_batch_def fill_cache_def last_run_def cong: option.case_cong)
    moreover have "0 < length (rf_slots r)" using r(1) by (simp add: good_batch_def word_less_nat_alt)
    ultimately show thesis using slot by simp
  qed
qed

lemma ensure_cached_script_slot:
  assumes "script_ok it rs" and "ensure_cached script_host it rs = (Inr (), it1, rs1)"
  shows "script_ok it1 rs1" and "remaining it1 rs1 = remaining it rs" and "si_index it1 < si_count it1"
  using ensure_cached_script[OF assms(1)] assms(2) by (metis Inl_not_Inr Pair_inject)+

lemma yield_value_ok:
  assumes "no_run 64 (last_run it @ v # vs)" and "si_consecutive it < 64"
    and "si_last_value it = None \<longrightarrow> si_consecutive it = 0"
  obtains it' where "yield_value v it = (Some (Inr v), it')" "si_last_value it' = Some v"
    "si_consecutive it' < 64" "no_run 64 (last_run it' @ vs)" "si_done it' = si_done it"
    "si_cache it' = si_cache it" "si_index it' = si_index it" "si_count it' = si_count it"
    "si_empty_batches it' = si_empty_batches it"
proof (cases "si_last_value it = Some v")
  case True
  then have run: "last_run it @ v # vs = replicate (si_consecutive it + 1) v @ vs"
    by (simp add: last_run_def replicate_app_Cons_same)
  have "si_consecutive it + 1 \<noteq> 64"
  proof
    assume "si_consecutive it + 1 = 64"
    then have "last_run it @ v # vs = [] @ replicate 64 v @ vs" by (simp only: run append_Nil)
    with assms(1) show False unfolding no_run_def by blast
  qed
  with assms(2) have "si_consecutive it + 1 < 64" by simp
  moreover have "no_run 64 (replicate (si_consecutive it + 1) v @ vs)" using assms(1) run by (simp only:)
  ultimately show thesis using True that
    by (simp add: yield_value_def Let_def last_run_def MAX_CONSECUTIVE_IDENTICAL_BROWSE_VALUES_def)
next
  case False
  have "no_run 64 ([v] @ vs)" using assms(1) no_run_append by fastforce
  with False that show thesis
    by (simp add: yield_value_def Let_def last_run_def MAX_CONSECUTIVE_IDENTICAL_BROWSE_VALUES_def)
qed

lemma cached_Cons:
  assumes "si_index it < si_count it" and "si_count it \<le> length (si_cache it)"
  shows "cached it = si_cache it ! si_index it # cached (snd (take_slot it))"
proof -
  have "cached it = si_cache it ! si_index it # drop (Suc (si_index it)) (take (si_count it) (si_cache it))"
    using assms by (simp add: cached_def Cons_nth_drop_Suc[symmetric])
  then show ?thesis by (simp add: cached_def take_slot_def take_update_swap)
qed

lemma slot_script:
  assumes ok: "script_ok it rs" and lt: "si_index it < si_count it" and slot: "take_slot it = (p, it2)"
  shows "p = PNull \<Longrightarrow> script_ok it2 rs \<and> remaining it2 rs = remaining it rs"
    and "p = PText v \<Longrightarrow> \<exists>it3. yield_value v it2 = (Some (Inr v), it3) \<and> script_ok it3 rs
           \<and> remaining it rs = v # remaining it3 rs"
    and "readable p"
proof -
  have c: "cached it = p # cached it2"
    using cached_Cons[OF lt] ok slot by (simp add: script_ok_def take_slot_def)
  have f: "si_done it2 = si_done it" "si_count it2 = si_count it" "length (si_cache it2) = length (si_cache it)"
    "si_empty_batches it2 = si_empty_batches it" "si_consecutive it2 = si_consecutive it"
    "si_last_value it2 = si_last_value it"
    using slot by (auto simp: take_slot_def)
  then have lr: "last_run it2 = last_run it" by (simp add: last_run_def cong: option.case_cong)
  show "p = PNull \<Longrightarrow> script_ok it2 rs \<and> remaining it2 rs = remaining it rs"
    using ok c f lr by (simp add: script_ok_def remaining_def)
  show "readable p" using ok c by (simp add: script_ok_def)
  assume p: "p = PText v"
  then have rem: "remaining it rs = v # remaining it2 rs" using c by (simp add: remaining_def)
  with ok lr f have "no_run 64 (last_run it2 @ v # remaining it2 rs)" "si_consecutive it2 < 64"
    "si_last_value it2 = None \<longrightarrow> si_consecutive it2 = 0"
    by (simp_all add: script_ok_def)
  then obtain it3 where it3: "yield_value v it2 = (Some (Inr v), it3)" "si_last_value it3 = Some v"
    "si_consecutive it3 < 64" "no_run 64 (last_run it3 @ remaining it2 rs)" "si_done it3 = si_done it2"
    "si_cache it3 = si_cache it2" "si_index it3 = si_index it2" "si_count it3 = si_count it2"
    "si_empty_batches it3 = si_empty_batches it2" by (rule yield_value_ok)
  then have "cached it3 = cached it2" by (simp add: cached_def)
  moreover from this have "remaining it3 rs = remaining it2 rs" by (simp add: remaining_def)
  ultimately show "\<exists>it3. yield_value v it2 = (Some (Inr v), it3) \<and> script_ok it3 rs
      \<and> remaining it rs = v # remaining it3 rs"
    using it3 ok c f rem by (auto simp: script_ok_def)
qed

lemma script_cancel: "ih_cancel script_host rs = (False, rs)"
  by (simp add: script_host_def)

lemma next_script:
  assumes "script_ok it rs"
  shows "case next_with_gate script_host it rs of (out, it', rs') \<Rightarrow>
    (case remaining it rs of
       [] \<Rightarrow> out = None
     | v # vs \<Rightarrow> out = Some (Inr v) \<and> script_ok it' rs' \<and> remaining it' rs' = vs)"
  using assms
proof (induction it rs rule: next_with_gate_induct[where host = script_host])
  case (stopped it s)
  then show ?case by (simp add: script_ok_def)
next
  case (cancelled it s s1)
  then show ?case by (simp add: script_cancel)
next
  case (returned it s s1 out it1 s2)
  then have "s1 = s" by (simp add: script_cancel)
  note e = returned(3)[unfolded this]
  show ?case by (rule ensure_cached_script[OF returned(4)]) (simp_all add: e)
next
  case (bad it s s1 it1 s2 it2 code t)
  then have "s1 = s" by (simp add: script_cancel)
  note e = ensure_cached_script_slot[OF bad(5) bad(3)[unfolded this]]
  from slot_script(3)[OF e(1,3) bad(4)] have "readable (PBad code t)" .
  then show ?case by (simp add: readable_def)
next
  case (found it s s1 it1 s2 it2 v out it3)
  then have s1: "s1 = s" by (simp add: script_cancel)
  note e = ensure_cached_script_slot[OF found(6) found(3)[unfolded s1]]
  from slot_script(2)[OF e(1,3) found(4), of v] e(2) found(5) show ?case by auto
next
  case (null it s s1 it1 s2 it2)
  then have s1: "s1 = s" by (simp add: script_cancel)
  note e = ensure_cached_script_slot[OF null(6) null(3)[unfolded s1]]
  from slot_script(1)[OF e(1,3) null(4)] null(5) e(2) show ?case by simp
qed

section \<open>Properties\<close>

text \<open>
  C17. Whatever the inner iterator (and hence the COM server) does, the values that a guarded
  iterator hands on never contain 64 equal values in a row, and an error that reports a lack
  of progress is the last thing it returns.
\<close>

theorem guard_bounds_repetition:
  "no_run MAX_CONSECUTIVE_IDENTICAL_BROWSE_VALUES
     (oks (fst (drain (guarded_next inner) n (guard_browse_iterator i ty path) s)))
   \<and> (\<nexists>pre e post. fst (drain (guarded_next inner) n (guard_browse_iterator i ty path) s) = pre @ Inl e # post
        \<and> is_non_progress_browse_error e \<and> post \<noteq> [])"
  using guard_drain_no_run[of "guard_browse_iterator i ty path" inner n s]
    guard.fatal_is_last[of inner n "guard_browse_iterator i ty path" s]
  by (auto simp: guard_browse_iterator_def repeated_so_far_def MAX_CONSECUTIVE_IDENTICAL_BROWSE_VALUES_def)

text \<open>
  One call of the gated \<open>next\<close> calls the native enumerator at most 64 times (in the state
  in which the iterator is created), and not at all while the cache holds a string.
\<close>

theorem next_refills_bounded:
  assumes "counts_refills f host" and "si_empty_batches it < MAX_CONSECUTIVE_IDENTICAL_BROWSE_VALUES"
  shows "f (snd (snd (next_with_gate host it s)))
    \<le> f s + (if string_waiting it then 0 else MAX_CONSECUTIVE_IDENTICAL_BROWSE_VALUES - si_empty_batches it)"
  using next_with_gate_refills[OF assms(1), of it s] assms(2)
  by (simp add: MAX_CONSECUTIVE_IDENTICAL_BROWSE_VALUES_def split: if_splits)


theorem next_refills_bounded_witness:
  "snd (snd (next_with_gate \<lparr>ih_before = (\<lambda>cost n. (True, n)), ih_cancel = (\<lambda>n. (False, n)),
      ih_now = (\<lambda>n. (0, n)), ih_next = (\<lambda>n. (\<lparr>rf_code = 0, rf_slots = [], rf_count = 256\<rparr>, n + 1)),
      ih_record = (\<lambda>kind elapsed n. n)\<rparr> string_iterator_new (0 :: nat))) \<le> 64"
proof -
  let ?host = "\<lparr>ih_before = (\<lambda>cost n. (True, n)), ih_cancel = (\<lambda>n. (False, n)), ih_now = (\<lambda>n. (0, n)),
      ih_next = (\<lambda>n. (\<lparr>rf_code = 0, rf_slots = [], rf_count = 256\<rparr>, n + 1)),
      ih_record = (\<lambda>kind elapsed (n :: nat). n)\<rparr>"
  have "counts_refills (\<lambda>n. n) ?host" by (simp add: counts_refills_def)
  moreover have "si_empty_batches string_iterator_new < MAX_CONSECUTIVE_IDENTICAL_BROWSE_VALUES"
    by (simp add: string_iterator_new_def MAX_CONSECUTIVE_IDENTICAL_BROWSE_VALUES_def)
  ultimately show ?thesis
    using next_refills_bounded[of "\<lambda>n. n" ?host string_iterator_new 0]
    by (simp add: string_iterator_new_def string_waiting_def MAX_CONSECUTIVE_IDENTICAL_BROWSE_VALUES_def
        split: if_splits)
qed

text \<open>
  C32. Draining a string iterator over an enumerator that delivers readable batches of 1 to 256
  entries, fewer than 64 of them without any string and no value 64 times in a row, yields
  exactly the strings of the batches, in order, null entries left out, and no error.
\<close>

theorem string_iterator_enumerates:
  assumes "\<forall>r\<in>set rs. good_batch r" and "length (filter null_batch rs) < 64"
    and "no_run 64 (concat (map (\<lambda>r. texts (rf_slots r)) rs))"
    and "length (concat (map (\<lambda>r. texts (rf_slots r)) rs)) < n"
  shows "fst (drain (next_with_gate script_host) n string_iterator_new rs)
    = map Inr (concat (map (\<lambda>r. texts (rf_slots r)) rs))"
proof -
  have drain: "script_ok it rs \<Longrightarrow> length (remaining it rs) < n \<Longrightarrow>
      fst (drain (next_with_gate script_host) n it rs) = map Inr (remaining it rs)" for it rs
  proof (induction n arbitrary: it rs)
    case 0
    then show ?case by simp
  next
    case (Suc n)
    show ?case
    proof (cases "remaining it rs")
      case Nil
      with next_script[OF Suc.prems(1)] show ?thesis by (auto split: prod.splits)
    next
      case (Cons v vs)
      with next_script[OF Suc.prems(1)] Suc.IH Suc.prems(2) show ?thesis
        by (fastforce split: prod.splits)
    qed
  qed
  have "cached string_iterator_new = []" by (simp add: cached_def string_iterator_new_def)
  moreover have "script_ok string_iterator_new rs"
    using assms
    by (simp add: script_ok_def string_iterator_new_def cached_def remaining_def last_run_def)
  ultimately show ?thesis using drain[of string_iterator_new rs] assms(4) by (simp add: remaining_def)
qed

theorem string_iterator_enumerates_witness:
  "fst (drain (next_with_gate script_host) 9 string_iterator_new
      [\<lparr>rf_code = 0, rf_slots = [PText ''a'', PNull, PText ''b''], rf_count = 3\<rparr>,
       \<lparr>rf_code = 1, rf_slots = [PText ''b''], rf_count = 1\<rparr>])
    = [Inr ''a'', Inr ''b'', Inr ''b'']"
proof -
  let ?rs = "[\<lparr>rf_code = 0, rf_slots = [PText ''a'', PNull, PText ''b''], rf_count = 3\<rparr>,
       \<lparr>rf_code = 1, rf_slots = [PText ''b''], rf_count = 1\<rparr>]"
  have "\<forall>r\<in>set ?rs. good_batch r"
    by (simp add: good_batch_def hresult_is_ok_def STRING_CACHE_SIZE_def readable_def)
  moreover have "length (filter null_batch ?rs) < 64"
    by (simp add: null_batch_def)
  moreover have "no_run 64 (concat (map (\<lambda>r. texts (rf_slots r)) ?rs))"
    by (rule no_run_short) simp
  moreover have "length (concat (map (\<lambda>r. texts (rf_slots r)) ?rs)) < 9" by simp
  ultimately show ?thesis using string_iterator_enumerates[of ?rs 9] by simp
qed

end
