(* ===== verification/Connector.thy ===== *)
theory Connector
  imports Iterators "HOL-Library.List_Lexorder" "HOL-Library.Char_ord"
begin

text \<open>
  \<open>backend/connector.rs\<close>: the facade over a connected server. The COM interfaces of the
  server are third-party code, the record \<open>com_server\<close> of operations on a world \<open>'w\<close>; an
  enumerator handle \<open>'h\<close> comes out of \<open>BrowseOPCItemIDs\<close>. What the facade adds is
  modelled: the missing-interface errors, the default methods of the trait, the
  classification of DA2 branches, the mapping of DA3 elements and the enumeration of the
  registered servers.

  \<open>cursor_server\<close> states the documented behaviour of the DA2 browse position (OPC DA 2.05,
  4.5.3.8): \<open>OPC_BROWSE_DOWN\<close> enters a child, \<open>OPC_BROWSE_UP\<close> leaves to the parent,
  \<open>OPC_BROWSE_TO\<close> moves to a position that its argument determines, a refused move and every
  other call leave the position alone.
\<close>

section \<open>Constants of the OPC interfaces\<close>

definition OPC_BRANCH :: u32 where "OPC_BRANCH = 1"
definition OPC_LEAF :: u32 where "OPC_LEAF = 2"
definition OPC_FLAT :: u32 where "OPC_FLAT = 3"
definition OPC_BROWSE_UP :: u32 where "OPC_BROWSE_UP = 1"
definition OPC_BROWSE_DOWN :: u32 where "OPC_BROWSE_DOWN = 2"
definition OPC_BROWSE_TO :: u32 where "OPC_BROWSE_TO = 3"
definition OPC_NS_HIERARCHIAL :: u32 where "OPC_NS_HIERARCHIAL = 1"
definition OPC_NS_FLAT :: u32 where "OPC_NS_FLAT = 2"
definition OPC_BROWSE_HASCHILDREN :: u32 where "OPC_BROWSE_HASCHILDREN = 1"
definition OPC_BROWSE_ISITEM :: u32 where "OPC_BROWSE_ISITEM = 2"

definition native_filter :: "browse_node_filter \<Rightarrow> u32" where
  "native_filter f = (case f of FBranches \<Rightarrow> 2 | FItems \<Rightarrow> 3 | FAll \<Rightarrow> 1)"

section \<open>The server\<close>

text \<open>A DA3 element as the server returns it: name, item ID and flags.\<close>

record raw_element =
  re_name :: pwstr
  re_item_id :: pwstr
  re_flags :: u32

record ('w, 'h) com_server =
  cs_da2 :: bool
  cs_da3 :: bool
  cs_query_organization :: "('w, opc_error, u32) prog"
  cs_change_position :: "u32 \<Rightarrow> string \<Rightarrow> ('w, opc_error, unit) prog"
  cs_browse_item_ids :: "u32 \<Rightarrow> string option \<Rightarrow> u16 \<Rightarrow> u32 \<Rightarrow> ('w, opc_error, 'h) prog"
  cs_get_item_id :: "string \<Rightarrow> ('w, opc_error, string) prog"
  cs_browse :: "string \<Rightarrow> string option \<Rightarrow> u32 \<Rightarrow> u32
                  \<Rightarrow> ('w, opc_error, bool \<times> string option \<times> raw_element list) prog"
  cs_enum_next :: "'h \<Rightarrow> 'w \<Rightarrow> refill \<times> 'w"

definition da2_interface :: "('w, 'h, 'z) com_server_scheme \<Rightarrow> ('w, opc_error, 'a) prog \<Rightarrow> ('w, opc_error, 'a) prog" where
  "da2_interface sv m = (if cs_da2 sv then m
     else throw (NotImplemented ''IOPCBrowseServerAddressSpace not supported''))"

definition da3_interface :: "('w, 'h, 'z) com_server_scheme \<Rightarrow> ('w, opc_error, 'a) prog \<Rightarrow> ('w, opc_error, 'a) prog" where
  "da3_interface sv m = (if cs_da3 sv then m else throw (NotImplemented ''IOPCBrowse not supported''))"

definition query_organization :: "('w, 'h, 'z) com_server_scheme \<Rightarrow> ('w, opc_error, u32) prog" where
  "query_organization sv = da2_interface sv (cs_query_organization sv)"

definition change_browse_position ::
  "('w, 'h, 'z) com_server_scheme \<Rightarrow> u32 \<Rightarrow> string \<Rightarrow> ('w, opc_error, unit) prog" where
  "change_browse_position sv direction name = da2_interface sv (cs_change_position sv direction name)"

definition change_browse_position_to ::
  "('w, 'h, 'z) com_server_scheme \<Rightarrow> string \<Rightarrow> ('w, opc_error, unit) prog" where
  "change_browse_position_to sv item_id = change_browse_position sv OPC_BROWSE_TO item_id"

definition get_item_id :: "('w, 'h, 'z) com_server_scheme \<Rightarrow> string \<Rightarrow> ('w, opc_error, string) prog" where
  "get_item_id sv item_name = da2_interface sv (cs_get_item_id sv item_name)"

text \<open>\<open>begin_da2_browse\<close> wraps the enumerator that \<open>browse_opc_item_ids\<close> returns.\<close>

definition begin_da2_browse ::
  "('w, 'h, 'z) com_server_scheme \<Rightarrow> u32 \<Rightarrow> string option \<Rightarrow> u16 \<Rightarrow> u32 \<Rightarrow> ('w, opc_error, 'h) prog" where
  "begin_da2_browse sv browse_type filter_criteria data_type access_rights =
     da2_interface sv (cs_browse_item_ids sv browse_type filter_criteria data_type access_rights)"

definition resolve_da2_item_id ::
  "('w, 'h, 'z) com_server_scheme \<Rightarrow> string \<Rightarrow> ('w, opc_error, string option) prog" where
  "resolve_da2_item_id sv item_name =
     bindp (attempt (get_item_id sv item_name)) (\<lambda>r.
       case r of
         Inr item_id \<Rightarrow> ret (Some item_id)
       | Inl error \<Rightarrow>
           if com_hresult error = Some 0xC0040007 \<or> com_hresult error = Some 0xC0040008
           then ret None else throw error)"

definition da2_name_has_children ::
  "('w, 'h, 'z) com_server_scheme \<Rightarrow> string \<Rightarrow> ('w, opc_error, bool) prog" where
  "da2_name_has_children sv item_name =
     bindp (attempt (change_browse_position sv OPC_BROWSE_DOWN item_name)) (\<lambda>r.
       case r of
         Inr _ \<Rightarrow> seqp (change_browse_position sv OPC_BROWSE_UP []) (ret True)
       | Inl error \<Rightarrow>
           (case com_hresult error of
              Some code \<Rightarrow>
                if code \<notin> {0x800706BA, 0x800706BF, 0x800706BE, 0x80080005} then ret False
                else throw error
            | None \<Rightarrow> throw error))"

section \<open>Classifying a DA2 branch\<close>

datatype da2_branch_navigation = Navigable | RejectedInvalidArgument

record da2_branch_classification =
  bc_item_id :: "string option"
  bc_navigation :: da2_branch_navigation

definition classify_da2_branch ::
  "('w, 'h, 'z) com_server_scheme \<Rightarrow> string \<Rightarrow> ('w, opc_error, da2_branch_classification) prog" where
  "classify_da2_branch sv item_name =
     bindp (attempt (resolve_da2_item_id sv item_name)) (\<lambda>r.
     bindp (case r of
              Inr item_id \<Rightarrow> ret item_id
            | Inl error \<Rightarrow>
                if is_com_hresult error E_INVALIDARG_HRESULT then ret None else throw error) (\<lambda>item_id.
     bindp (attempt (change_browse_position sv OPC_BROWSE_DOWN item_name)) (\<lambda>r.
     bindp (case r of
              Inr _ \<Rightarrow> seqp (change_browse_position sv OPC_BROWSE_UP []) (ret Navigable)
            | Inl error \<Rightarrow>
                if is_com_hresult error E_INVALIDARG_HRESULT then ret RejectedInvalidArgument
                else throw error) (\<lambda>navigation.
     ret \<lparr>bc_item_id = item_id, bc_navigation = navigation\<rparr>))))"

section \<open>DA3 pages\<close>

record native_browse_element =
  ne_name :: string
  ne_item_id :: "string option"
  ne_has_children :: bool
  ne_is_item :: bool

record native_browse_page =
  np_elements :: "native_browse_element list"
  np_more_elements :: bool
  np_continuation :: "string option"

fun string_of_pwstr :: "pwstr \<Rightarrow> opc_error + string" where
  "string_of_pwstr PNull = Inl (Com E_POINTER [])"
| "string_of_pwstr (PText t) = Inr t"
| "string_of_pwstr (PBad code t) = Inl (Com code t)"

fun option_of_pwstr :: "pwstr \<Rightarrow> opc_error + string option" where
  "option_of_pwstr PNull = Inr None"
| "option_of_pwstr (PText t) = Inr (Some t)"
| "option_of_pwstr (PBad code t) = Inl (Com code t)"

definition nonempty :: "string option \<Rightarrow> string option" where
  "nonempty s = (case s of Some t \<Rightarrow> if t = [] then None else Some t | None \<Rightarrow> None)"

definition map_raw_element :: "raw_element \<Rightarrow> opc_error + native_browse_element" where
  "map_raw_element e =
     (case string_of_pwstr (re_name e) of
        Inl error \<Rightarrow> Inl error
      | Inr name \<Rightarrow>
          (case option_of_pwstr (re_item_id e) of
             Inl error \<Rightarrow> Inl error
           | Inr item_id \<Rightarrow>
               Inr \<lparr>ne_name = name, ne_item_id = nonempty item_id,
                    ne_has_children = ((and) (re_flags e) OPC_BROWSE_HASCHILDREN \<noteq> 0),
                    ne_is_item = ((and) (re_flags e) OPC_BROWSE_ISITEM \<noteq> 0)\<rparr>))"

definition browse_da3 ::
  "('w, 'h, 'z) com_server_scheme \<Rightarrow> string option \<Rightarrow> string option \<Rightarrow> u32 \<Rightarrow> browse_node_filter
     \<Rightarrow> ('w, opc_error, native_browse_page) prog" where
  "browse_da3 sv item_id continuation max_elements filter_kind =
     bindp (da3_interface sv (cs_browse sv (case item_id of Some i \<Rightarrow> i | None \<Rightarrow> []) continuation
              max_elements (native_filter filter_kind))) (\<lambda>(more_elements, continuation, elements).
     bindp (for_each elements (\<lambda>e. lift_result (map_raw_element e))) (\<lambda>mapped.
     ret \<lparr>np_elements = mapped, np_more_elements = more_elements,
          np_continuation = nonempty continuation\<rparr>))"

section \<open>Registered servers\<close>

text \<open>
  \<open>results\<close> is what the GUID iterator yields; \<open>progid_of\<close> is \<open>guid_to_progid\<close>. \<open>flatten\<close>
  drops the errors of the iterator.
\<close>

fun found_progids :: "'g \<Rightarrow> ('g \<Rightarrow> opc_error + string) \<Rightarrow> (opc_error + 'g) list \<Rightarrow> string list" where
  "found_progids zeroed progid_of [] = []"
| "found_progids zeroed progid_of (Inl e # rs) = found_progids zeroed progid_of rs"
| "found_progids zeroed progid_of (Inr guid # rs) =
     (if guid = zeroed then found_progids zeroed progid_of rs
      else case progid_of guid of
             Inr progid \<Rightarrow>
               if progid \<noteq> [] then progid # found_progids zeroed progid_of rs
               else found_progids zeroed progid_of rs
           | Inl _ \<Rightarrow> found_progids zeroed progid_of rs)"

definition enumerate_servers :: "'g \<Rightarrow> ('g \<Rightarrow> opc_error + string) \<Rightarrow> (opc_error + 'g) list \<Rightarrow> string list" where
  "enumerate_servers zeroed progid_of results = remdups_adj (sort (found_progids zeroed progid_of results))"

section \<open>The browse position\<close>

definition keeps :: "('w \<Rightarrow> 'a) \<Rightarrow> ('w, 'e, 'b) prog \<Rightarrow> bool" where
  "keeps f m = (\<forall>w r w'. m w = Some (r, w') \<longrightarrow> f w' = f w)"

definition moves ::
  "('w \<Rightarrow> 'a) \<Rightarrow> ('a \<Rightarrow> 'a) \<Rightarrow> ('w, 'e, 'b) prog \<Rightarrow> bool" where
  "moves f g m = (\<forall>w r w'. m w = Some (r, w') \<longrightarrow> f w' = (case r of Inr _ \<Rightarrow> g (f w) | Inl _ \<Rightarrow> f w))"

definition cursor_server ::
  "('w, 'h, 'z) com_server_scheme \<Rightarrow> ('w \<Rightarrow> string list) \<Rightarrow> (string \<Rightarrow> string list) \<Rightarrow> bool" where
  "cursor_server sv pos home \<longleftrightarrow>
     (\<forall>name. moves pos (\<lambda>p. p @ [name]) (cs_change_position sv OPC_BROWSE_DOWN name)) \<and>
     moves pos butlast (cs_change_position sv OPC_BROWSE_UP []) \<and>
     (\<forall>item. moves pos (\<lambda>_. home item) (cs_change_position sv OPC_BROWSE_TO item)) \<and>
     keeps pos (cs_query_organization sv) \<and>
     (\<forall>ty f d a. keeps pos (cs_browse_item_ids sv ty f d a)) \<and>
     (\<forall>name. keeps pos (cs_get_item_id sv name)) \<and>
     (\<forall>i c m f. keeps pos (cs_browse sv i c m f)) \<and>
     (\<forall>h w. pos (snd (cs_enum_next sv h w)) = pos w)"

lemma keeps_hoare: "keeps f m \<Longrightarrow> hoare (\<lambda>w. f w = a) m (\<lambda>_ w. f w = a) (\<lambda>_ w. f w = a)"
  unfolding keeps_def by (rule hoareI) auto

lemma hoare_keeps: "(\<And>a. hoare (\<lambda>w. f w = a) m (\<lambda>_ w. f w = a) (\<lambda>_ w. f w = a)) \<Longrightarrow> keeps f m"
proof (unfold keeps_def, intro allI impI)
  fix w r w'
  assume h: "\<And>a. hoare (\<lambda>w. f w = a) m (\<lambda>_ w. f w = a) (\<lambda>_ w. f w = a)" and run: "m w = Some (r, w')"
  show "f w' = f w"
  proof (cases r)
    case (Inl e)
    show ?thesis by (rule hoareD_Inl[OF h refl run[unfolded Inl]])
  next
    case (Inr x)
    show ?thesis by (rule hoareD_Inr[OF h refl run[unfolded Inr]])
  qed
qed

lemma moves_hoare: "moves f g m \<Longrightarrow> hoare (\<lambda>w. f w = a) m (\<lambda>_ w. f w = g a) (\<lambda>_ w. f w = a)"
  unfolding moves_def by (rule hoareI) fastforce+

lemma hoare_da2_interface:
  "hoare P m Q E \<Longrightarrow> (\<And>s. P s \<Longrightarrow> E (NotImplemented ''IOPCBrowseServerAddressSpace not supported'') s) \<Longrightarrow>
   hoare P (da2_interface sv m) Q E"
  by (auto simp: da2_interface_def hoare_def throw_def)

lemma hoare_da3_interface:
  "hoare P m Q E \<Longrightarrow> (\<And>s. P s \<Longrightarrow> E (NotImplemented ''IOPCBrowse not supported'') s) \<Longrightarrow>
   hoare P (da3_interface sv m) Q E"
  by (auto simp: da3_interface_def hoare_def throw_def)

lemma cursor_down:
  "cursor_server sv pos home \<Longrightarrow>
   hoare (\<lambda>w. pos w = p) (change_browse_position sv OPC_BROWSE_DOWN n) (\<lambda>_ w. pos w = p @ [n]) (\<lambda>_ w. pos w = p)"
  unfolding change_browse_position_def cursor_server_def
  by (rule hoare_da2_interface) (auto intro: moves_hoare[where g = "\<lambda>p. p @ [n]"])

lemma cursor_up:
  "cursor_server sv pos home \<Longrightarrow>
   hoare (\<lambda>w. pos w = p) (change_browse_position sv OPC_BROWSE_UP []) (\<lambda>_ w. pos w = butlast p) (\<lambda>_ w. pos w = p)"
  unfolding change_browse_position_def cursor_server_def
  by (rule hoare_da2_interface) (auto intro: moves_hoare[where g = butlast])

lemma cursor_to:
  "cursor_server sv pos home \<Longrightarrow>
   hoare (\<lambda>w. pos w = p) (change_browse_position_to sv i) (\<lambda>_ w. pos w = home i) (\<lambda>_ w. pos w = p)"
  unfolding change_browse_position_to_def change_browse_position_def cursor_server_def
  by (rule hoare_da2_interface) (auto intro: moves_hoare[where g = "\<lambda>_. home i"])

lemma keeps_da2_interface: "keeps f m \<Longrightarrow> keeps f (da2_interface sv m)"
  by (auto simp: keeps_def da2_interface_def throw_def)

lemma hoare_seqp_ret: "hoare P m (\<lambda>_. Q x) E \<Longrightarrow> hoare P (seqp m (ret x)) Q E"
  by (rule hoare_seqp[OF hoare_ret])

lemma cursor_stays:
  assumes "cursor_server sv pos home"
  shows "keeps pos (query_organization sv)" and "keeps pos (get_item_id sv n)"
    and "keeps pos (begin_da2_browse sv ty f d a)" and "keeps pos (resolve_da2_item_id sv n)"
proof -
  show "keeps pos (query_organization sv)" and q: "keeps pos (get_item_id sv n)"
    and "keeps pos (begin_da2_browse sv ty f d a)"
    using assms unfolding cursor_server_def query_organization_def get_item_id_def begin_da2_browse_def
    by (blast intro: keeps_da2_interface)+
  show "keeps pos (resolve_da2_item_id sv n)"
    using q by (auto simp: keeps_def resolve_da2_item_id_def bindp_def attempt_def ret_def throw_def
        split: option.splits sum.splits if_splits)
qed

lemma hoare_case_sum:
  "(\<And>e. hoare (P1 e) (f e) Q E) \<Longrightarrow> (\<And>x. hoare (P2 x) (g x) Q E) \<Longrightarrow>
   hoare (\<lambda>s. case r of Inl e \<Rightarrow> P1 e s | Inr x \<Rightarrow> P2 x s) (case r of Inl e \<Rightarrow> f e | Inr x \<Rightarrow> g x) Q E"
  by (cases r) simp_all

lemma classify_da2_branch_position:
  assumes "cursor_server sv pos home"
  shows "hoare (\<lambda>w. pos w = p) (classify_da2_branch sv n) (\<lambda>_ w. pos w = p)
    (\<lambda>_ w. pos w = p \<or> pos w = p @ [n])"
proof -
  have return_up: "hoare (\<lambda>w. pos w = p @ [n]) (change_browse_position sv OPC_BROWSE_UP [])
      (\<lambda>_ w. pos w = p) (\<lambda>_ w. pos w = p \<or> pos w = p @ [n])"
    by (rule hoare_cons[OF cursor_up[OF assms, of "p @ [n]"]]) simp_all
  have nav: "hoare (\<lambda>w. case r of Inr _ \<Rightarrow> pos w = p @ [n] | Inl _ \<Rightarrow> pos w = p)
      (case r of Inr _ \<Rightarrow> seqp (change_browse_position sv OPC_BROWSE_UP []) (ret Navigable)
         | Inl error \<Rightarrow> if is_com_hresult error E_INVALIDARG_HRESULT then ret RejectedInvalidArgument
                else throw error)
      (\<lambda>_ w. pos w = p) (\<lambda>_ w. pos w = p \<or> pos w = p @ [n])" for r :: "opc_error + unit"
  proof (cases r)
    case (Inl e)
    then show ?thesis by (auto simp: hoare_def prog_defs)
  next
    case (Inr u)
    have "hoare (\<lambda>w. pos w = p @ [n]) (seqp (change_browse_position sv OPC_BROWSE_UP []) (ret Navigable))
      (\<lambda>_ w. pos w = p) (\<lambda>_ w. pos w = p \<or> pos w = p @ [n])"
      by (rule hoare_seqp_ret) (rule return_up)
    with Inr show ?thesis by simp
  qed
  have down: "hoare (\<lambda>w. pos w = p) (attempt (change_browse_position sv OPC_BROWSE_DOWN n))
      (\<lambda>r w. case r of Inr _ \<Rightarrow> pos w = p @ [n] | Inl _ \<Rightarrow> pos w = p) E" for E
    by (rule hoare_attempt) (simp add: cursor_down[OF assms])
  have item: "hoare (\<lambda>w. pos w = p) (attempt (resolve_da2_item_id sv n)) (\<lambda>r w. pos w = p) E" for E
    by (rule hoare_attempt) (simp add: keeps_hoare[OF cursor_stays(4)[OF assms]])
  show ?thesis
    unfolding classify_da2_branch_def
    by (rule hoare_bindp[OF _ item], rule hoare_bindp[where R = "\<lambda>_ w. pos w = p"],
        rule hoare_bindp[OF _ down], rule hoare_bindp[OF _ nav])
      (auto simp: hoare_def ret_def throw_def split: sum.splits)
qed

lemma da2_name_has_children_position:
  assumes "cursor_server sv pos home"
  shows "hoare (\<lambda>w. pos w = p) (da2_name_has_children sv n) (\<lambda>_ w. pos w = p)
    (\<lambda>_ w. pos w = p \<or> pos w = p @ [n])"
  unfolding da2_name_has_children_def
proof (rule hoare_bindp)
  show "hoare (\<lambda>w. pos w = p) (attempt (change_browse_position sv OPC_BROWSE_DOWN n))
      (\<lambda>r w. case r of Inr _ \<Rightarrow> pos w = p @ [n] | Inl _ \<Rightarrow> pos w = p) (\<lambda>_ w. pos w = p \<or> pos w = p @ [n])"
    by (rule hoare_attempt) (simp add: cursor_down[OF assms])
  have return_up: "hoare (\<lambda>w. pos w = p @ [n]) (change_browse_position sv OPC_BROWSE_UP [])
      (\<lambda>_ w. pos w = p) (\<lambda>_ w. pos w = p \<or> pos w = p @ [n])"
    by (rule hoare_cons[OF cursor_up[OF assms, of "p @ [n]"]]) simp_all
  fix r :: "opc_error + unit"
  show "hoare (\<lambda>w. case r of Inr _ \<Rightarrow> pos w = p @ [n] | Inl _ \<Rightarrow> pos w = p)
      (case r of Inr _ \<Rightarrow> seqp (change_browse_position sv OPC_BROWSE_UP []) (ret True)
       | Inl error \<Rightarrow>
           (case com_hresult error of
              Some code \<Rightarrow>
                if code \<notin> {0x800706BA, 0x800706BF, 0x800706BE, 0x80080005} then ret False
                else throw error
            | None \<Rightarrow> throw error))
      (\<lambda>_ w. pos w = p) (\<lambda>_ w. pos w = p \<or> pos w = p @ [n])"
  proof (cases r)
    case (Inl e)
    then show ?thesis by (auto simp: hoare_def ret_def throw_def split: option.split)
  next
    case (Inr u)
    have "hoare (\<lambda>w. pos w = p @ [n]) (seqp (change_browse_position sv OPC_BROWSE_UP []) (ret True))
      (\<lambda>_ w. pos w = p) (\<lambda>_ w. pos w = p \<or> pos w = p @ [n])"
      by (rule hoare_seqp_ret) (rule return_up)
    with Inr show ?thesis by simp
  qed
qed

section \<open>A server on a tree of names\<close>

text \<open>
  A concrete server that satisfies the assumptions of the theorems, for their witnesses: a
  tree of branches and leaves, given by the names below each position. It delivers the names
  of an enumeration in one batch, refuses a move into a name that is no branch with
  \<open>E_INVALIDARG\<close>, resolves every child to the item ID of its path when it is a leaf, and has
  no DA3 interface.
\<close>

record tree_world =
  tw_pos :: "string list"
  tw_batches :: "refill list list"

definition batch_of :: "string list \<Rightarrow> refill" where
  "batch_of names = \<lparr>rf_code = 0, rf_slots = map PText names, rf_count = of_nat (length names)\<rparr>"

definition empty_batch :: refill where
  "empty_batch = \<lparr>rf_code = 1, rf_slots = [], rf_count = 0\<rparr>"

definition tree_change_position ::
  "(string list \<Rightarrow> string list) \<Rightarrow> u32 \<Rightarrow> string \<Rightarrow> (tree_world, opc_error, unit) prog" where
  "tree_change_position branches direction name = (\<lambda>w.
     if direction = OPC_BROWSE_DOWN then
       (if name \<in> set (branches (tw_pos w)) then Some (Inr (), w\<lparr>tw_pos := tw_pos w @ [name]\<rparr>)
        else Some (Inl (Com E_INVALIDARG_HRESULT ''no such branch''), w))
     else if direction = OPC_BROWSE_UP then
       (if tw_pos w = [] then Some (Inl (Com 0x80004005 ''at the root''), w)
        else Some (Inr (), w\<lparr>tw_pos := butlast (tw_pos w)\<rparr>))
     else if name = [] then Some (Inr (), w\<lparr>tw_pos := []\<rparr>)
     else Some (Inl (Com E_INVALIDARG_HRESULT ''unknown position''), w))"

definition tree_server ::
  "(string list \<Rightarrow> string list) \<Rightarrow> (string list \<Rightarrow> string list) \<Rightarrow> (tree_world, nat) com_server" where
  "tree_server branches leaves =
     \<lparr>cs_da2 = True, cs_da3 = False,
      cs_query_organization = ret OPC_NS_HIERARCHIAL,
      cs_change_position = tree_change_position branches,
      cs_browse_item_ids = (\<lambda>ty f d a w.
        let names = (if ty = OPC_BRANCH then branches (tw_pos w) else leaves (tw_pos w))
        in Some (Inr (length (tw_batches w)), w\<lparr>tw_batches := tw_batches w @ [[batch_of names]]\<rparr>)),
      cs_get_item_id = (\<lambda>name w.
        if name \<in> set (leaves (tw_pos w)) then Some (Inr (join ''.'' (tw_pos w @ [name])), w)
        else Some (Inl (Com 0xC0040007 ''unknown item''), w)),
      cs_browse = (\<lambda>i c m f. throw (NotImplemented ''no DA3'')),
      cs_enum_next = (\<lambda>h w.
        if h < length (tw_batches w) then
          (case tw_batches w ! h of
             [] \<Rightarrow> (empty_batch, w)
           | r # rs \<Rightarrow> (r, w\<lparr>tw_batches := (tw_batches w)[h := rs]\<rparr>))
        else (empty_batch, w))\<rparr>"

lemma tree_server_cursor: "cursor_server (tree_server branches leaves) tw_pos (\<lambda>_. [])"
  by (auto simp: cursor_server_def tree_server_def tree_change_position_def keeps_def moves_def Let_def
      ret_def throw_def OPC_BROWSE_DOWN_def OPC_BROWSE_UP_def OPC_BROWSE_TO_def
      split: list.split if_splits)

definition plant_branches :: "string list \<Rightarrow> string list" where
  "plant_branches p = (if p = [] then [''Area''] else if p = [''Area''] then [''Tank''] else [])"

definition plant_leaves :: "string list \<Rightarrow> string list" where
  "plant_leaves p = (if p = [] then [''Clock''] else if p = [''Area''] then [''Flow''] else [''Level''])"

abbreviation plant :: "(tree_world, nat) com_server" where
  "plant \<equiv> tree_server plant_branches plant_leaves"

lemma sorted_distinct_remdups_adj:
  fixes xs :: "'a::linorder list"
  shows "sorted xs \<Longrightarrow> distinct (remdups_adj xs)"
  by (induction xs rule: remdups_adj.induct) (auto simp: order.antisym)

section \<open>Properties\<close>

text \<open>
  Classifying a DA2 branch leaves the server at the position where it was whenever it
  succeeds; a failure leaves it there or, when only the way back failed, inside the branch.
\<close>

theorem classify_keeps_position:
  assumes "cursor_server sv pos home" and "classify_da2_branch sv name w = Some (r, w')"
  shows "case r of Inr _ \<Rightarrow> pos w' = pos w | Inl _ \<Rightarrow> pos w' = pos w \<or> pos w' = pos w @ [name]"
proof (cases r)
  case (Inl e)
  with assms hoareD_Inl[OF classify_da2_branch_position[OF assms(1)], of w "pos w" name e w']
  show ?thesis by simp
next
  case (Inr c)
  with assms hoareD_Inr[OF classify_da2_branch_position[OF assms(1)], of w "pos w" name c w']
  show ?thesis by simp
qed

theorem classify_keeps_position_witness:
  "\<exists>w'. classify_da2_branch plant ''Area'' \<lparr>tw_pos = [], tw_batches = []\<rparr>
      = Some (Inr \<lparr>bc_item_id = None, bc_navigation = Navigable\<rparr>, w') \<and> tw_pos w' = []"
proof -
  let ?w = "\<lparr>tw_pos = [], tw_batches = []\<rparr>"
  have run: "classify_da2_branch plant ''Area'' ?w
      = Some (Inr \<lparr>bc_item_id = None, bc_navigation = Navigable\<rparr>, ?w)"
    by code_simp
  from classify_keeps_position[OF tree_server_cursor run] run show ?thesis by simp
qed

text \<open>
  The enumerated servers are exactly the nonempty ProgIDs of the nonzero GUIDs that the
  registry lists and resolves, in ascending order, each once.
\<close>

theorem enumerated_servers:
  "set (enumerate_servers zeroed progid_of results)
     = {p. p \<noteq> [] \<and> (\<exists>g. g \<noteq> zeroed \<and> Inr g \<in> set results \<and> progid_of g = Inr p)}
   \<and> sorted (enumerate_servers zeroed progid_of results)
   \<and> distinct (enumerate_servers zeroed progid_of results)"
proof -
  have "set (found_progids zeroed progid_of rs)
     = {p. p \<noteq> [] \<and> (\<exists>g. g \<noteq> zeroed \<and> Inr g \<in> set rs \<and> progid_of g = Inr p)}" for rs
    by (induction zeroed progid_of rs rule: found_progids.induct) (auto split: sum.split)
  then show ?thesis
    by (auto simp: enumerate_servers_def sorted_remdups_adj sorted_distinct_remdups_adj)
qed

end
