(* ===== verification/NativeBrowse.thy ===== *)
theory NativeBrowse
  imports Connector
begin

text \<open>
  Interactive browsing on the COM worker: \<open>native_browse.rs\<close> and its modules
  \<open>capabilities\<close>, \<open>state\<close>, \<open>da2\<close> and \<open>da3\<close>. A session owns a connected server, the
  node and page tokens it has given out and, for DA2, the position it believes the server's
  cursor to be at. \<open>session_ctx\<close> is what an operation on one session works on: the session,
  the world of the servers, and the UUIDs that will be drawn.

  The loop of \<open>browse_da2\<close> asks the server for names until the page is full; it may skip
  names without end, so it is a partial function: \<open>None\<close> means that it does not return.
\<close>

section \<open>Capabilities\<close>

definition MAX_BROWSE_PAGE_SIZE :: u32 where "MAX_BROWSE_PAGE_SIZE = 1000"

definition capabilities_for_server ::
  "('w, 'h, 'z) com_server_scheme \<Rightarrow> ('w, opc_error, browse_capabilities) prog" where
  "capabilities_for_server sv =
     (let supports_da3 = cs_da3 sv; supports_da2 = cs_da2 sv
      in if \<not> supports_da3 \<and> \<not> supports_da2 then
           throw (NotImplemented ''Server exposes neither OPC DA 3.0 nor OPC DA 2.x browsing'')
         else
           bindp (if supports_da2 then
                    bindp (query_organization sv) (\<lambda>val.
                      if val = OPC_NS_FLAT then ret NsFlat
                      else if val = OPC_NS_HIERARCHIAL then ret NsHierarchical
                      else throw (Server ''Server returned an unknown namespace organization'' val))
                  else ret NsUnknown) (\<lambda>namespace.
           ret \<lparr>cap_namespace = namespace, cap_supports_da3 = supports_da3,
                cap_supports_da2 = supports_da2, cap_max_page_size = MAX_BROWSE_PAGE_SIZE\<rparr>))"

section \<open>Session state\<close>

definition MAX_BROWSE_SESSIONS :: nat where "MAX_BROWSE_SESSIONS = 64"
definition MAX_NODE_TOKENS_PER_SESSION :: nat where "MAX_NODE_TOKENS_PER_SESSION = 100000"
definition MAX_PAGE_TOKENS_PER_SESSION :: nat where "MAX_PAGE_TOKENS_PER_SESSION = 256"
definition BROWSE_SESSION_IDLE_TIMEOUT :: duration where
  "BROWSE_SESSION_IDLE_TIMEOUT = 300 * 1000000000"

datatype browse_backend = BackendDa3 | BackendDa2 (current_path: "string list")

datatype node_location = LocDa3 string | LocDa2 "string list" | LocItem

record node_state =
  nd_kind :: browse_node_kind
  nd_location :: node_location

record 'h da2_page_state =
  ps_parent_path :: "string list"
  ps_branches :: "'h buffered option"
  ps_items :: "'h buffered option"
  ps_flat :: bool
  ps_merged_items :: "string set"

datatype 'h browse_continuation =
    ContDa3 (cont_parent: "token option") (cont_filter: browse_node_filter) (cont_raw: string)
  | ContDa2 (cont_parent: "token option") (cont_filter: browse_node_filter) "'h da2_page_state"

record ('w, 'h) browse_session =
  ss_server :: "('w, 'h) com_server"
  ss_capabilities :: browse_capabilities
  ss_backend :: browse_backend
  ss_da3_root_succeeded :: bool
  ss_nodes :: "(token, node_state) hmap"
  ss_continuations :: "(token, 'h browse_continuation) hmap"
  ss_last_used :: nat

record ('w, 'h) session_ctx =
  sx_session :: "('w, 'h) browse_session"
  sx_world :: 'w
  sx_draws :: "token list"

text \<open>Reading the session, and a call of its server.\<close>

definition session :: "(('w, 'h) browse_session \<Rightarrow> 'a) \<Rightarrow> (('w, 'h) session_ctx, 'e, 'a) prog" where
  "session f = gets (\<lambda>c. f (sx_session c))"

definition update_session ::
  "(('w, 'h) browse_session \<Rightarrow> ('w, 'h) browse_session) \<Rightarrow> (('w, 'h) session_ctx, 'e, unit) prog" where
  "update_session f = modifyp (sx_session_update f)"

definition on_server ::
  "(('w, 'h) com_server \<Rightarrow> ('w, 'e, 'a) prog) \<Rightarrow> (('w, 'h) session_ctx, 'e, 'a) prog" where
  "on_server m = (\<lambda>c. zoom sx_world (\<lambda>w. sx_world_update (\<lambda>_. w)) (m (ss_server (sx_session c))) c)"

definition draw_token :: "(token \<Rightarrow> bool) \<Rightarrow> (('w, 'h) session_ctx, 'e, token) prog" where
  "draw_token used = (\<lambda>c. case draw_fresh used (sx_draws c) of
       None \<Rightarrow> None
     | Some (t, ts) \<Rightarrow> Some (Inr t, c\<lparr>sx_draws := ts\<rparr>))"

definition insert_node ::
  "browse_node_kind \<Rightarrow> node_location \<Rightarrow> (('w, 'h) session_ctx, opc_error, token) prog" where
  "insert_node kind location =
     bindp (session ss_nodes) (\<lambda>nodes.
     if MAX_NODE_TOKENS_PER_SESSION \<le> hm_len nodes then
       throw (InvalidState (''Browse session reached its limit of ''
         @ show_nat MAX_NODE_TOKENS_PER_SESSION @ '' node tokens''))
     else bindp (draw_token (hm_contains nodes)) (\<lambda>token.
       seqp (update_session (ss_nodes_update (hm_insert token \<lparr>nd_kind = kind, nd_location = location\<rparr>)))
         (ret token)))"

definition store_continuation ::
  "'h browse_continuation \<Rightarrow> (('w, 'h) session_ctx, opc_error, token) prog" where
  "store_continuation continuation =
     bindp (session ss_continuations) (\<lambda>continuations.
     if MAX_PAGE_TOKENS_PER_SESSION \<le> hm_len continuations then
       throw (InvalidState (''Browse session reached its limit of ''
         @ show_nat MAX_PAGE_TOKENS_PER_SESSION @ '' page tokens''))
     else bindp (draw_token (hm_contains continuations)) (\<lambda>token.
       seqp (update_session (ss_continuations_update (hm_insert token continuation)))
         (ret token)))"

section \<open>Moving the DA2 cursor\<close>

fun common_prefix_length :: "'a list \<Rightarrow> 'a list \<Rightarrow> nat" where
  "common_prefix_length (x # xs) (y # ys) = (if x = y then Suc (common_prefix_length xs ys) else 0)"
| "common_prefix_length _ _ = 0"

definition set_current_path :: "string list \<Rightarrow> (('w, 'h) session_ctx, 'e, unit) prog" where
  "set_current_path p = update_session (ss_backend_update (\<lambda>_. BackendDa2 p))"

definition get_current_path :: "(('w, 'h) session_ctx, opc_error, string list) prog" where
  "get_current_path = bindp (session ss_backend) (\<lambda>backend.
     case backend of
       BackendDa2 p \<Rightarrow> ret p
     | BackendDa3 \<Rightarrow> throw (InvalidState ''DA2 browse position requested for a DA3 session''))"

definition move_to_da2_path :: "string list \<Rightarrow> (('w, 'h) session_ctx, opc_error, unit) prog" where
  "move_to_da2_path target =
     bindp get_current_path (\<lambda>current.
     let shared = common_prefix_length current target
     in seqp (for_each (drop shared current) (\<lambda>_. on_server (\<lambda>sv. change_browse_position sv OPC_BROWSE_UP [])))
       (seqp (set_current_path (take shared current))
       (seqp (for_each (drop shared target) (\<lambda>branch.
          seqp (on_server (\<lambda>sv. change_browse_position sv OPC_BROWSE_DOWN branch))
            (bindp get_current_path (\<lambda>p. set_current_path (p @ [branch])))))
       (ret ()))))"

section \<open>DA2 pages\<close>

definition parent_not_found :: opc_error where
  "parent_not_found = InvalidState ''Browse parent node is invalid or belongs to another session''"

definition parent_location :: "token \<Rightarrow> (('w, 'h) session_ctx, opc_error, node_location) prog" where
  "parent_location token =
     bindp (session ss_nodes) (\<lambda>nodes.
     case hm_get nodes token of
       None \<Rightarrow> throw parent_not_found
     | Some node \<Rightarrow>
         if \<not> has_children (nd_kind node) then throw (InvalidState ''Browse parent node has no children'')
         else ret (nd_location node))"

definition incompatible_parent :: opc_error where
  "incompatible_parent = InvalidState ''Browse parent node is incompatible with this session''"

definition da2_names ::
  "u32 \<Rightarrow> string \<Rightarrow> string list \<Rightarrow> (('w, 'h) session_ctx, opc_error, 'h buffered) prog" where
  "da2_names browse_type iterator_type path =
     bindp (on_server (\<lambda>sv. begin_da2_browse sv browse_type (Some []) 0 0)) (\<lambda>h.
       ret (buffered_new h iterator_type path))"

definition start_da2_page ::
  "token option \<Rightarrow> browse_node_filter \<Rightarrow> (('w, 'h) session_ctx, opc_error, 'h da2_page_state) prog" where
  "start_da2_page parent filter_kind =
     bindp (case parent of
              Some token \<Rightarrow>
                bindp (parent_location token) (\<lambda>location.
                  case location of
                    LocDa2 path \<Rightarrow> ret path
                  | LocDa3 _ \<Rightarrow> throw incompatible_parent
                  | LocItem \<Rightarrow> throw incompatible_parent)
            | None \<Rightarrow> ret []) (\<lambda>parent_path.
     bindp (session ss_capabilities) (\<lambda>capabilities.
     if cap_namespace capabilities = NsFlat then
       bindp (if filter_kind = FBranches then ret None
              else bindp (da2_names OPC_FLAT ''native DA2 flat iterator'' parent_path) (\<lambda>b. ret (Some b)))
         (\<lambda>items.
       ret \<lparr>ps_parent_path = parent_path, ps_branches = None, ps_items = items, ps_flat = True,
            ps_merged_items = {}\<rparr>)
     else
       seqp (move_to_da2_path parent_path)
         (bindp (if filter_kind = FItems then ret None
                 else bindp (da2_names OPC_BRANCH ''native DA2 branch iterator'' parent_path) (\<lambda>b. ret (Some b)))
           (\<lambda>branches.
          bindp (if filter_kind = FBranches then ret None
                 else bindp (da2_names OPC_LEAF ''native DA2 item iterator'' parent_path) (\<lambda>b. ret (Some b)))
           (\<lambda>items.
          ret \<lparr>ps_parent_path = parent_path, ps_branches = branches, ps_items = items, ps_flat = False,
               ps_merged_items = {}\<rparr>)))))"

text \<open>One result of an optional buffered iterator, with the iterator it leaves.\<close>

definition next_of ::
  "'h buffered option
     \<Rightarrow> (('w, 'h) session_ctx, 'e, (next_result option \<times> 'h buffered option)) prog" where
  "next_of names =
     (case names of
        None \<Rightarrow> ret (None, None)
      | Some b \<Rightarrow> on_server (\<lambda>sv. effect (\<lambda>w.
          case session_next (cs_enum_next sv) b w of (r, b, w) \<Rightarrow> ((Some r, Some b), w))))"

definition has_more_of ::
  "'h buffered option \<Rightarrow> (('w, 'h) session_ctx, 'e, (bool \<times> 'h buffered option)) prog" where
  "has_more_of names =
     (case names of
        None \<Rightarrow> ret (False, None)
      | Some b \<Rightarrow> on_server (\<lambda>sv. effect (\<lambda>w.
          case session_has_more (cs_enum_next sv) b w of (has, b, w) \<Rightarrow> ((has, Some b), w))))"

text \<open>\<open>Da2PageState::next\<close>\<close>

definition page_next ::
  "'h da2_page_state
     \<Rightarrow> (('w, 'h) session_ctx, opc_error, ((browse_node_kind \<times> string) option \<times> 'h da2_page_state)) prog" where
  "page_next st =
     bindp (next_of (ps_branches st)) (\<lambda>(branch_result, branches).
     let st = st\<lparr>ps_branches := branches\<rparr>;
         items = (\<lambda>st.
           bindp (next_of (ps_items st)) (\<lambda>(item_result, its).
           let st = st\<lparr>ps_items := its\<rparr>
           in case item_result of
                Some (Some (Inr name)) \<Rightarrow> ret (Some (KItem, name), st)
              | Some (Some (Inl error)) \<Rightarrow> throw error
              | Some None \<Rightarrow> ret (None, st\<lparr>ps_items := None\<rparr>)
              | None \<Rightarrow> ret (None, st)))
     in case branch_result of
          Some (Some (Inr name)) \<Rightarrow> ret (Some (KBranch, name), st)
        | Some (Some (Inl error)) \<Rightarrow>
            if is_non_progress_browse_error error then items (st\<lparr>ps_branches := None\<rparr>) else throw error
        | Some None \<Rightarrow> items (st\<lparr>ps_branches := None\<rparr>)
        | None \<Rightarrow> items st)"

text \<open>\<open>Da2PageState::has_more\<close>\<close>

definition page_has_more ::
  "'h da2_page_state \<Rightarrow> (('w, 'h) session_ctx, 'e, (bool \<times> 'h da2_page_state)) prog" where
  "page_has_more st =
     bindp (has_more_of (ps_branches st)) (\<lambda>(branch_has_more, branches).
     let st = st\<lparr>ps_branches := branches\<rparr>;
         items = (\<lambda>st. bindp (has_more_of (ps_items st)) (\<lambda>(has, its). ret (has, st\<lparr>ps_items := its\<rparr>)))
     in if branch_has_more then
          (case branches of
             None \<Rightarrow> ret (True, st)
           | Some b \<Rightarrow>
               (case take_non_progress b of
                  (Some error, b) \<Rightarrow> items (st\<lparr>ps_branches := None\<rparr>)
                | (None, b) \<Rightarrow> ret (True, st\<lparr>ps_branches := Some b\<rparr>)))
        else items st)"

definition map_browse_da2_branch ::
  "'h da2_page_state \<Rightarrow> browse_node_filter \<Rightarrow> string
     \<Rightarrow> (('w, 'h) session_ctx, opc_error,
         (browse_node_kind \<times> string option \<times> node_location) option \<times> 'h da2_page_state) prog" where
  "map_browse_da2_branch st filter_kind name =
     (let path = ps_parent_path st @ [name]
      in bindp (map_errp (\<lambda>error. contextual_browse_error error ''classify_da2_branch'' (ps_parent_path st) (Some name))
                  (on_server (\<lambda>sv. classify_da2_branch sv name))) (\<lambda>classification.
         let merged = st\<lparr>ps_merged_items := insert name (ps_merged_items st)\<rparr>
         in case (bc_item_id classification, bc_navigation classification) of
              (Some item_id, Navigable) \<Rightarrow> ret (Some (KBranchAndItem, Some item_id, LocDa2 path), merged)
            | (Some item_id, RejectedInvalidArgument) \<Rightarrow>
                if filter_kind = FBranches then ret (None, merged)
                else ret (Some (KItem, Some item_id, LocItem), merged)
            | (None, Navigable) \<Rightarrow> ret (Some (KBranch, None, LocDa2 path), st)
            | (None, RejectedInvalidArgument) \<Rightarrow> ret (None, st)))"

definition map_browse_da2_item ::
  "'h da2_page_state \<Rightarrow> string
     \<Rightarrow> (('w, 'h) session_ctx, opc_error, browse_node_kind \<times> string option \<times> node_location) prog" where
  "map_browse_da2_item st name =
     bindp (if ps_flat st then ret name
            else map_errp (\<lambda>error. contextual_browse_error error ''get_item_id'' (ps_parent_path st) (Some name))
                   (on_server (\<lambda>sv. get_item_id sv name))) (\<lambda>item_id.
     bindp (if ps_flat st then ret False
            else map_errp (\<lambda>error. contextual_browse_error error ''probe_da2_branch'' (ps_parent_path st) (Some name))
                   (on_server (\<lambda>sv. da2_name_has_children sv name))) (\<lambda>children.
     if children then ret (KBranchAndItem, Some item_id, LocDa2 (ps_parent_path st @ [name]))
     else ret (KItem, Some item_id, LocItem)))"

text \<open>One turn of the loop of \<open>browse_da2\<close>.\<close>

datatype da2_turn = Finished | Skipped | Listed browse_node

definition browse_da2_turn ::
  "browse_node_filter \<Rightarrow> 'h da2_page_state
     \<Rightarrow> (('w, 'h) session_ctx, opc_error, da2_turn \<times> 'h da2_page_state) prog" where
  "browse_da2_turn filter_kind st =
     bindp (page_next st) (\<lambda>(name_of, st).
     case name_of of
       None \<Rightarrow> ret (Finished, st)
     | Some (kind, name) \<Rightarrow>
         if kind = KItem \<and> name \<in> ps_merged_items st then ret (Skipped, st)
         else
           bindp (case kind of
                    KBranch \<Rightarrow> map_browse_da2_branch st filter_kind name
                  | KItem \<Rightarrow> bindp (map_browse_da2_item st name) (\<lambda>mapped. ret (Some mapped, st))
                  | KBranchAndItem \<Rightarrow>
                      throw (Internal ''DA2 browse returned an impossible combined node kind''))
             (\<lambda>(mapped, st).
           case mapped of
             None \<Rightarrow> ret (Skipped, st)
           | Some (kind, item_id, location) \<Rightarrow>
               bindp (insert_node kind location) (\<lambda>token.
               ret (Listed \<lparr>bn_token = token, bn_name = name, bn_item_id = item_id, bn_kind = kind\<rparr>, st))))"

partial_function (option) browse_da2_nodes ::
  "browse_node_filter \<Rightarrow> nat \<Rightarrow> browse_node list \<Rightarrow> 'h da2_page_state \<Rightarrow> ('w, 'h) session_ctx
     \<Rightarrow> ((opc_error + browse_node list \<times> 'h da2_page_state) \<times> ('w, 'h) session_ctx) option" where
  "browse_da2_nodes filter_kind max_elements nodes st c =
     (if length nodes < max_elements then
        bindp (browse_da2_turn filter_kind st) (\<lambda>(turn, st) c.
          case turn of
            Finished \<Rightarrow> Some (Inr (nodes, st), c)
          | Skipped \<Rightarrow> browse_da2_nodes filter_kind max_elements nodes st c
          | Listed node \<Rightarrow> browse_da2_nodes filter_kind max_elements (nodes @ [node]) st c) c
      else Some (Inr (nodes, st), c))"

definition browse_da2 ::
  "token option \<Rightarrow> browse_node_filter \<Rightarrow> u32 \<Rightarrow> 'h da2_page_state
     \<Rightarrow> (('w, 'h) session_ctx, opc_error, browse_page) prog" where
  "browse_da2 parent filter_kind max_elements st =
     seqp (if \<not> ps_flat st then move_to_da2_path (ps_parent_path st) else ret ())
       (bindp (browse_da2_nodes filter_kind (unat max_elements) [] st) (\<lambda>(nodes, st).
        bindp (page_has_more st) (\<lambda>(has, st).
        bindp (if has then bindp (store_continuation (ContDa2 parent filter_kind st)) (\<lambda>t. ret (Some t))
               else ret None) (\<lambda>continuation.
        ret \<lparr>pg_nodes = nodes, pg_continuation = continuation\<rparr>))))"

section \<open>DA3 pages\<close>

definition da3_kind :: "native_browse_element \<Rightarrow> browse_node_kind option" where
  "da3_kind e =
     (case (ne_has_children e, ne_is_item e) of
        (True, True) \<Rightarrow> Some KBranchAndItem
      | (True, False) \<Rightarrow> Some KBranch
      | (False, True) \<Rightarrow> Some KItem
      | (False, False) \<Rightarrow> None)"

definition map_da3_node :: "native_browse_element \<Rightarrow> (('w, 'h) session_ctx, opc_error, browse_node) prog" where
  "map_da3_node e =
     (case da3_kind e of
        None \<Rightarrow> throw (Internal (''DA3 browse element '' @ [CHR 39] @ ne_name e @ [CHR 39]
                  @ '' is neither a branch nor an item''))
      | Some kind \<Rightarrow>
          if is_item kind \<and> ne_item_id e = None then
            throw (Internal (''DA3 item '' @ [CHR 39] @ ne_name e @ [CHR 39] @ '' did not include an item ID''))
          else
            bindp (if has_children kind then
                     (case ne_item_id e of
                        Some item_id \<Rightarrow> ret (LocDa3 item_id)
                      | None \<Rightarrow> throw (Internal (''DA3 branch '' @ [CHR 39] @ ne_name e @ [CHR 39]
                                 @ '' did not include an item ID'')))
                   else ret LocItem) (\<lambda>location.
            bindp (insert_node kind location) (\<lambda>token.
            ret \<lparr>bn_token = token, bn_name = ne_name e,
                 bn_item_id = (if is_item kind then ne_item_id e else None), bn_kind = kind\<rparr>)))"

definition store_da3_continuation ::
  "token option \<Rightarrow> browse_node_filter \<Rightarrow> bool \<Rightarrow> string option
     \<Rightarrow> (('w, 'h) session_ctx, opc_error, token option) prog" where
  "store_da3_continuation parent filter_kind more_elements raw_continuation =
     (if \<not> more_elements then ret None
      else case raw_continuation of
             None \<Rightarrow> throw (Internal ''DA3 server reported more elements without a continuation point'')
           | Some raw \<Rightarrow> bindp (store_continuation (ContDa3 parent filter_kind raw)) (\<lambda>t. ret (Some t)))"

definition browse_da3_page ::
  "token option \<Rightarrow> browse_node_filter \<Rightarrow> u32 \<Rightarrow> string option
     \<Rightarrow> (('w, 'h) session_ctx, opc_error, browse_page) prog" where
  "browse_da3_page parent filter_kind max_elements continuation =
     bindp (case parent of
              Some token \<Rightarrow>
                bindp (parent_location token) (\<lambda>location.
                  case location of
                    LocDa3 item_id \<Rightarrow> ret (Some item_id)
                  | LocDa2 _ \<Rightarrow> throw incompatible_parent
                  | LocItem \<Rightarrow> throw incompatible_parent)
            | None \<Rightarrow> ret None) (\<lambda>item_id.
     bindp (on_server (\<lambda>sv. browse_da3 sv item_id continuation max_elements filter_kind)) (\<lambda>page.
     bindp (for_each (np_elements page) map_da3_node) (\<lambda>nodes.
     bindp (store_da3_continuation parent filter_kind (np_more_elements page) (np_continuation page))
       (\<lambda>continuation.
     ret \<lparr>pg_nodes = nodes, pg_continuation = continuation\<rparr>))))"

section \<open>Pages of a session\<close>

definition first_page ::
  "token option \<Rightarrow> browse_node_filter \<Rightarrow> u32 \<Rightarrow> (('w, 'h) session_ctx, opc_error, browse_page) prog" where
  "first_page parent filter_kind max_elements =
     bindp (session ss_backend) (\<lambda>backend.
     let da2 = bindp (start_da2_page parent filter_kind) (\<lambda>st. browse_da2 parent filter_kind max_elements st)
     in case backend of
          BackendDa3 \<Rightarrow>
            bindp (session (\<lambda>s. parent = None \<and> \<not> ss_da3_root_succeeded s)) (\<lambda>can_fallback.
            bindp (attempt (browse_da3_page parent filter_kind max_elements None)) (\<lambda>r.
            case r of
              Inr page \<Rightarrow>
                seqp (if parent = None then update_session (ss_da3_root_succeeded_update (\<lambda>_. True)) else ret ())
                  (ret page)
            | Inl error \<Rightarrow>
                bindp (session (\<lambda>s. cap_supports_da2 (ss_capabilities s))) (\<lambda>supports_da2.
                if can_fallback \<and> supports_da2 \<and> is_da3_browse_compatibility_error error then
                  seqp (update_session (\<lambda>s. s\<lparr>
                          ss_capabilities := (ss_capabilities s)\<lparr>cap_supports_da3 := False\<rparr>,
                          ss_backend := BackendDa2 []\<rparr>))
                    da2
                else throw error)))
        | BackendDa2 _ \<Rightarrow> da2)"

definition continue_page ::
  "'h browse_continuation \<Rightarrow> u32 \<Rightarrow> (('w, 'h) session_ctx, opc_error, browse_page) prog" where
  "continue_page continuation max_elements =
     (case continuation of
        ContDa3 parent filter_kind raw \<Rightarrow> browse_da3_page parent filter_kind max_elements (Some raw)
      | ContDa2 parent filter_kind st \<Rightarrow> browse_da2 parent filter_kind max_elements st)"

definition session_page :: "browse_page_request \<Rightarrow> (('w, 'h) session_ctx, opc_error, browse_page) prog" where
  "session_page request =
     bindp (session ss_capabilities) (\<lambda>capabilities.
     if cap_namespace capabilities = NsFlat \<and> rq_parent request \<noteq> None then
       throw (InvalidState ''Flat namespaces do not have browsable child nodes'')
     else case rq_continuation request of
            Some token \<Rightarrow>
              bindp (session ss_continuations) (\<lambda>continuations.
              case hm_get continuations token of
                None \<Rightarrow> throw (InvalidState ''Browse continuation is invalid, expired, or already consumed'')
              | Some continuation \<Rightarrow>
                  if cont_parent continuation \<noteq> rq_parent request
                     \<or> cont_filter continuation \<noteq> rq_filter request then
                    throw (InvalidState ''Browse continuation does not match the requested parent and filter'')
                  else
                    seqp (update_session (ss_continuations_update (hm_remove token)))
                      (continue_page continuation (rq_max_elements request)))
          | None \<Rightarrow> first_page (rq_parent request) (rq_filter request) (rq_max_elements request))"

section \<open>The sessions of the worker\<close>

text \<open>
  \<open>now\<close> is the reading of the clock in \<open>cleanup_expired\<close>, \<open>later_now\<close> the one that the
  operation itself makes afterwards.
\<close>

record ('w, 'h) browse_sessions =
  br_sessions :: "(token, ('w, 'h) browse_session) hmap"
  br_world :: 'w
  br_draws :: "token list"

definition session_live :: "nat \<Rightarrow> ('w, 'h) browse_session \<Rightarrow> bool" where
  "session_live now s = (now - ss_last_used s < BROWSE_SESSION_IDLE_TIMEOUT)"

definition cleanup_expired :: "nat \<Rightarrow> (('w, 'h) browse_sessions, 'e, unit) prog" where
  "cleanup_expired now = modifyp (br_sessions_update (hm_retain (session_live now)))"

definition new_session :: "('w, 'h) com_server \<Rightarrow> browse_capabilities \<Rightarrow> nat \<Rightarrow> ('w, 'h) browse_session" where
  "new_session sv capabilities now =
     \<lparr>ss_server = sv, ss_capabilities = capabilities,
      ss_backend = (if cap_supports_da3 capabilities then BackendDa3 else BackendDa2 []),
      ss_da3_root_succeeded = False, ss_nodes = [], ss_continuations = [],
      ss_last_used = now\<rparr>"

definition open_session ::
  "nat \<Rightarrow> nat \<Rightarrow> ('w, 'h) com_server \<Rightarrow> (('w, 'h) browse_sessions, opc_error, token) prog" where
  "open_session now later_now sv =
     seqp (cleanup_expired now)
       (bindp (gets br_sessions) (\<lambda>sessions.
        if MAX_BROWSE_SESSIONS \<le> hm_len sessions then
          throw (InvalidState (''Maximum of '' @ show_nat MAX_BROWSE_SESSIONS @ '' browse sessions is already open''))
        else
          bindp (zoom br_world (\<lambda>w. br_world_update (\<lambda>_. w)) (capabilities_for_server sv)) (\<lambda>capabilities.
          bindp (\<lambda>b. case draw_fresh (hm_contains sessions) (br_draws b) of
                       None \<Rightarrow> None
                     | Some (t, ts) \<Rightarrow> Some (Inr t, b\<lparr>br_draws := ts\<rparr>)) (\<lambda>token.
          seqp (modifyp (br_sessions_update (hm_insert token (new_session sv capabilities later_now))))
            (ret token)))))"

text \<open>A program on the session stored under a token; what it did to the session is stored back.\<close>

definition with_session ::
  "token \<Rightarrow> ('w, 'h) browse_session \<Rightarrow> (('w, 'h) session_ctx, 'e, 'a) prog
     \<Rightarrow> (('w, 'h) browse_sessions, 'e, 'a) prog" where
  "with_session token s m = (\<lambda>b.
     case m \<lparr>sx_session = s, sx_world = br_world b, sx_draws = br_draws b\<rparr> of
       None \<Rightarrow> None
     | Some (r, c) \<Rightarrow> Some (r, \<lparr>br_sessions = hm_insert token (sx_session c) (br_sessions b),
                              br_world = sx_world c, br_draws = sx_draws c\<rparr>))"

definition page ::
  "nat \<Rightarrow> nat \<Rightarrow> token \<Rightarrow> browse_page_request \<Rightarrow> (('w, 'h) browse_sessions, opc_error, browse_page) prog" where
  "page now later_now session_token request =
     seqp (cleanup_expired now)
       (if rq_max_elements request = 0 \<or> MAX_BROWSE_PAGE_SIZE < rq_max_elements request then
          throw (InvalidState (''Browse page size must be between 1 and '' @ show_nat (unat MAX_BROWSE_PAGE_SIZE)))
        else bindp (gets br_sessions) (\<lambda>sessions.
          case hm_get sessions session_token of
            None \<Rightarrow> throw (InvalidState ''Browse session is invalid, closed, or expired'')
          | Some s \<Rightarrow> with_session session_token (s\<lparr>ss_last_used := later_now\<rparr>) (session_page request)))"

definition close_session :: "nat \<Rightarrow> token \<Rightarrow> (('w, 'h) browse_sessions, opc_error, unit) prog" where
  "close_session now token =
     seqp (cleanup_expired now)
       (bindp (gets br_sessions) (\<lambda>sessions.
        case hm_get sessions token of
          None \<Rightarrow> throw (InvalidState ''Browse session is invalid, closed, or expired'')
        | Some _ \<Rightarrow> modifyp (br_sessions_update (hm_remove token))))"

section \<open>What an operation on a session changes\<close>

lemma on_server_session: "on_server m c = Some (r, c') \<Longrightarrow> sx_session c' = sx_session c \<and> sx_draws c' = sx_draws c"
  by (auto simp: on_server_def zoom_def split: option.splits)

lemma preserves_session_read [preserves_rules]: "preserves (session f) I"
  unfolding session_def by (rule preserves_basic)

lemma preserves_on_server [preserves_rules]: "preserves (on_server m) (\<lambda>c. P (sx_session c) (sx_draws c))"
  by (rule preservesI) (auto dest: on_server_session)

lemma preserves_update_session [preserves_rules]:
  "(\<And>s ds. P s ds \<Longrightarrow> P (f s) ds) \<Longrightarrow> preserves (update_session f) (\<lambda>c. P (sx_session c) (sx_draws c))"
  unfolding update_session_def by (rule preserves_modifyp) simp

lemma preserves_next_of [preserves_rules]: "preserves (next_of b) (\<lambda>c. P (sx_session c) (sx_draws c))"
  unfolding next_of_def by (intro preserves_rules)

lemma preserves_has_more_of [preserves_rules]: "preserves (has_more_of b) (\<lambda>c. P (sx_session c) (sx_draws c))"
  unfolding has_more_of_def by (intro preserves_rules)

lemma preserves_parent_location [preserves_rules]: "preserves (parent_location t) (\<lambda>c. P (sx_session c) (sx_draws c))"
  unfolding parent_location_def by (intro preserves_rules)

lemma preserves_da2_names [preserves_rules]: "preserves (da2_names ty n p) (\<lambda>c. P (sx_session c) (sx_draws c))"
  unfolding da2_names_def by (intro preserves_rules)

lemma preserves_page_next [preserves_rules]: "preserves (page_next st) (\<lambda>c. P (sx_session c) (sx_draws c))"
  unfolding page_next_def Let_def by (intro preserves_rules)

lemma preserves_page_has_more [preserves_rules]: "preserves (page_has_more st) (\<lambda>c. P (sx_session c) (sx_draws c))"
  unfolding page_has_more_def Let_def by (intro preserves_rules)

lemma preserves_case_location [preserves_rules]:
  "(\<And>i. preserves (m1 i) I) \<Longrightarrow> (\<And>p. preserves (m2 p) I) \<Longrightarrow> preserves m3 I \<Longrightarrow>
   preserves (case l of LocDa3 i \<Rightarrow> m1 i | LocDa2 p \<Rightarrow> m2 p | LocItem \<Rightarrow> m3) I"
  by (cases l) simp_all

lemma browse_da2_nodes_inv:
  "browse_da2_nodes f n nodes st c = Some y \<Longrightarrow> (\<And>st. preserves (browse_da2_turn f st) I) \<Longrightarrow> I c \<Longrightarrow>
   I (snd y)"
proof (induction rule: browse_da2_nodes.raw_induct[rotated, consumes 1, case_names turn])
  case (turn nodes_of f n nodes st c y)
  show ?case
  proof (cases "length nodes < n")
    case False
    with turn show ?thesis by auto
  next
    case True
    from turn(2) True obtain r c1 where once: "browse_da2_turn f st c = Some (r, c1)"
      by (cases "browse_da2_turn f st c") (auto simp: bindp_def)
    have "I c1" using preservesD[OF turn(3) turn(4) once] .
    show ?thesis
    proof (cases r)
      case (Inl e)
      with turn(2) True once \<open>I c1\<close> show ?thesis by (auto simp: bindp_def)
    next
      case (Inr p)
      with turn(2) True once \<open>I c1\<close> turn(1)[OF _ turn(3)] show ?thesis
        by (cases p) (auto simp: bindp_def split: da2_turn.splits)
    qed
  qed
qed

lemma preserves_browse_da2_nodes:
  "(\<And>st. preserves (browse_da2_turn f st) I) \<Longrightarrow> preserves (browse_da2_nodes f n nodes st) I"
  by (rule preservesI) (metis browse_da2_nodes_inv snd_conv)

text \<open>The branches of a node location: only nodes with children have one.\<close>

definition location_fits :: "browse_node_kind \<Rightarrow> node_location \<Rightarrow> bool" where
  "location_fits kind location = (has_children kind \<longleftrightarrow> location \<noteq> LocItem)"

lemma map_branch_fits:
  "map_browse_da2_branch st f n c = Some (Inr (Some (k, i, l), st'), c') \<Longrightarrow> location_fits k l"
  by (auto simp: map_browse_da2_branch_def bindp_eq_Inr ret_def Let_def location_fits_def
      split: option.splits da2_branch_navigation.splits if_splits)

lemma map_item_fits:
  "map_browse_da2_item st n c = Some (Inr (k, i, l), c') \<Longrightarrow> location_fits k l"
  by (auto simp: map_browse_da2_item_def bindp_eq_Inr ret_def location_fits_def split: if_splits)

text \<open>
  An invariant of sessions that minting tokens keeps is kept by DA3 pages and DA2 turns; with
  the other changes that the code makes (the believed cursor, consumed continuations, the
  fallback to DA2) it is kept by every page. \<open>protocol\<close> is the part of the session that
  minting does not touch.
\<close>

definition protocol :: "('w, 'h) browse_session \<Rightarrow> browse_capabilities \<times> browse_backend \<times> bool" where
  "protocol s = (ss_capabilities s, ss_backend s, ss_da3_root_succeeded s)"

locale minting_invariant =
  fixes I :: "('w, 'h) browse_session \<Rightarrow> token list \<Rightarrow> bool"
  assumes insert_node_inv: "I s ds \<Longrightarrow> hm_len (ss_nodes s) < MAX_NODE_TOKENS_PER_SESSION \<Longrightarrow>
      draw_fresh (hm_contains (ss_nodes s)) ds = Some (t, ds') \<Longrightarrow> location_fits k l \<Longrightarrow>
      I (ss_nodes_update (hm_insert t \<lparr>nd_kind = k, nd_location = l\<rparr>) s) ds'"
    and store_continuation_inv: "I s ds \<Longrightarrow> hm_len (ss_continuations s) < MAX_PAGE_TOKENS_PER_SESSION \<Longrightarrow>
      draw_fresh (hm_contains (ss_continuations s)) ds = Some (t, ds') \<Longrightarrow>
      I (ss_continuations_update (hm_insert t k') s) ds'"
begin

lemma preserves_insert_node:
  "location_fits k l \<Longrightarrow> preserves (insert_node k l) (\<lambda>c. I (sx_session c) (sx_draws c) \<and> K (protocol (sx_session c)))"
proof (rule preservesI)
  fix c r c'
  assume fits: "location_fits k l" and I: "I (sx_session c) (sx_draws c) \<and> K (protocol (sx_session c))"
    and run: "insert_node k l c = Some (r, c')"
  show "I (sx_session c') (sx_draws c') \<and> K (protocol (sx_session c'))"
    using run I insert_node_inv[OF _ _ _ fits]
    by (auto simp: insert_node_def session_def update_session_def draw_token_def prog_defs protocol_def
        split: if_splits option.splits prod.splits )
qed

lemma preserves_store_continuation:
  "preserves (store_continuation k) (\<lambda>c. I (sx_session c) (sx_draws c) \<and> K (protocol (sx_session c)))"
proof (rule preservesI)
  fix c r c'
  assume I: "I (sx_session c) (sx_draws c) \<and> K (protocol (sx_session c))"
    and run: "store_continuation k c = Some (r, c')"
  show "I (sx_session c') (sx_draws c') \<and> K (protocol (sx_session c'))"
    using run I store_continuation_inv
    by (auto simp: store_continuation_def session_def update_session_def draw_token_def prog_defs protocol_def
        split: if_splits option.splits prod.splits )
qed

lemma preserves_map_da3_node:
  "preserves (map_da3_node e) (\<lambda>c. I (sx_session c) (sx_draws c) \<and> K (protocol (sx_session c)))"
  unfolding map_da3_node_def
  by (cases "ne_item_id e"; cases "ne_has_children e"; cases "ne_is_item e")
    (auto simp: da3_kind_def location_fits_def bindp_ret bindp_throw
      intro!: preserves_rules preserves_insert_node)

lemma preserves_browse_da3_page:
  "preserves (browse_da3_page parent f m k) (\<lambda>c. I (sx_session c) (sx_draws c) \<and> K (protocol (sx_session c)))"
  unfolding browse_da3_page_def store_da3_continuation_def
  by (intro preserves_rules preserves_map_da3_node preserves_store_continuation
      preserves_parent_location[where P = "\<lambda>s ds. I s ds \<and> K (protocol s)"]
      preserves_on_server[where P = "\<lambda>s ds. I s ds \<and> K (protocol s)"])

lemma preserves_browse_da2_turn:
  "preserves (browse_da2_turn f st) (\<lambda>c. I (sx_session c) (sx_draws c) \<and> K (protocol (sx_session c)))"
proof -
  let ?J = "\<lambda>c. I (sx_session c) (sx_draws c) \<and> K (protocol (sx_session c))"
  let ?P = "\<lambda>s ds. I s ds \<and> K (protocol s)"
  let ?fits = "\<lambda>mapped. \<forall>k i l. mapped = Some (k, i, l) \<longrightarrow> location_fits k l"
  let ?mapping = "\<lambda>kind name st. case kind of
      KBranch \<Rightarrow> map_browse_da2_branch st f name
    | KItem \<Rightarrow> bindp (map_browse_da2_item st name) (\<lambda>mapped. ret (Some mapped, st))
    | KBranchAndItem \<Rightarrow> throw (Internal ''DA2 browse returned an impossible combined node kind'')"
  have branch: "preserves (map_browse_da2_branch st f n) ?J" for st n
    unfolding map_browse_da2_branch_def Let_def
    by (auto intro!: preserves_rules preserves_on_server[where P = ?P]
        split: option.split da2_branch_navigation.split)
  have item: "preserves (map_browse_da2_item st n) ?J" for st n
    unfolding map_browse_da2_item_def by (intro preserves_rules preserves_on_server[where P = ?P])
  have mapping: "hoare ?J (?mapping kind name st) (\<lambda>(mapped, st) c. ?J c \<and> ?fits mapped) (\<lambda>_. ?J)"
    for kind name st
  proof (cases kind)
    case KBranch
    have "hoare ?J (map_browse_da2_branch st f name) (\<lambda>x c. ?J c \<and> ?fits (fst x)) (\<lambda>_. ?J)"
      by (rule preserves_hoare[OF branch]) (auto dest: map_branch_fits)
    with KBranch show ?thesis by (simp add: case_prod_unfold)
  next
    case KItem
    have "preserves (bindp (map_browse_da2_item st name) (\<lambda>mapped. ret (Some mapped, st))) ?J"
      by (intro preserves_rules item)
    then have "hoare ?J (bindp (map_browse_da2_item st name) (\<lambda>mapped. ret (Some mapped, st)))
        (\<lambda>x c. ?J c \<and> ?fits (fst x)) (\<lambda>_. ?J)"
      by (rule preserves_hoare) (auto simp: bindp_eq_Inr ret_def dest: map_item_fits)
    with KItem show ?thesis by (simp add: case_prod_unfold)
  next
    case KBranchAndItem
    then show ?thesis by (simp add: hoare_def throw_def)
  qed
  have insert: "hoare (\<lambda>c. ?J c \<and> ?fits mapped)
      (case mapped of
         None \<Rightarrow> ret (Skipped, st)
       | Some (kind, item_id, location) \<Rightarrow>
           bindp (insert_node kind location) (\<lambda>token.
           ret (Listed \<lparr>bn_token = token, bn_name = name, bn_item_id = item_id, bn_kind = kind\<rparr>, st)))
      (\<lambda>_. ?J) (\<lambda>_. ?J)" for mapped st name
  proof (cases "?fits mapped")
    case True
    then have "preserves (case mapped of
         None \<Rightarrow> ret (Skipped, st)
       | Some (kind, item_id, location) \<Rightarrow>
           bindp (insert_node kind location) (\<lambda>token.
           ret (Listed \<lparr>bn_token = token, bn_name = name, bn_item_id = item_id, bn_kind = kind\<rparr>, st))) ?J"
      by (auto split: option.split intro!: preserves_rules preserves_insert_node)
    with True show ?thesis by (simp add: preserves_def)
  next
    case False
    then show ?thesis by (auto simp: hoare_def)
  qed
  have listing: "preserves (bindp (?mapping kind name st) (\<lambda>(mapped, st).
       case mapped of
         None \<Rightarrow> ret (Skipped, st)
       | Some (kind, item_id, location) \<Rightarrow>
           bindp (insert_node kind location) (\<lambda>token.
           ret (Listed \<lparr>bn_token = token, bn_name = name, bn_item_id = item_id, bn_kind = kind\<rparr>, st)))) ?J"
    for kind name st
    unfolding preserves_def
    by (rule hoare_bindp[OF _ mapping]) (simp only: split_paired_all prod.case, rule insert)
  show ?thesis
    unfolding browse_da2_turn_def
    by (intro preserves_rules listing preserves_page_next[where P = ?P])
qed

lemma preserves_da2_nodes:
  "preserves (browse_da2_nodes f n nodes st) (\<lambda>c. I (sx_session c) (sx_draws c) \<and> K (protocol (sx_session c)))"
  by (rule preserves_browse_da2_nodes) (rule preserves_browse_da2_turn)

end

locale session_invariant = minting_invariant I
  for I :: "('w, 'h) browse_session \<Rightarrow> token list \<Rightarrow> bool" +
  assumes cursor_inv: "I s ds \<Longrightarrow> ss_backend s = BackendDa2 q \<Longrightarrow> I (s\<lparr>ss_backend := BackendDa2 p\<rparr>) ds"
    and consume_inv: "I s ds \<Longrightarrow> I (ss_continuations_update (hm_remove t') s) ds"
    and root_inv: "I s ds \<Longrightarrow> ss_backend s = BackendDa3 \<Longrightarrow> I (s\<lparr>ss_da3_root_succeeded := True\<rparr>) ds"
    and fallback_inv: "I s ds \<Longrightarrow> ss_backend s = BackendDa3 \<Longrightarrow> \<not> ss_da3_root_succeeded s \<Longrightarrow>
      cap_supports_da2 (ss_capabilities s) \<Longrightarrow>
      I (s\<lparr>ss_capabilities := (ss_capabilities s)\<lparr>cap_supports_da3 := False\<rparr>, ss_backend := BackendDa2 []\<rparr>) ds"
begin

definition with_cursor :: "('w, 'h) session_ctx \<Rightarrow> bool" where
  "with_cursor c \<longleftrightarrow> I (sx_session c) (sx_draws c) \<and> (\<exists>p. ss_backend (sx_session c) = BackendDa2 p)"

lemma preserves_set_path: "preserves (set_current_path p) with_cursor"
  by (rule preservesI) (auto simp: set_current_path_def update_session_def prog_defs with_cursor_def
      intro: cursor_inv)

lemma preserves_get_path: "preserves get_current_path P"
  unfolding get_current_path_def session_def
  by (rule preservesI) (auto simp: prog_defs split: browse_backend.splits)

lemma preserves_cursor_server: "preserves (on_server m) with_cursor"
  unfolding with_cursor_def by (rule preserves_on_server)

lemma with_cursor_inv: "preserves m with_cursor \<Longrightarrow> hoare with_cursor m (\<lambda>_ c. I (sx_session c) (sx_draws c)) (\<lambda>_ c. I (sx_session c) (sx_draws c))"
  unfolding preserves_def by (erule hoare_cons) (auto simp: with_cursor_def)

lemma preserves_move: "preserves (move_to_da2_path target) (\<lambda>c. I (sx_session c) (sx_draws c))"
proof -
  have get: "hoare (\<lambda>c. I (sx_session c) (sx_draws c)) get_current_path (\<lambda>_. with_cursor) (\<lambda>_ c. I (sx_session c) (sx_draws c))"
    by (rule hoareI) (auto simp: get_current_path_def session_def prog_defs with_cursor_def
        split: browse_backend.splits)
  show ?thesis
    unfolding preserves_def move_to_da2_path_def Let_def
    by (rule hoare_bindp[OF _ get], rule with_cursor_inv)
      (intro preserves_rules preserves_set_path preserves_get_path preserves_cursor_server)
qed

lemma preserves_plain: "preserves m (\<lambda>c. I (sx_session c) (sx_draws c) \<and> True) \<Longrightarrow> preserves m (\<lambda>c. I (sx_session c) (sx_draws c))"
  by simp

lemmas minted = preserves_da2_nodes[where K = "\<lambda>_. True", THEN preserves_plain]
  preserves_store_continuation[where K = "\<lambda>_. True", THEN preserves_plain]
  preserves_browse_da3_page[where K = "\<lambda>_. True", THEN preserves_plain]

lemma preserves_start: "preserves (start_da2_page parent f) (\<lambda>c. I (sx_session c) (sx_draws c))"
  unfolding start_da2_page_def
  by (intro preserves_rules preserves_move)

lemma preserves_browse: "preserves (browse_da2 parent f m st) (\<lambda>c. I (sx_session c) (sx_draws c))"
  unfolding browse_da2_def
  by (intro preserves_rules preserves_move minted)

lemma preserves_first_page: "preserves (first_page parent f m) (\<lambda>c. I (sx_session c) (sx_draws c))"
proof (rule preservesI)
  fix c r c'
  let ?da2 = "bindp (start_da2_page parent f) (\<lambda>st. browse_da2 parent f m st)"
  have da2: "preserves ?da2 (\<lambda>c. I (sx_session c) (sx_draws c))"
    by (intro preserves_rules preserves_start preserves_browse)
  assume I: "I (sx_session c) (sx_draws c)" and run: "first_page parent f m c = Some (r, c')"
  show "I (sx_session c') (sx_draws c')"
  proof (cases "ss_backend (sx_session c)")
    case (BackendDa2 p)
    with run have "?da2 c = Some (r, c')" by (simp add: first_page_def session_def bindp_def gets_def Let_def)
    with da2 I show ?thesis by (rule preservesD)
  next
    case BackendDa3
    let ?P = "protocol (sx_session c)"
    from run BackendDa3 obtain q c1 where da3: "browse_da3_page parent f m None c = Some (q, c1)"
      by (auto simp: first_page_def session_def bindp_def gets_def Let_def attempt_def split: option.splits)
    have keep: "I (sx_session c1) (sx_draws c1) \<and> protocol (sx_session c1) = ?P"
      using preservesD[OF preserves_browse_da3_page[where K = "\<lambda>x. x = ?P"] _ da3] I by simp
    then have same: "ss_backend (sx_session c1) = BackendDa3"
      "ss_da3_root_succeeded (sx_session c1) = ss_da3_root_succeeded (sx_session c)"
      using BackendDa3 by (simp_all add: protocol_def)
    show ?thesis
    proof (cases q)
      case (Inr pg)
      with run BackendDa3 da3 have "c' = (if parent = None
          then c1\<lparr>sx_session := (sx_session c1)\<lparr>ss_da3_root_succeeded := True\<rparr>\<rparr> else c1)"
        by (auto simp: first_page_def session_def update_session_def prog_defs Let_def split: if_splits)
      with keep same show ?thesis by (auto intro: root_inv)
    next
      case (Inl e)
      let ?s1 = "sx_session c1"
      let ?fb = "sx_session_update (\<lambda>s. s\<lparr>ss_capabilities :=
        (ss_capabilities s)\<lparr>cap_supports_da3 := False\<rparr>, ss_backend := BackendDa2 []\<rparr>) c1"
      let ?go = "parent = None \<and> \<not> ss_da3_root_succeeded (sx_session c) \<and> cap_supports_da2 (ss_capabilities ?s1)
          \<and> is_da3_browse_compatibility_error e"
      show ?thesis
      proof (cases ?go)
        case True
        with run BackendDa3 da3 Inl have "?da2 ?fb = Some (r, c')"
          by (simp add: first_page_def session_def update_session_def bindp_def seqp_def gets_def modifyp_def
              attempt_def Let_def)
        moreover have "I (sx_session ?fb) (sx_draws ?fb)"
          using True keep same by (auto intro: fallback_inv)
        ultimately show ?thesis using preservesD[OF da2] by blast
      next
        case False
        with run BackendDa3 da3 Inl have "c' = c1"
          by (auto simp: first_page_def session_def update_session_def bindp_def seqp_def gets_def modifyp_def
              attempt_def throw_def Let_def)
        with keep show ?thesis by simp
      qed
    qed
  qed
qed

lemma preserves_continue: "preserves (continue_page k m) (\<lambda>c. I (sx_session c) (sx_draws c))"
  by (cases k) (simp_all add: continue_page_def preserves_browse minted)

lemma preserves_session_page: "preserves (session_page request) (\<lambda>c. I (sx_session c) (sx_draws c))"
  unfolding session_page_def
  by (intro preserves_rules preserves_first_page preserves_continue
      preserves_update_session[where P = I] consume_inv)

end

section \<open>Invariants of a session\<close>

text \<open>Token tables are maps, stay within their limits, and describe nodes coherently.\<close>

definition session_bounded :: "('w, 'h) browse_session \<Rightarrow> bool" where
  "session_bounded s \<longleftrightarrow>
     hm_ok (ss_nodes s) \<and> hm_len (ss_nodes s) \<le> MAX_NODE_TOKENS_PER_SESSION \<and>
     hm_ok (ss_continuations s) \<and> hm_len (ss_continuations s) \<le> MAX_PAGE_TOKENS_PER_SESSION \<and>
     (\<forall>t nd. hm_get (ss_nodes s) t = Some nd \<longrightarrow> location_fits (nd_kind nd) (nd_location nd))"

interpretation bounded: session_invariant "\<lambda>s ds. session_bounded s"
  by unfold_locales
    (auto simp: session_bounded_def hm.get_insert hm.ok_insert hm.ok_remove hm.remove_below_cap
      intro: hm.insert_below_cap)

text \<open>The backend in use agrees with the advertised capability.\<close>

definition session_consistent :: "('w, 'h) browse_session \<Rightarrow> bool" where
  "session_consistent s \<longleftrightarrow>
     (ss_backend s = BackendDa3 \<longleftrightarrow> cap_supports_da3 (ss_capabilities s)) \<and>
     (ss_da3_root_succeeded s \<longrightarrow> ss_backend s = BackendDa3)"

interpretation consistent: session_invariant "\<lambda>s ds. session_consistent s"
  by unfold_locales (auto simp: session_consistent_def)

text \<open>Every node token of a table given earlier still denotes the same node.\<close>

definition tokens_stable :: "(token, node_state) hmap \<Rightarrow> ('w, 'h) browse_session \<Rightarrow> bool" where
  "tokens_stable nodes0 s \<longleftrightarrow>
     (\<forall>t nd. hm_get nodes0 t = Some nd \<longrightarrow> hm_get (ss_nodes s) t = Some nd)"

interpretation stable: session_invariant "\<lambda>s ds. tokens_stable nodes0 s"
proof
  fix s :: "('w, 'h) browse_session" and ds t ds' k l
  assume "tokens_stable nodes0 s" "draw_fresh (hm_contains (ss_nodes s)) ds = Some (t, ds')"
  then show "tokens_stable nodes0 (ss_nodes_update (hm_insert t \<lparr>nd_kind = k, nd_location = l\<rparr>) s)"
    using draw_fresh_unused[of "hm_contains (ss_nodes s)" ds t ds']
    by (auto simp: tokens_stable_def hm.get_insert hm_get_None[symmetric])
qed (auto simp: tokens_stable_def)

text \<open>A page token that is neither stored nor about to be drawn.\<close>

definition token_spent :: "token \<Rightarrow> ('w, 'h) browse_session \<Rightarrow> token list \<Rightarrow> bool" where
  "token_spent t s ds \<longleftrightarrow> hm_get (ss_continuations s) t = None \<and> t \<notin> set ds"

interpretation spent: session_invariant "token_spent t0"
proof
  fix s :: "('w, 'h) browse_session" and ds t ds' k l
  assume "token_spent t0 s ds" "draw_fresh (hm_contains (ss_nodes s)) ds = Some (t, ds')"
  then show "token_spent t0 (ss_nodes_update (hm_insert t \<lparr>nd_kind = k, nd_location = l\<rparr>) s) ds'"
    by (auto simp: token_spent_def dest: draw_fresh_suffix)
next
  fix s :: "('w, 'h) browse_session" and ds t ds' k
  assume "token_spent t0 s ds" "draw_fresh (hm_contains (ss_continuations s)) ds = Some (t, ds')"
  then show "token_spent t0 (ss_continuations_update (hm_insert t k) s) ds'"
    by (auto simp: token_spent_def hm.get_insert dest: draw_fresh_suffix)
qed (auto simp: token_spent_def hm.get_remove)

section \<open>Sequences of operations\<close>

definition sessions_ok :: "('w, 'h) browse_sessions \<Rightarrow> bool" where
  "sessions_ok b \<longleftrightarrow> hm_ok (br_sessions b) \<and> hm_len (br_sessions b) \<le> MAX_BROWSE_SESSIONS \<and>
     (\<forall>t s. hm_get (br_sessions b) t = Some s \<longrightarrow> session_bounded s \<and> session_consistent s)"

text \<open>One request handled by the worker, whatever its outcome, and the states it can reach.\<close>

inductive browse_step :: "('w, 'h) browse_sessions \<Rightarrow> ('w, 'h) browse_sessions \<Rightarrow> bool" where
  opened: "open_session now later_now sv b = Some (r, b') \<Longrightarrow> browse_step b b'"
| paged: "page now later_now token request b = Some (r, b') \<Longrightarrow> browse_step b b'"
| closed: "close_session now token b = Some (r, b') \<Longrightarrow> browse_step b b'"

inductive browse_reachable :: "('w, 'h) browse_sessions \<Rightarrow> ('w, 'h) browse_sessions \<Rightarrow> bool" for b0 where
  start: "browse_reachable b0 b0"
| step: "browse_reachable b0 b \<Longrightarrow> browse_step b b' \<Longrightarrow> browse_reachable b0 b'"

lemma sessions_ok_cleanup: "preserves (cleanup_expired now) sessions_ok"
  unfolding cleanup_expired_def
proof (rule preserves_modifyp)
  fix b :: "('w, 'h) browse_sessions"
  assume ok: "sessions_ok b"
  then show "sessions_ok (br_sessions_update (hm_retain (session_live now)) b)"
    using order_trans[OF hm_len_retain]
    by (auto simp: sessions_ok_def hm_ok_retain hm_get_retain split: option.splits if_splits)
qed

lemma sessions_ok_insert:
  assumes "sessions_ok b" and "session_bounded s" and "session_consistent s"
    and "hm_len (br_sessions b) < MAX_BROWSE_SESSIONS \<or> hm_get (br_sessions b) t \<noteq> None"
    and "br_sessions b' = hm_insert t s (br_sessions b)"
  shows "sessions_ok b'"
  using assms by (auto simp: sessions_ok_def hm.get_insert hm.ok_insert hm.len_insert)

lemma new_session_ok: "session_bounded (new_session sv c n)" "session_consistent (new_session sv c n)"
  by (simp_all add: new_session_def session_bounded_def session_consistent_def hm_ok_def hm_len_def hm_get_def)

lemma sessions_ok_with_session:
  assumes ok: "sessions_ok b" and get: "hm_get (br_sessions b) t = Some s"
    and run: "with_session t (s\<lparr>ss_last_used := now\<rparr>) (session_page rq) b = Some (r, b')"
  shows "sessions_ok b'"
proof -
  from run obtain c where c: "session_page rq \<lparr>sx_session = s\<lparr>ss_last_used := now\<rparr>, sx_world = br_world b,
      sx_draws = br_draws b\<rparr> = Some (r, c)"
    and b': "b' = \<lparr>br_sessions = hm_insert t (sx_session c) (br_sessions b), br_world = sx_world c,
      br_draws = sx_draws c\<rparr>"
    by (auto simp: with_session_def split: option.splits)
  from ok get have "session_bounded s" "session_consistent s" by (auto simp: sessions_ok_def)
  then have "session_bounded (sx_session c)" "session_consistent (sx_session c)"
    using preservesD[OF bounded.preserves_session_page _ c] preservesD[OF consistent.preserves_session_page _ c]
    by (auto simp: session_bounded_def session_consistent_def)
  with ok show ?thesis by (rule sessions_ok_insert) (use get b' in auto)
qed

lemma sessions_ok_open: "preserves (open_session now later_now sv) sessions_ok"
proof -
  let ?ok = "\<lambda>x b. sessions_ok b \<and> br_sessions b = x"
  have world: "preserves (zoom br_world (\<lambda>w. br_world_update (\<lambda>_. w)) m) (?ok x)" for m :: "('w, 'e, 'c) prog" and x
    by (rule preservesI) (auto simp: zoom_def sessions_ok_def split: option.splits)
  have draw: "preserves (\<lambda>b. case draw_fresh u (br_draws b) of None \<Rightarrow> None
      | Some (t, ts) \<Rightarrow> Some (Inr t, b\<lparr>br_draws := ts\<rparr>)) (?ok x)" for u x
    by (rule preservesI) (auto simp: sessions_ok_def split: option.splits)
  have store: "hoare (?ok x) (seqp (modifyp (br_sessions_update (hm_insert t (new_session sv c later_now)))) (ret t)) (\<lambda>_. sessions_ok) (\<lambda>_. sessions_ok)"
    if "\<not> MAX_BROWSE_SESSIONS \<le> hm_len x" for x t c
  proof (rule hoareI)
    fix b y b'
    assume ok: "?ok x b" and run: "seqp (modifyp (br_sessions_update (hm_insert t (new_session sv c later_now)))) (ret t) b = Some (Inr y, b')"
    show "sessions_ok b'"
      by (rule sessions_ok_insert[OF conjunct1[OF ok] new_session_ok[of sv c later_now], where t = t])
        (use that ok run in \<open>auto simp: seqp_def bindp_def modifyp_def ret_def\<close>)
  qed (simp add: seqp_def bindp_def modifyp_def ret_def)
  have rest: "hoare (?ok x) (if MAX_BROWSE_SESSIONS \<le> hm_len x then throw e
        else bindp (zoom br_world (\<lambda>w. br_world_update (\<lambda>_. w)) (capabilities_for_server sv)) (\<lambda>c.
          bindp (\<lambda>b. case draw_fresh (hm_contains x) (br_draws b) of None \<Rightarrow> None
             | Some (t, ts) \<Rightarrow> Some (Inr t, b\<lparr>br_draws := ts\<rparr>)) (\<lambda>t.
          seqp (modifyp (br_sessions_update (hm_insert t (new_session sv c later_now)))) (ret t)))) (\<lambda>_. sessions_ok) (\<lambda>_. sessions_ok)" for x e
  proof (cases "MAX_BROWSE_SESSIONS \<le> hm_len x")
    case True
    then show ?thesis by (simp add: hoare_def throw_def)
  next
    case False
    have w: "hoare (?ok x) (zoom br_world (\<lambda>w. br_world_update (\<lambda>_. w)) (capabilities_for_server sv))
        (\<lambda>_. ?ok x) (\<lambda>_. sessions_ok)"
      by (rule hoare_cons[OF world[unfolded preserves_def]]) auto
    have d: "hoare (?ok x) (\<lambda>b. case draw_fresh (hm_contains x) (br_draws b) of None \<Rightarrow> None
             | Some (t, ts) \<Rightarrow> Some (Inr t, b\<lparr>br_draws := ts\<rparr>)) (\<lambda>_. ?ok x) (\<lambda>_. sessions_ok)"
      by (rule hoare_cons[OF draw[unfolded preserves_def]]) auto
    show ?thesis
      unfolding if_not_P[OF False]
      by (rule hoare_bindp[OF _ w], rule hoare_bindp[OF _ d], rule store[OF False])
  qed
  have read: "hoare sessions_ok (gets br_sessions) ?ok (\<lambda>_. sessions_ok)"
    by (simp add: hoare_def gets_def)
  show ?thesis
    unfolding preserves_def open_session_def
    by (rule hoare_seqp[OF hoare_bindp[OF rest read]]) (rule sessions_ok_cleanup[unfolded preserves_def])
qed

lemma sessions_ok_step: "browse_step b b' \<Longrightarrow> sessions_ok b \<Longrightarrow> sessions_ok b'"
proof (induction rule: browse_step.induct)
  case (opened now later_now sv b r b')
  then show ?case using preservesD[OF sessions_ok_open] by blast
next
  case (paged now later_now token request b r b')
  define b1 where "b1 = br_sessions_update (hm_retain (session_live now)) b"
  have ok: "sessions_ok b1"
    using preservesD[OF sessions_ok_cleanup paged(2)] by (simp add: cleanup_expired_def modifyp_def b1_def)
  from paged(1) ok show ?case
    by (auto simp: page_def cleanup_expired_def seqp_def bindp_def modifyp_def gets_def throw_def
        b1_def[symmetric] split: if_splits option.splits intro: sessions_ok_with_session)
next
  case (closed now token b r b')
  define b1 where "b1 = br_sessions_update (hm_retain (session_live now)) b"
  have ok: "sessions_ok b1"
    using preservesD[OF sessions_ok_cleanup closed(2)] by (simp add: cleanup_expired_def modifyp_def b1_def)
  from closed(1) ok show ?case
    by (auto simp: close_session_def cleanup_expired_def seqp_def bindp_def modifyp_def gets_def throw_def
        b1_def[symmetric] sessions_ok_def hm.get_remove hm.ok_remove hm.remove_below_cap
        split: option.splits if_splits)
qed

section \<open>When a session leaves DA3\<close>

lemma move_on_da3: "ss_backend (sx_session c) = BackendDa3 \<Longrightarrow> move_to_da2_path target c
    = Some (Inl (InvalidState ''DA2 browse position requested for a DA3 session''), c)"
  by (simp add: move_to_da2_path_def get_current_path_def session_def prog_defs)

definition bounded_da3 :: "('w, 'h) session_ctx \<Rightarrow> bool" where
  "bounded_da3 c \<longleftrightarrow> session_bounded (sx_session c) \<and> ss_backend (sx_session c) = BackendDa3"

lemma bounded_da3_protocol:
  "bounded_da3 = (\<lambda>c. session_bounded (sx_session c) \<and> (\<lambda>p. fst (snd p) = BackendDa3) (protocol (sx_session c)))"
  by (rule ext) (simp add: bounded_da3_def protocol_def)

lemma preserves_bounded_da3:
  "preserves (browse_da3_page parent f m k) bounded_da3"
  "preserves (browse_da2_nodes f n nodes st) bounded_da3"
  "preserves (store_continuation k') bounded_da3"
  "preserves (page_has_more st) bounded_da3"
  "preserves (session g) bounded_da3"
  "preserves (parent_location t) bounded_da3"
  "preserves (da2_names ty nm pth) bounded_da3"
  unfolding bounded_da3_protocol
  by (rule bounded.preserves_browse_da3_page bounded.preserves_da2_nodes bounded.preserves_store_continuation
      preserves_page_has_more preserves_session_read preserves_parent_location preserves_da2_names)+

lemma preserves_move_on_da3: "preserves (move_to_da2_path target) bounded_da3"
  by (rule preservesI) (simp add: bounded_da3_def move_on_da3)

lemma preserves_browse_da2_on_da3: "preserves (browse_da2 parent f m st) bounded_da3"
  unfolding browse_da2_def
  by (intro preserves_rules preserves_bounded_da3 preserves_move_on_da3)

lemma first_page_on_da3:
  assumes "first_page parent f m c = Some (r, c')" and "bounded_da3 c"
  shows "ss_backend (sx_session c') = BackendDa3 \<or>
    (parent = None \<and> \<not> ss_da3_root_succeeded (sx_session c) \<and>
     cap_supports_da2 (ss_capabilities (sx_session c)) \<and>
     (\<exists>e c1. browse_da3_page parent f m None c = Some (Inl e, c1) \<and> is_da3_browse_compatibility_error e))"
proof -
  from assms obtain q c1 where da3: "browse_da3_page parent f m None c = Some (q, c1)"
    by (auto simp: first_page_def session_def bindp_def gets_def Let_def attempt_def bounded_da3_def
        split: option.splits)
  have keep: "session_bounded (sx_session c1) \<and> protocol (sx_session c1) = protocol (sx_session c)"
    using preservesD[OF bounded.preserves_browse_da3_page[where K = "\<lambda>x. x = protocol (sx_session c)"] _ da3]
      assms(2) by (simp add: bounded_da3_def)
  show ?thesis
  proof (cases q)
    case (Inr pg)
    with assms da3 keep show ?thesis
      by (auto simp: first_page_def session_def update_session_def prog_defs Let_def bounded_da3_def
          protocol_def split: if_splits)
  next
    case (Inl e)
    with assms da3 keep show ?thesis
      by (auto simp: first_page_def session_def bindp_def gets_def attempt_def throw_def Let_def bounded_da3_def
          protocol_def split: if_splits)
  qed
qed

section \<open>Nodes on a page\<close>

text \<open>A page entry whose token the session knows, with the same kind, and whose item ID is there
  when it is an item.\<close>

definition registered :: "('w, 'h) browse_session \<Rightarrow> browse_node \<Rightarrow> bool" where
  "registered s n \<longleftrightarrow> (\<exists>nd. hm_get (ss_nodes s) (bn_token n) = Some nd \<and> nd_kind nd = bn_kind n) \<and>
     (is_item (bn_kind n) \<longleftrightarrow> bn_item_id n \<noteq> None)"

definition all_registered :: "browse_node list \<Rightarrow> ('w, 'h) browse_session \<Rightarrow> bool" where
  "all_registered ns s \<longleftrightarrow> (\<forall>n\<in>set ns. registered s n) \<and> distinct (map bn_token ns)"

lemma insert_node_registers:
  "insert_node k l c = Some (Inr t, c') \<Longrightarrow>
   hm_get (ss_nodes (sx_session c)) t = None \<and>
   hm_get (ss_nodes (sx_session c')) t = Some \<lparr>nd_kind = k, nd_location = l\<rparr>"
  by (auto simp: insert_node_def session_def update_session_def draw_token_def prog_defs hm.get_insert
      hm_get_None dest!: draw_fresh_unused split: if_splits option.splits)

lemma all_registered_mono:
  "all_registered ns s \<Longrightarrow> tokens_stable (ss_nodes s) s' \<Longrightarrow> all_registered ns s'"
  by (auto simp: all_registered_def registered_def tokens_stable_def)

lemma all_registered_add:
  assumes "all_registered ns s" and "tokens_stable (ss_nodes s) s'" and "registered s' n"
    and "hm_get (ss_nodes s) (bn_token n) = None"
  shows "all_registered (ns @ [n]) s'"
proof -
  have "bn_token n \<notin> bn_token ` set ns"
    using assms(1,4) by (auto simp: all_registered_def registered_def)
  with all_registered_mono[OF assms(1,2)] assms(1,3) show ?thesis
    by (auto simp: all_registered_def)
qed

lemma stable_refl: "tokens_stable (ss_nodes s) s"
  by (simp add: tokens_stable_def)

lemma turn_stable: "browse_da2_turn f st c = Some (r, c') \<Longrightarrow> tokens_stable (ss_nodes (sx_session c)) (sx_session c')"
  using preservesD[OF stable.preserves_browse_da2_turn[where K = "\<lambda>_. True"]] stable_refl by blast

lemma map_branch_item:
  "map_browse_da2_branch st f n c = Some (Inr (Some (k, i, l), st'), c') \<Longrightarrow> is_item k \<longleftrightarrow> i \<noteq> None"
  by (auto simp: map_browse_da2_branch_def bindp_eq_Inr ret_def Let_def
      split: option.splits da2_branch_navigation.splits if_splits)

lemma map_item_item:
  "map_browse_da2_item st n c = Some (Inr (k, i, l), c') \<Longrightarrow> is_item k \<longleftrightarrow> i \<noteq> None"
  by (auto simp: map_browse_da2_item_def bindp_eq_Inr ret_def split: if_splits)

lemma mapping_keeps_nodes:
  "map_browse_da2_branch st f n c = Some (r, c') \<Longrightarrow> sx_session c' = sx_session c"
  "map_browse_da2_item st n c = Some (r', c') \<Longrightarrow> sx_session c' = sx_session c"
  "page_next st c = Some (r'', c') \<Longrightarrow> sx_session c' = sx_session c"
proof -
  have "preserves (map_browse_da2_branch st f n) (\<lambda>c'. (\<lambda>s ds. s = sx_session c) (sx_session c') (sx_draws c'))"
    unfolding map_browse_da2_branch_def Let_def
    by (auto intro!: preserves_rules preserves_on_server[where P = "\<lambda>s ds. s = sx_session c"]
        split: option.split da2_branch_navigation.split)
  then show "map_browse_da2_branch st f n c = Some (r, c') \<Longrightarrow> sx_session c' = sx_session c"
    by (auto dest: preservesD)
  have "preserves (map_browse_da2_item st n) (\<lambda>c'. (\<lambda>s ds. s = sx_session c) (sx_session c') (sx_draws c'))"
    unfolding map_browse_da2_item_def
    by (intro preserves_rules preserves_on_server[where P = "\<lambda>s ds. s = sx_session c"])
  then show "map_browse_da2_item st n c = Some (r', c') \<Longrightarrow> sx_session c' = sx_session c"
    by (auto dest: preservesD)
  show "page_next st c = Some (r'', c') \<Longrightarrow> sx_session c' = sx_session c"
    using preservesD[OF preserves_page_next[where P = "\<lambda>s ds. s = sx_session c"]] by blast
qed

lemma turn_registers:
  assumes "browse_da2_turn f st c = Some (Inr (Listed n, st'), c')"
  shows "registered (sx_session c') n \<and> hm_get (ss_nodes (sx_session c)) (bn_token n) = None"
proof -
  from assms obtain kind name st1 c1 where first: "page_next st c = Some (Inr (Some (kind, name), st1), c1)"
    and rest: "bindp (case kind of
                    KBranch \<Rightarrow> map_browse_da2_branch st1 f name
                  | KItem \<Rightarrow> bindp (map_browse_da2_item st1 name) (\<lambda>mapped. ret (Some mapped, st1))
                  | KBranchAndItem \<Rightarrow>
                      throw (Internal ''DA2 browse returned an impossible combined node kind''))
             (\<lambda>(mapped, st).
           case mapped of
             None \<Rightarrow> ret (Skipped, st)
           | Some (kind, item_id, location) \<Rightarrow>
               bindp (insert_node kind location) (\<lambda>token.
               ret (Listed \<lparr>bn_token = token, bn_name = name, bn_item_id = item_id, bn_kind = kind\<rparr>, st))) c1
       = Some (Inr (Listed n, st'), c')"
    unfolding browse_da2_turn_def bindp_eq_Inr[of "page_next st"]
    by (force simp: ret_def split: option.splits if_splits)
  have s1: "sx_session c1 = sx_session c" using mapping_keeps_nodes(3)[OF first] .
  from rest obtain k i l st2 c2 where
    mapped: "(kind = KBranch \<and> map_browse_da2_branch st1 f name c1 = Some (Inr (Some (k, i, l), st2), c2)) \<or>
      (kind = KItem \<and> map_browse_da2_item st1 name c1 = Some (Inr (k, i, l), c2))"
    and minted: "bindp (insert_node k l) (\<lambda>token.
      ret (Listed \<lparr>bn_token = token, bn_name = name, bn_item_id = i, bn_kind = k\<rparr>, st2)) c2
       = Some (Inr (Listed n, st'), c')"
    by (cases kind) (force simp: bindp_eq_Inr ret_def throw_def split: option.splits)+
  have s2: "sx_session c2 = sx_session c1" using mapped mapping_keeps_nodes by blast
  have item: "is_item k \<longleftrightarrow> i \<noteq> None" using mapped map_branch_item map_item_item by blast
  from minted obtain t where "insert_node k l c2 = Some (Inr t, c')"
    and n: "n = \<lparr>bn_token = t, bn_name = name, bn_item_id = i, bn_kind = k\<rparr>"
    by (auto simp: bindp_eq_Inr ret_def)
  from insert_node_registers[OF this(1)] n s1 s2 item show ?thesis by (simp add: registered_def)
qed

lemma browse_da2_nodes_registers:
  "browse_da2_nodes f n nodes st c = Some y \<Longrightarrow> all_registered nodes (sx_session c) \<Longrightarrow> length nodes \<le> n \<Longrightarrow>
   (case y of (Inr (nodes', st'), c') \<Rightarrow> all_registered nodes' (sx_session c') \<and> length nodes' \<le> n | _ \<Rightarrow> True)"
proof (induction rule: browse_da2_nodes.raw_induct[rotated, consumes 1, case_names turn])
  case (turn nodes_of f n nodes st c y)
  show ?case
  proof (cases "length nodes < n")
    case False
    with turn show ?thesis by auto
  next
    case True
    from turn(2) True obtain r c1 where once: "browse_da2_turn f st c = Some (r, c1)"
      by (cases "browse_da2_turn f st c") (auto simp: bindp_def)
    note stable = turn_stable[OF once]
    show ?thesis
    proof (cases r)
      case (Inl e)
      with turn(2) True once show ?thesis by (auto simp: bindp_def)
    next
      case (Inr p)
      obtain what st1 where p: "p = (what, st1)" by (cases p)
      have run: "(case what of Finished \<Rightarrow> Some (Inr (nodes, st1), c1)
          | Skipped \<Rightarrow> nodes_of f n nodes st1 c1
          | Listed node \<Rightarrow> nodes_of f n (nodes @ [node]) st1 c1) = Some y"
        using turn(2) True once Inr p by (simp add: bindp_def)
      have kept: "all_registered nodes (sx_session c1)"
        by (rule all_registered_mono[OF turn(3) stable])
      show ?thesis
      proof (cases what)
        case Finished
        with run kept turn(4) show ?thesis by auto
      next
        case Skipped
        with run turn(1)[OF _ kept turn(4)] show ?thesis by auto
      next
        case (Listed node)
        have "all_registered (nodes @ [node]) (sx_session c1)"
          using turn_registers once Inr p Listed all_registered_add[OF turn(3) stable] by blast
        with run Listed turn(1)[of f n "nodes @ [node]" st1 c1 y] True show ?thesis by auto
      qed
    qed
  qed
qed

lemma map_da3_registers:
  "map_da3_node e c = Some (Inr n, c') \<Longrightarrow>
   registered (sx_session c') n \<and> hm_get (ss_nodes (sx_session c)) (bn_token n) = None"
  by (auto simp: map_da3_node_def bindp_eq_Inr ret_def throw_def registered_def
      dest!: insert_node_registers split: option.splits if_splits)

lemma map_da3_stable: "map_da3_node e c = Some (r, c') \<Longrightarrow> tokens_stable (ss_nodes (sx_session c)) (sx_session c')"
  using preservesD[OF stable.preserves_map_da3_node[where K = "\<lambda>_. True"]] stable_refl by blast

lemma for_each_da3_registers:
  "for_each es map_da3_node c = Some (Inr ns, c') \<Longrightarrow> all_registered nodes (sx_session c) \<Longrightarrow>
   all_registered (nodes @ ns) (sx_session c') \<and> length ns = length es"
proof (induction es arbitrary: nodes c ns)
  case Nil
  then show ?case by (simp add: ret_def)
next
  case (Cons e es)
  from Cons.prems(1) obtain n c1 ns' where run: "map_da3_node e c = Some (Inr n, c1)"
    "for_each es map_da3_node c1 = Some (Inr ns', c')" and ns: "ns = n # ns'"
    by (auto simp: bindp_eq_Inr ret_def)
  have "all_registered (nodes @ [n]) (sx_session c1)"
    using map_da3_registers[OF run(1)] all_registered_add[OF Cons.prems(2) map_da3_stable[OF run(1)]] by blast
  from Cons.IH[OF run(2) this] ns show ?case by simp
qed

text \<open>What every successful page promises about its nodes.\<close>

definition page_registered :: "('w, 'h) session_ctx \<Rightarrow> browse_page \<Rightarrow> bool" where
  "page_registered c pg \<longleftrightarrow> all_registered (pg_nodes pg) (sx_session c)"

lemma store_continuation_nodes:
  "store_continuation k c = Some (r, c') \<Longrightarrow> ss_nodes (sx_session c') = ss_nodes (sx_session c)"
  by (auto simp: store_continuation_def session_def update_session_def draw_token_def prog_defs
      split: if_splits option.splits prod.splits)

lemma all_registered_nodes:
  "ss_nodes s' = ss_nodes s \<Longrightarrow> all_registered ns s \<Longrightarrow> all_registered ns s'"
  by (auto simp: all_registered_def registered_def)

lemma all_registered_Nil: "all_registered [] s"
  by (simp add: all_registered_def)

lemma browse_da2_registers:
  assumes "browse_da2 parent f m st c = Some (Inr pg, c')"
  shows "page_registered c' pg \<and> length (pg_nodes pg) \<le> unat m"
proof -
  from assms obtain c1 nodes st1 c2 has st2 c3 k where
    nodes: "browse_da2_nodes f (unat m) [] st c1 = Some (Inr (nodes, st1), c2)"
    and has_more: "page_has_more st1 c2 = Some (Inr (has, st2) :: opc_error + _, c3)"
    and stored: "(if has then bindp (store_continuation (ContDa2 parent f st2)) (\<lambda>t. ret (Some t)) else ret None) c3
      = Some (Inr k, c')"
    and pg: "pg = \<lparr>pg_nodes = nodes, pg_continuation = k\<rparr>"
    unfolding browse_da2_def seqp_def by (auto simp: bindp_eq_Inr ret_def)
  have c3: "sx_session c3 = sx_session c2"
    using preservesD[OF preserves_page_has_more[where P = "\<lambda>s ds. s = sx_session c2"] refl has_more] .
  have c': "ss_nodes (sx_session c') = ss_nodes (sx_session c3)"
    using stored store_continuation_nodes by (auto simp: bindp_eq_Inr ret_def split: if_splits)
  from browse_da2_nodes_registers[OF nodes all_registered_Nil] all_registered_nodes[of "sx_session c'" "sx_session c2"]
  show ?thesis using pg c3 c' by (simp add: page_registered_def)
qed

lemma browse_da3_registers:
  assumes "browse_da3_page parent f m k c = Some (Inr pg, c')"
  shows "page_registered c' pg"
proof -
  from assms obtain c1 es c2 ns c3 k' raw more_elements where
    nodes: "for_each es map_da3_node c2 = Some (Inr ns, c3)"
    and stored: "store_da3_continuation parent f more_elements raw c3 = Some (Inr k', c')"
    and pg: "pg = \<lparr>pg_nodes = ns, pg_continuation = k'\<rparr>"
    by (auto simp: browse_da3_page_def bindp_eq_Inr ret_def)
  have c': "ss_nodes (sx_session c') = ss_nodes (sx_session c3)"
    using stored store_continuation_nodes
    by (auto simp: store_da3_continuation_def bindp_eq_Inr ret_def throw_def split: if_splits option.splits)
  from for_each_da3_registers[OF nodes all_registered_Nil] all_registered_nodes[OF c'] pg
  show ?thesis by (simp add: page_registered_def)
qed

lemma first_page_registers:
  assumes "first_page parent f m c = Some (Inr pg, c')"
  shows "page_registered c' pg"
proof (cases "ss_backend (sx_session c)")
  case (BackendDa2 p)
  with assms show ?thesis
    by (auto simp: first_page_def Let_def bindp_eq_Inr session_def gets_def dest: browse_da2_registers)
next
  case BackendDa3
  with assms obtain q c1 where da3: "browse_da3_page parent f m None c = Some (q, c1)"
    by (auto simp: first_page_def session_def bindp_def gets_def Let_def attempt_def split: option.splits)
  show ?thesis
  proof (cases q)
    case (Inr pg')
    with assms BackendDa3 da3 have "pg' = pg" "ss_nodes (sx_session c') = ss_nodes (sx_session c1)"
      by (auto simp: first_page_def session_def update_session_def prog_defs Let_def split: if_splits)
    with browse_da3_registers[of parent f m None c pg c1] da3 Inr show ?thesis
      by (auto simp: page_registered_def intro: all_registered_nodes[of "sx_session c'" "sx_session c1"])
  next
    case (Inl e)
    with assms BackendDa3 da3 obtain c2 st c3 where "browse_da2 parent f m st c3 = Some (Inr pg, c')"
      by (auto simp: first_page_def session_def update_session_def bindp_eq_Inr seqp_def gets_def attempt_def
          throw_def modifyp_def Let_def split: if_splits)
    then show ?thesis by (auto dest: browse_da2_registers)
  qed
qed

lemma continue_page_registers:
  "continue_page k m c = Some (Inr pg, c') \<Longrightarrow> page_registered c' pg"
  by (cases k) (auto simp: continue_page_def dest: browse_da3_registers browse_da2_registers)

section \<open>The believed cursor and the server's\<close>

definition cursors ::
  "('w \<Rightarrow> string list) \<Rightarrow> ('w, 'h) com_server \<Rightarrow> string list \<Rightarrow> string list \<Rightarrow> ('w, 'h) session_ctx \<Rightarrow> bool" where
  "cursors pos sv believed actual c \<longleftrightarrow>
     ss_server (sx_session c) = sv \<and> ss_backend (sx_session c) = BackendDa2 believed \<and> pos (sx_world c) = actual"

lemma hoare_on_server:
  "hoare (\<lambda>w. pos w = p) (m sv) (\<lambda>_ w. pos w = p') (\<lambda>_ w. pos w = p'') \<Longrightarrow>
   hoare (cursors pos sv b p) (on_server m) (\<lambda>_. cursors pos sv b p') (\<lambda>_. cursors pos sv b p'')"
  by (rule hoareI) (auto simp: on_server_def zoom_def cursors_def dest: hoareD_Inr hoareD_Inl split: option.splits)

lemma hoare_set_path: "hoare (cursors pos sv b p) (set_current_path q) (\<lambda>_. cursors pos sv q p) E"
  by (auto simp: hoare_def set_current_path_def update_session_def modifyp_def cursors_def)

lemma hoare_get_path: "hoare (cursors pos sv b p) get_current_path (\<lambda>q c. q = b \<and> cursors pos sv b p c) E"
  by (auto simp: hoare_def get_current_path_def session_def prog_defs cursors_def)

lemma up_loop:
  assumes "cursor_server sv pos home"
  shows "length ys = length xs \<Longrightarrow>
    hoare (cursors pos sv b (p @ ys)) (for_each xs (\<lambda>_. on_server (\<lambda>sv. change_browse_position sv OPC_BROWSE_UP [])))
      (\<lambda>_. cursors pos sv b p) (\<lambda>_ c. \<exists>k\<le>length ys. cursors pos sv b (p @ take k ys) c)"
proof (induction xs arbitrary: ys)
  case Nil
  then show ?case by (simp add: hoare_def ret_def)
next
  case (Cons x xs)
  then obtain zs z where ys: "ys = zs @ [z]" "length zs = length xs"
    by (metis length_Suc_conv_rev length_Cons)
  have up: "hoare (cursors pos sv b (p @ ys)) (on_server (\<lambda>sv. change_browse_position sv OPC_BROWSE_UP []))
      (\<lambda>_. cursors pos sv b (p @ zs)) (\<lambda>_. cursors pos sv b (p @ ys))"
    by (rule hoare_on_server, rule hoare_cons[OF cursor_up[OF assms]]) (simp_all add: ys butlast_append)
  have E1: "cursors pos sv b (p @ ys) c \<Longrightarrow> \<exists>k\<le>length ys. cursors pos sv b (p @ take k ys) c" for c
    by (rule exI[of _ "length ys"]) simp
  have E2: "\<exists>k\<le>length zs. cursors pos sv b (p @ take k zs) c \<Longrightarrow>
      \<exists>k\<le>length ys. cursors pos sv b (p @ take k ys) c" for c
  proof -
    assume "\<exists>k\<le>length zs. cursors pos sv b (p @ take k zs) c"
    then obtain k where "k \<le> length zs" "cursors pos sv b (p @ take k zs) c" by blast
    then show ?thesis by (intro exI[of _ k]) (simp add: ys(1))
  qed
  show ?case
    unfolding for_each.simps
    by (rule hoare_bindp[where R = "\<lambda>_. cursors pos sv b (p @ zs)"],
        rule hoare_bindp[where R = "\<lambda>_. cursors pos sv b p"], rule hoare_ret,
        rule hoare_cons[OF Cons.IH[OF ys(2)]], assumption, assumption, erule E2,
        rule hoare_cons[OF up], assumption, assumption, erule E1)
qed

definition down_step :: "string \<Rightarrow> (('w, 'h) session_ctx, opc_error, unit) prog" where
  "down_step branch = seqp (on_server (\<lambda>sv. change_browse_position sv OPC_BROWSE_DOWN branch))
     (bindp get_current_path (\<lambda>p. set_current_path (p @ [branch])))"

lemma down_step_hoare:
  assumes "cursor_server sv pos home"
  shows "hoare (cursors pos sv p p) (down_step n) (\<lambda>_. cursors pos sv (p @ [n]) (p @ [n])) (\<lambda>_. cursors pos sv p p)"
  unfolding down_step_def
proof (rule hoare_seqp)
  show "hoare (cursors pos sv p p) (on_server (\<lambda>sv. change_browse_position sv OPC_BROWSE_DOWN n))
      (\<lambda>_. cursors pos sv p (p @ [n])) (\<lambda>_. cursors pos sv p p)"
    by (rule hoare_on_server) (rule cursor_down[OF assms])
  show "hoare (cursors pos sv p (p @ [n])) (bindp get_current_path (\<lambda>p. set_current_path (p @ [n])))
      (\<lambda>_. cursors pos sv (p @ [n]) (p @ [n])) (\<lambda>_. cursors pos sv p p)"
    by (rule hoare_bindp[OF _ hoare_get_path])
      (auto simp: hoare_def set_current_path_def update_session_def modifyp_def cursors_def)
qed

lemma down_loop:
  assumes "cursor_server sv pos home"
  shows "hoare (cursors pos sv p p) (for_each xs down_step)
      (\<lambda>_. cursors pos sv (p @ xs) (p @ xs)) (\<lambda>_ c. \<exists>q. cursors pos sv q q c)"
proof (induction xs arbitrary: p)
  case Nil
  then show ?case by (simp add: hoare_def ret_def)
next
  case (Cons x xs)
  show ?case
    unfolding for_each.simps
    by (rule hoare_bindp[where R = "\<lambda>_. cursors pos sv (p @ [x]) (p @ [x])"],
        rule hoare_bindp[where R = "\<lambda>_. cursors pos sv (p @ x # xs) (p @ x # xs)"], rule hoare_ret,
        rule hoare_cons[OF Cons.IH], assumption, simp, assumption,
        rule hoare_cons[OF down_step_hoare[OF assms]], assumption, assumption, erule exI)
qed

lemma common_prefix_take:
  "take (common_prefix_length xs ys) xs = take (common_prefix_length xs ys) ys"
  by (induction xs ys rule: common_prefix_length.induct) auto

lemma common_prefix_le: "common_prefix_length xs ys \<le> length xs"
  by (induction xs ys rule: common_prefix_length.induct) auto

lemma move_hoare:
  assumes "cursor_server sv pos home"
  shows "hoare (cursors pos sv p p) (move_to_da2_path target)
      (\<lambda>_. cursors pos sv target target)
      (\<lambda>_ c. (\<exists>q. cursors pos sv q q c) \<or> (\<exists>k\<le>length p. cursors pos sv p (take k p) c))"
proof -
  let ?n = "common_prefix_length p target"
  let ?E = "\<lambda>_ c. (\<exists>q. cursors pos sv q q c) \<or> (\<exists>k\<le>length p. cursors pos sv p (take k p) c)"
  have up: "hoare (cursors pos sv p p)
      (for_each (drop ?n p) (\<lambda>_. on_server (\<lambda>sv. change_browse_position sv OPC_BROWSE_UP [])))
      (\<lambda>_. cursors pos sv p (take ?n p)) ?E"
  proof (rule hoare_cons[OF up_loop[OF assms, of "drop ?n p" _ p "take ?n p"]])
    fix e c
    assume "\<exists>k\<le>length (drop ?n p). cursors pos sv p (take ?n p @ take k (drop ?n p)) c"
    then obtain k where "k \<le> length (drop ?n p)" "cursors pos sv p (take (?n + k) p) c"
      by (auto simp: take_add)
    then show "?E e c" using common_prefix_le[of p target] by (auto intro!: exI[of _ "?n + k"])
  qed simp_all
  have set_path: "hoare (cursors pos sv p (take ?n p)) (set_current_path (take ?n p))
      (\<lambda>_. cursors pos sv (take ?n p) (take ?n p)) ?E" by (rule hoare_set_path)
  have target: "take ?n p @ drop ?n target = target" 
    by (simp only: common_prefix_take[of p target] append_take_drop_id)
  have down: "hoare (cursors pos sv (take ?n p) (take ?n p)) (for_each (drop ?n target) down_step)
      (\<lambda>_. cursors pos sv target target) ?E"
    using down_loop[OF assms, of "take ?n p" "drop ?n target"] by (rule hoare_cons) (auto simp: target)
  have body: "hoare (cursors pos sv p p)
      (seqp (for_each (drop ?n p) (\<lambda>_. on_server (\<lambda>sv. change_browse_position sv OPC_BROWSE_UP [])))
        (seqp (set_current_path (take ?n p)) (seqp (for_each (drop ?n target) down_step) (ret ()))))
      (\<lambda>_. cursors pos sv target target) ?E"
    by (rule hoare_seqp[OF _ up], rule hoare_seqp[OF _ set_path], rule hoare_seqp_ret, rule down)
  show ?thesis
    unfolding move_to_da2_path_def Let_def down_step_def[symmetric]
  proof (rule hoare_bindp[OF _ hoare_get_path])
    fix current
    show "hoare (\<lambda>c. current = p \<and> cursors pos sv p p c)
      (seqp (for_each (drop (common_prefix_length current target) current)
              (\<lambda>_. on_server (\<lambda>sv. change_browse_position sv OPC_BROWSE_UP [])))
        (seqp (set_current_path (take (common_prefix_length current target) current))
          (seqp (for_each (drop (common_prefix_length current target) target) down_step) (ret ()))))
      (\<lambda>_. cursors pos sv target target) ?E"
    proof (cases "current = p")
      case True
      with body show ?thesis by simp
    qed (simp add: hoare_def)
  qed
qed

section \<open>A flat server with a DA3 interface\<close>

text \<open>
  A second concrete server for witnesses: flat, with one item that DA3 lists, with or
  without a browse operation that works.
\<close>

definition pump :: native_browse_element where
  "pump = \<lparr>ne_name = ''Pump'', ne_item_id = Some ''Plant.Pump'', ne_has_children = False, ne_is_item = True\<rparr>"

definition flat_server :: "opc_error option \<Rightarrow> (unit, nat) com_server" where
  "flat_server broken =
     \<lparr>cs_da2 = True, cs_da3 = True,
      cs_query_organization = ret OPC_NS_FLAT,
      cs_change_position = (\<lambda>d n. throw (NotImplemented ''flat'')),
      cs_browse_item_ids = (\<lambda>ty f d a. ret 0),
      cs_get_item_id = (\<lambda>name. ret name),
      cs_browse = (\<lambda>i c m f. case broken of
         Some error \<Rightarrow> throw error
       | None \<Rightarrow> ret (False, None,
           [\<lparr>re_name = PText ''Pump'', re_item_id = PText ''Plant.Pump'', re_flags = OPC_BROWSE_ISITEM\<rparr>])),
      cs_enum_next = (\<lambda>h w. (empty_batch, w))\<rparr>"

definition flat_ctx :: "opc_error option \<Rightarrow> (token, node_state) hmap \<Rightarrow> (token, nat browse_continuation) hmap
    \<Rightarrow> (unit, nat) session_ctx" where
  "flat_ctx broken nodes continuations =
     \<lparr>sx_session = (new_session (flat_server broken) \<lparr>cap_namespace = NsFlat, cap_supports_da3 = True,
        cap_supports_da2 = True, cap_max_page_size = 1000\<rparr> 0)
          \<lparr>ss_nodes := nodes, ss_continuations := continuations\<rparr>,
      sx_world = (), sx_draws = [7]\<rparr>"

lemma flat_ctx_simps [simp]:
  "ss_nodes (sx_session (flat_ctx b n k)) = n" "ss_continuations (sx_session (flat_ctx b n k)) = k"
  "ss_backend (sx_session (flat_ctx b n k)) = BackendDa3" "ss_da3_root_succeeded (sx_session (flat_ctx b n k)) = False"
  "cap_namespace (ss_capabilities (sx_session (flat_ctx b n k))) = NsFlat"
  "cap_supports_da2 (ss_capabilities (sx_session (flat_ctx b n k)))" "sx_draws (flat_ctx b n k) = [7]"
  by (simp_all add: flat_ctx_def new_session_def)

lemma flat_browse:
  "on_server (\<lambda>sv. browse_da3 sv i k m f) (flat_ctx None nodes conts)
    = Some (Inr \<lparr>np_elements = [pump], np_more_elements = False, np_continuation = None\<rparr>, flat_ctx None nodes conts)"
  by (simp add: on_server_def zoom_def flat_ctx_def new_session_def browse_da3_def da3_interface_def
      flat_server_def bindp_def ret_def lift_result_def map_raw_element_def nonempty_def pump_def
      OPC_BROWSE_ISITEM_def OPC_BROWSE_HASCHILDREN_def)

lemma flat_page:
  "browse_da3_page None f m k (flat_ctx None [] conts)
    = Some (Inr \<lparr>pg_nodes = [\<lparr>bn_token = 7, bn_name = ''Pump'', bn_item_id = Some ''Plant.Pump'', bn_kind = KItem\<rparr>],
        pg_continuation = None\<rparr>,
      (flat_ctx None [(7, \<lparr>nd_kind = KItem, nd_location = LocItem\<rparr>)] conts)\<lparr>sx_draws := []\<rparr>)"
  by (simp add: browse_da3_page_def bindp_def[of "on_server _"] flat_browse bindp_ret)
    (simp add: bindp_def ret_def map_da3_node_def pump_def da3_kind_def insert_node_def session_def gets_def
      draw_token_def update_session_def modifyp_def seqp_def flat_ctx_def new_session_def store_da3_continuation_def
      hm_len_def hm_contains_def hm_insert_def hm_remove_def MAX_NODE_TOKENS_PER_SESSION_def)

definition root_request :: "token option \<Rightarrow> browse_page_request" where
  "root_request continuation =
     \<lparr>rq_parent = None, rq_filter = FBranches, rq_max_elements = 10, rq_continuation = continuation\<rparr>"

lemma flat_continuation:
  "session_page (root_request (Some 3)) (flat_ctx None [] [(3, ContDa3 None FBranches ''cp'')])
    = Some (Inr \<lparr>pg_nodes = [\<lparr>bn_token = 7, bn_name = ''Pump'', bn_item_id = Some ''Plant.Pump'', bn_kind = KItem\<rparr>],
        pg_continuation = None\<rparr>,
      (flat_ctx None [(7, \<lparr>nd_kind = KItem, nd_location = LocItem\<rparr>)] [])\<lparr>sx_draws := []\<rparr>)"
proof -
  have "sx_session_update (ss_continuations_update (hm_remove 3))
      (flat_ctx None [] [(3, ContDa3 None FBranches ''cp'')]) = flat_ctx None [] []"
    by (simp add: flat_ctx_def hm_remove_def)
  then show ?thesis
    by (simp add: session_page_def root_request_def session_def bindp_def gets_def seqp_def
        update_session_def modifyp_def continue_page_def flat_page hm_get_def)
qed


lemma flat_fallback:
  "\<exists>c'. session_page (root_request None) (flat_ctx (Some (Com E_NOTIMPL_HRESULT [])) [] [])
     = Some (Inr \<lparr>pg_nodes = [], pg_continuation = None\<rparr>, c') \<and> ss_backend (sx_session c') = BackendDa2 []"
proof -
  have da3: "browse_da3_page None f m None (flat_ctx (Some (Com E_NOTIMPL_HRESULT [])) [] [])
     = Some (Inl (Com E_NOTIMPL_HRESULT []), flat_ctx (Some (Com E_NOTIMPL_HRESULT [])) [] [])" for f m
    by (simp add: browse_da3_page_def bindp_def ret_def on_server_def zoom_def flat_ctx_def new_session_def
      browse_da3_def da3_interface_def flat_server_def throw_def)
  show ?thesis
    by (simp add: session_page_def root_request_def session_def bindp_def gets_def seqp_def
        update_session_def modifyp_def first_page_def attempt_def da3 Let_def is_da3_browse_compatibility_error_def
        is_com_hresult_def start_da2_page_def ret_def browse_da2_def
        browse_da2_nodes.simps browse_da2_turn_def page_next_def next_of_def page_has_more_def has_more_of_def)
qed

section \<open>Properties\<close>

text \<open>
  C8. In every state that the worker can reach from one without sessions, by any sequence of
  open, page and close requests on any servers, at most 64 sessions are open, every session
  holds at most 100000 node tokens and 256 page tokens, and it advertises DA3 exactly while
  it browses with DA3.
\<close>

theorem browse_sessions_bounded:
  assumes "browse_reachable \<lparr>br_sessions = [], br_world = w, br_draws = ds\<rparr> b"
  shows "hm_len (br_sessions b) \<le> MAX_BROWSE_SESSIONS \<and>
    (\<forall>t s. hm_get (br_sessions b) t = Some s \<longrightarrow>
       hm_len (ss_nodes s) \<le> MAX_NODE_TOKENS_PER_SESSION \<and>
       hm_len (ss_continuations s) \<le> MAX_PAGE_TOKENS_PER_SESSION \<and>
       (ss_backend s = BackendDa3 \<longleftrightarrow> cap_supports_da3 (ss_capabilities s)))"
proof -
  have "sessions_ok b"
    using assms
  proof (induction rule: browse_reachable.induct)
    case start
    show ?case by (simp add: sessions_ok_def hm_ok_def hm_len_def hm_get_def)
  next
    case (step b b')
    then show ?case by (blast intro: sessions_ok_step)
  qed
  then show ?thesis by (auto simp: sessions_ok_def session_bounded_def session_consistent_def)
qed

theorem browse_sessions_bounded_witness:
  "\<exists>b :: (tree_world, nat) browse_sessions.
    browse_reachable \<lparr>br_sessions = [], br_world = \<lparr>tw_pos = [], tw_batches = []\<rparr>, br_draws = [7]\<rparr> b
    \<and> hm_len (br_sessions b) = 1 \<and> hm_len (br_sessions b) \<le> MAX_BROWSE_SESSIONS"
proof -
  let ?init = "\<lparr>br_sessions = [], br_world = \<lparr>tw_pos = [], tw_batches = []\<rparr>, br_draws = [7]\<rparr>"
  let ?b = "\<lparr>br_sessions = [(7, new_session plant \<lparr>cap_namespace = NsHierarchical, cap_supports_da3 = False,
      cap_supports_da2 = True, cap_max_page_size = 1000\<rparr> 0)],
     br_world = \<lparr>tw_pos = [], tw_batches = []\<rparr>, br_draws = []\<rparr>"
  have "open_session 0 0 plant ?init = Some (Inr 7, ?b)"
    by (simp add: open_session_def cleanup_expired_def prog_defs capabilities_for_server_def
        query_organization_def da2_interface_def tree_server_def hm_retain_def hm_len_def hm_contains_def
        hm_insert_def hm_remove_def MAX_BROWSE_SESSIONS_def MAX_BROWSE_PAGE_SIZE_def
        OPC_NS_FLAT_def OPC_NS_HIERARCHIAL_def)
  then have reach: "browse_reachable ?init ?b"
    by (blast intro: browse_reachable.intros browse_step.opened)
  have "hm_len (br_sessions ?b) = 1" by (simp add: hm_len_def)
  then show ?thesis
    using reach conjunct1[OF browse_sessions_bounded[OF reach]] by (intro exI[of _ ?b] conjI)
qed

text \<open>
  C33. A session that browses with DA3 changes to DA2 only in a first page of the root, only
  while no root page has succeeded yet, only on a server that supports DA2, and only because
  the DA3 browse failed with one of the two compatibility errors.
\<close>

theorem da2_fallback_guarded:
  assumes "session_page request c = Some (r, c')" and "session_bounded (sx_session c)"
    and "ss_backend (sx_session c) = BackendDa3" and "ss_backend (sx_session c') \<noteq> BackendDa3"
  shows "rq_continuation request = None \<and> rq_parent request = None \<and>
    \<not> ss_da3_root_succeeded (sx_session c) \<and> cap_supports_da2 (ss_capabilities (sx_session c)) \<and>
    (\<exists>e c1. browse_da3_page None (rq_filter request) (rq_max_elements request) None c = Some (Inl e, c1)
       \<and> is_da3_browse_compatibility_error e)"
proof (cases "rq_continuation request")
  case None
  with assms have "first_page (rq_parent request) (rq_filter request) (rq_max_elements request) c = Some (r, c')"
    by (auto simp: session_page_def session_def bindp_def gets_def throw_def split: if_splits)
  from first_page_on_da3[OF this] assms None show ?thesis by (auto simp: bounded_da3_def)
next
  case (Some t)
  have cont: "preserves (continue_page k m) bounded_da3" for k m
    by (cases k) (simp_all add: continue_page_def preserves_bounded_da3 preserves_browse_da2_on_da3)
  have consume: "preserves (update_session (ss_continuations_update (hm_remove t))) bounded_da3"
    unfolding bounded_da3_def
    by (rule preserves_update_session[where P = "\<lambda>s ds. session_bounded s \<and> ss_backend s = BackendDa3"])
      (auto intro: bounded.consume_inv)
  have "preserves (session_page request) bounded_da3"
    unfolding session_page_def Some option.case
    by (intro preserves_rules preserves_bounded_da3 cont consume)
  with assms have "bounded_da3 c'" by (auto simp: bounded_da3_def dest: preservesD)
  with assms(4) show ?thesis by (simp add: bounded_da3_def)
qed

theorem da2_fallback_guarded_witness:
  "\<exists>e c1. browse_da3_page None FBranches 10 None (flat_ctx (Some (Com E_NOTIMPL_HRESULT [])) [] []) = Some (Inl e, c1)
     \<and> is_da3_browse_compatibility_error e"
proof -
  obtain r c' where run: "session_page (root_request None) (flat_ctx (Some (Com E_NOTIMPL_HRESULT [])) [] []) = Some (r, c')"
    "ss_backend (sx_session c') = BackendDa2 []"
    using flat_fallback by blast
  have "session_bounded (sx_session (flat_ctx (Some (Com E_NOTIMPL_HRESULT [])) [] []))"
    by (simp add: session_bounded_def hm_ok_def hm_len_def hm_get_def)
  from da2_fallback_guarded[OF run(1) this] run(2) show ?thesis by (simp add: root_request_def)
qed

text \<open>
  C3. A page token is used at most once: whatever a request with a continuation token that
  matches its parent and filter returns, the token is not stored afterwards; a request that
  does not match is refused and leaves the session as it was. (The UUIDs yet to be drawn
  must not repeat the token.)
\<close>

theorem continuation_used_once:
  assumes "session_page request c = Some (r, c')" and "rq_continuation request = Some t"
    and "t \<notin> set (sx_draws c)"
  shows "(hm_get (ss_continuations (sx_session c')) t = None) \<or>
    ((\<exists>m. r = Inl (InvalidState m)) \<and> c' = c)"
proof (cases "hm_get (ss_continuations (sx_session c)) t")
  case None
  with assms show ?thesis
    by (auto simp: session_page_def session_def bindp_def gets_def throw_def split: if_splits)
next
  case (Some k)
  show ?thesis
  proof (cases "(cap_namespace (ss_capabilities (sx_session c)) = NsFlat \<and> rq_parent request \<noteq> None)
      \<or> cont_parent k \<noteq> rq_parent request \<or> cont_filter k \<noteq> rq_filter request")
    case True
    with assms Some show ?thesis
      by (auto simp: session_page_def session_def bindp_def gets_def throw_def split: if_splits)
  next
    case False
    let ?c = "sx_session_update (ss_continuations_update (hm_remove t)) c"
    from assms Some False have run: "continue_page k (rq_max_elements request) ?c = Some (r, c')"
      by (auto simp: session_page_def session_def bindp_def gets_def throw_def seqp_def update_session_def
          modifyp_def split: if_splits)
    have "token_spent t (sx_session ?c) (sx_draws ?c)"
      using assms(3) by (simp add: token_spent_def hm.get_remove)
    from preservesD[OF spent.preserves_continue this run] show ?thesis by (simp add: token_spent_def)
  qed
qed

theorem continuation_used_once_witness:
  "\<exists>r c'. session_page (root_request (Some 3)) (flat_ctx None [] [(3, ContDa3 None FBranches ''cp'')]) = Some (Inr r, c')
     \<and> hm_get (ss_continuations (sx_session c')) 3 = None"
  using continuation_used_once[OF flat_continuation, of 3] flat_continuation by (simp add: root_request_def)

text \<open>
  C21. A node token that was given out keeps denoting the same node for the life of its
  session: no page request, successful or not, drops or rebinds it.
\<close>

theorem node_tokens_stable:
  assumes "session_page request c = Some (r, c')" and "hm_get (ss_nodes (sx_session c)) t = Some nd"
  shows "hm_get (ss_nodes (sx_session c')) t = Some nd"
proof -
  have "tokens_stable (ss_nodes (sx_session c)) (sx_session c)" by (simp add: tokens_stable_def)
  from preservesD[OF stable.preserves_session_page this assms(1)] assms(2)
  show ?thesis by (simp add: tokens_stable_def)
qed

theorem node_tokens_stable_witness:
  "\<exists>r c'. session_page (root_request (Some 3)) (flat_ctx None [(5, \<lparr>nd_kind = KItem, nd_location = LocItem\<rparr>)] []) = Some (r, c')
     \<and> hm_get (ss_nodes (sx_session c')) 5 = Some \<lparr>nd_kind = KItem, nd_location = LocItem\<rparr>"
proof -
  have "\<exists>p. session_page (root_request (Some 3)) (flat_ctx None [(5, \<lparr>nd_kind = KItem, nd_location = LocItem\<rparr>)] []) = Some p"
    by (simp add: session_page_def root_request_def session_def bindp_def gets_def hm_get_def throw_def)
  then obtain r c' where run: "session_page (root_request (Some 3))
      (flat_ctx None [(5, \<lparr>nd_kind = KItem, nd_location = LocItem\<rparr>)] []) = Some (r, c')" by auto
  from node_tokens_stable[OF run, of 5] run show ?thesis by (simp add: hm_get_def)
qed

text \<open>
  C34. On every page that a request returns, each node's token is known to the session under
  the node's kind, no two nodes share a token, and a node carries an item ID exactly when
  its kind is an item.
\<close>

theorem page_nodes_registered:
  assumes "session_page request c = Some (Inr pg, c')"
  shows "(\<forall>n \<in> set (pg_nodes pg).
      (\<exists>nd. hm_get (ss_nodes (sx_session c')) (bn_token n) = Some nd \<and> nd_kind nd = bn_kind n) \<and>
      (is_item (bn_kind n) \<longleftrightarrow> bn_item_id n \<noteq> None)) \<and>
    distinct (map bn_token (pg_nodes pg))"
proof -
  have "page_registered c' pg"
    using assms
    by (auto simp: session_page_def bindp_eq_Inr seqp_def session_def update_session_def gets_def modifyp_def
        throw_def dest: first_page_registers continue_page_registers split: option.splits if_splits)
  then show ?thesis by (simp add: page_registered_def all_registered_def registered_def)
qed

theorem page_nodes_registered_witness:
  "\<exists>pg c'. session_page (root_request (Some 3)) (flat_ctx None [] [(3, ContDa3 None FBranches ''cp'')]) = Some (Inr pg, c')
     \<and> length (pg_nodes pg) = 1 \<and> (\<exists>nd. hm_get (ss_nodes (sx_session c')) (bn_token (hd (pg_nodes pg))) = Some nd)"
  using page_nodes_registered[OF flat_continuation] flat_continuation by auto

text \<open>
  C22. Moving the DA2 cursor: when the session's path is where the server's cursor is, a
  move that succeeds leaves both at the target. A move that fails leaves them together at
  some position, except when the server refused to go up: then the session still believes
  its old path while the server has already left some levels of it.
\<close>

theorem move_to_da2_path_tracks:
  assumes "cursor_server (ss_server (sx_session c)) pos home" and "ss_backend (sx_session c) = BackendDa2 p"
    and "pos (sx_world c) = p" and "move_to_da2_path target c = Some (r, c')"
  shows "case r of
      Inr _ \<Rightarrow> ss_backend (sx_session c') = BackendDa2 target \<and> pos (sx_world c') = target
    | Inl _ \<Rightarrow> (\<exists>q. ss_backend (sx_session c') = BackendDa2 q \<and> pos (sx_world c') = q)
        \<or> (\<exists>k\<le>length p. ss_backend (sx_session c') = BackendDa2 p \<and> pos (sx_world c') = take k p)"
proof -
  have "cursors pos (ss_server (sx_session c)) p p c" using assms(2,3) by (simp add: cursors_def)
  note outcome = hoareD_Inr[OF move_hoare[OF assms(1)] this] hoareD_Inl[OF move_hoare[OF assms(1)] this]
  show ?thesis
  proof (cases r)
    case (Inl e)
    from outcome(2)[OF assms(4)[unfolded Inl]] show ?thesis unfolding Inl by (auto simp: cursors_def)
  next
    case (Inr u)
    from outcome(1)[OF assms(4)[unfolded Inr]] show ?thesis unfolding Inr by (simp add: cursors_def)
  qed
qed

theorem move_to_da2_path_tracks_witness:
  "\<exists>c'. move_to_da2_path [''Area''] \<lparr>sx_session = (new_session plant \<lparr>cap_namespace = NsHierarchical,
        cap_supports_da3 = False, cap_supports_da2 = True, cap_max_page_size = 1000\<rparr> 0)
          \<lparr>ss_backend := BackendDa2 [''Area'', ''Tank'']\<rparr>,
        sx_world = \<lparr>tw_pos = [''Area'', ''Tank''], tw_batches = []\<rparr>, sx_draws = []\<rparr> = Some (Inr (), c')
    \<and> tw_pos (sx_world c') = [''Area'']"
proof -
  let ?c = "\<lparr>sx_session = (new_session plant \<lparr>cap_namespace = NsHierarchical,
        cap_supports_da3 = False, cap_supports_da2 = True, cap_max_page_size = 1000\<rparr> 0)
          \<lparr>ss_backend := BackendDa2 [''Area'', ''Tank'']\<rparr>,
        sx_world = \<lparr>tw_pos = [''Area'', ''Tank''], tw_batches = []\<rparr>, sx_draws = []\<rparr>"
  have run: "\<exists>c'. move_to_da2_path [''Area''] ?c = Some (Inr (), c')"
    by (simp add: move_to_da2_path_def get_current_path_def set_current_path_def session_def update_session_def
        on_server_def prog_defs new_session_def change_browse_position_def da2_interface_def tree_server_def
        tree_change_position_def OPC_BROWSE_UP_def OPC_BROWSE_DOWN_def)
  then obtain c' where c': "move_to_da2_path [''Area''] ?c = Some (Inr (), c')" by blast
  have "cursor_server (ss_server (sx_session ?c)) tw_pos (\<lambda>_. [])"
    by (simp add: new_session_def tree_server_cursor)
  from move_to_da2_path_tracks[OF this _ _ c'] c' show ?thesis by (simp add: new_session_def)
qed

text \<open>
  A session that has been idle for 300 seconds or more cannot be used: a page request on
  it fails and removes it, without a call to its server.
\<close>

theorem idle_session_expires:
  assumes "hm_get (br_sessions b) t = Some s" and "hm_ok (br_sessions b)"
    and "ss_last_used s + BROWSE_SESSION_IDLE_TIMEOUT \<le> now"
  shows "\<exists>m. page now later_now t request b
    = Some (Inl (InvalidState m), br_sessions_update (hm_retain (session_live now)) b)
    \<and> hm_get (hm_retain (session_live now) (br_sessions b)) t = None"
proof -
  have "\<not> session_live now s" using assms(3) by (simp add: session_live_def)
  then have "hm_get (hm_retain (session_live now) (br_sessions b)) t = None"
    using assms(1,2) by (simp add: hm_get_retain)
  then show ?thesis
    by (simp add: page_def cleanup_expired_def seqp_def bindp_def modifyp_def gets_def throw_def)
qed

theorem idle_session_expires_witness:
  "\<exists>m. page 300000000000 300000000001 3 (root_request None)
      \<lparr>br_sessions = [(3, sx_session (flat_ctx None [] []))], br_world = (), br_draws = []\<rparr>
    = Some (Inl (InvalidState m), br_sessions_update (hm_retain (session_live 300000000000))
      \<lparr>br_sessions = [(3, sx_session (flat_ctx None [] []))], br_world = (), br_draws = []\<rparr>)"
proof -
  let ?b = "\<lparr>br_sessions = [(3, sx_session (flat_ctx None [] []))], br_world = (), br_draws = []\<rparr>"
  have "hm_get (br_sessions ?b) 3 = Some (sx_session (flat_ctx None [] []))" "hm_ok (br_sessions ?b)"
    by (simp_all add: hm_get_def hm_ok_def)
  moreover have "ss_last_used (sx_session (flat_ctx None [] [])) + BROWSE_SESSION_IDLE_TIMEOUT \<le> 300000000000"
    by (simp add: flat_ctx_def new_session_def BROWSE_SESSION_IDLE_TIMEOUT_def)
  ultimately show ?thesis using idle_session_expires by blast
qed


end
