(* ===== verification/InventoryPages.thy ===== *)
theory InventoryPages
  imports NativeBrowse
begin

text \<open>
  One page of an inventory: \<open>inventory/capabilities.rs\<close>, \<open>inventory/state.rs\<close>,
  \<open>inventory/navigation.rs\<close>, \<open>inventory/da2.rs\<close>, \<open>inventory/da3.rs\<close> and the warnings of
  \<open>inventory/progress.rs\<close>. Every native call goes through \<open>paced_call\<close> or a gated refill.

  \<open>page_ctx\<close> extends the gated state by what \<open>InventoryPageContext\<close> borrows mutably: the path
  at which the code believes the DA2 cursor to be, and the counters of skipped branches. A
  cancellation inside \<open>BufferedBrowseIterator::next\<close> ends the run; the iterator that it leaves is
  not used again and is not kept here.
\<close>

section \<open>Capabilities\<close>

definition capabilities_for_inventory ::
  "('w, 'h) com_server \<Rightarrow> (('w, 'z) gated_scheme, inventory_error, browse_capabilities) prog" where
  "capabilities_for_inventory sv =
     (let supports_da3 = cs_da3 sv; supports_da2 = cs_da2 sv
      in if \<not> supports_da3 \<and> \<not> supports_da2 then
           throw (Failed (NotImplemented ''Server exposes neither OPC DA 3.0 nor OPC DA 2.x browsing''))
         else
           bindp (if supports_da2 then
                    bindp (paced_call NamespaceOrganizationQuery 1 (query_organization sv)) (\<lambda>organization.
                      if organization = OPC_NS_FLAT then ret NsFlat
                      else if organization = OPC_NS_HIERARCHIAL then ret NsHierarchical
                      else throw (Failed (Server ''Server returned an unknown namespace organization'' organization)))
                  else ret NsUnknown) (\<lambda>namespace.
           ret \<lparr>cap_namespace = namespace, cap_supports_da3 = supports_da3,
                cap_supports_da2 = supports_da2, cap_max_page_size = MAX_BROWSE_PAGE_SIZE\<rparr>))"

section \<open>Traversal work\<close>

record da2_path =
  dp_components :: "string list"
  dp_item_id :: "string option"

datatype branch_location = AtDa3 "string option" | AtDa2 da2_path

record inventory_node =
  in_display_name :: string
  in_item_id :: "string option"
  in_kind :: browse_node_kind
  in_child :: "branch_location option"

record 'h inventory_da2_state =
  id_parent_path :: "string list"
  id_parent_item_id :: "string option"
  id_branches :: "'h buffered option"
  id_items :: "'h buffered option"
  id_flat :: bool
  id_merged_items :: "string set"

datatype 'h inventory_continuation = MoreDa3 string | MoreDa2 "'h inventory_da2_state"

record 'h inventory_page =
  ig_nodes :: "inventory_node list"
  ig_continuation :: "'h inventory_continuation option"

record 'h branch_work =
  bw_location :: branch_location
  bw_breadcrumbs :: "string list"
  bw_da3_continuation :: "string option"
  bw_da3_seen_continuations :: "string set"
  bw_da3_consecutive_empty_pages :: nat
  bw_da2_state :: "'h inventory_da2_state option"

text \<open>\<open>root_item_id.map(|id| vec![id]).unwrap_or_default()\<close>\<close>

definition root_path :: "string option \<Rightarrow> string list" where
  "root_path root_item_id = (case root_item_id of Some item_id \<Rightarrow> [item_id] | None \<Rightarrow> [])"

definition new_work :: "branch_location \<Rightarrow> string list \<Rightarrow> 'h branch_work" where
  "new_work location breadcrumbs =
     \<lparr>bw_location = location, bw_breadcrumbs = breadcrumbs, bw_da3_continuation = None,
      bw_da3_seen_continuations = {}, bw_da3_consecutive_empty_pages = 0, bw_da2_state = None\<rparr>"

definition initial_work :: "browse_capabilities \<Rightarrow> string option \<Rightarrow> 'h branch_work" where
  "initial_work capabilities root_item_id =
     new_work (if cap_supports_da3 capabilities then AtDa3 root_item_id
               else AtDa2 \<lparr>dp_components = root_path root_item_id, dp_item_id = root_item_id\<rparr>)
       (root_path root_item_id)"

definition is_initial_da3_root :: "'h branch_work \<Rightarrow> bool" where
  "is_initial_da3_root work =
     (bw_location work = AtDa3 None \<and> bw_da3_continuation work = None \<and> bw_breadcrumbs work = [])"

section \<open>The page context\<close>

record 'w page_ctx = "'w gated" +
  ic_current_path :: "string list"
  ic_skipped_invalid :: u64
  ic_first_invalid :: "string option"
  ic_skipped_non_progressing :: u64
  ic_first_non_progressing :: "string option"

text \<open>\<open>describe_browse_path\<close> builds the same text as \<open>format_browse_path\<close>.\<close>

definition describe_browse_path :: "string list \<Rightarrow> string" where
  "describe_browse_path path = (if path = [] then ''<root>'' else join '' > '' (map dbg_str path))"

definition record_skipped_invalid_branch ::
  "string list \<Rightarrow> string \<Rightarrow> (('w, 'z) page_ctx_scheme, 'e, unit) prog" where
  "record_skipped_invalid_branch parent_path branch = modifyp (\<lambda>c.
     c\<lparr>ic_skipped_invalid := sat_add (ic_skipped_invalid c) 1,
       ic_first_invalid := (case ic_first_invalid c of
          None \<Rightarrow> Some (''name '' @ dbg_str branch @ '' at '' @ describe_browse_path parent_path)
        | Some first \<Rightarrow> Some first)\<rparr>)"

definition set_path :: "string list \<Rightarrow> (('w, 'z) page_ctx_scheme, 'e, unit) prog" where
  "set_path path = modifyp (\<lambda>c. c\<lparr>ic_current_path := path\<rparr>)"

section \<open>Navigation\<close>

text \<open>The direct move to a canonical item ID; \<open>True\<close> when it placed the cursor.\<close>

definition browse_path_to ::
  "('w, 'h) com_server \<Rightarrow> da2_path \<Rightarrow> (('w, 'z) page_ctx_scheme, inventory_error, bool) prog" where
  "browse_path_to sv target =
     bindp (gets ic_current_path) (\<lambda>current_path.
     case dp_item_id target of
       None \<Rightarrow> ret False
     | Some item_id \<Rightarrow>
         if current_path \<noteq> dp_components target then
           bindp (attempt (paced_call Da2PathTo 1 (change_browse_position_to sv item_id))) (\<lambda>r.
           case r of
             Inr _ \<Rightarrow> seqp (set_path (dp_components target)) (ret True)
           | Inl error \<Rightarrow>
               (case error of
                  Failed error \<Rightarrow>
                    if is_da2_browse_to_fallback_error error then ret False
                    else throw (Failed (contextual_browse_error error ''change_browse_position_to''
                           (dp_components target) (Some item_id)))
                | _ \<Rightarrow> throw error))
         else ret False)"

definition up_call :: "('w, 'h) com_server \<Rightarrow> (('w, 'z) page_ctx_scheme, inventory_error, unit) prog" where
  "up_call sv =
     bindp (gets ic_current_path) (\<lambda>current_path.
     map_errp (\<lambda>error. contextual_inventory_error error ''change_browse_position(up)'' current_path
          (if current_path = [] then None else Some (last current_path)))
       (paced_call Da2PathUp 1 (change_browse_position sv OPC_BROWSE_UP [])))"

definition down_call ::
  "('w, 'h) com_server \<Rightarrow> string \<Rightarrow> (('w, 'z) page_ctx_scheme, inventory_error, unit) prog" where
  "down_call sv branch =
     bindp (gets ic_current_path) (\<lambda>current_path.
     bindp (attempt (paced_call Da2PathDown 1 (change_browse_position sv OPC_BROWSE_DOWN branch))) (\<lambda>r.
     case r of
       Inr _ \<Rightarrow> set_path (current_path @ [branch])
     | Inl error \<Rightarrow>
         (case error of
            Failed e \<Rightarrow>
              if is_com_hresult e E_INVALIDARG_HRESULT then throw (InvalidDa2Branch current_path branch)
              else throw (contextual_inventory_error error ''change_browse_position(down)'' current_path (Some branch))
          | _ \<Rightarrow> throw (contextual_inventory_error error ''change_browse_position(down)'' current_path (Some branch)))))"

definition walk_da2_path ::
  "('w, 'h) com_server \<Rightarrow> string list \<Rightarrow> (('w, 'z) page_ctx_scheme, inventory_error, unit) prog" where
  "walk_da2_path sv target =
     bindp (gets ic_current_path) (\<lambda>current_path.
     let shared = common_prefix_length current_path target
     in seqp (for_each (drop shared current_path) (\<lambda>_. up_call sv))
       (seqp (set_path (take shared current_path))
       (seqp (for_each (drop shared target) (down_call sv)) (ret ()))))"

definition inventory_move_to ::
  "('w, 'h) com_server \<Rightarrow> da2_path \<Rightarrow> (('w, 'z) page_ctx_scheme, inventory_error, unit) prog" where
  "inventory_move_to sv target =
     bindp (browse_path_to sv target) (\<lambda>placed.
       if placed then ret () else walk_da2_path sv (dp_components target))"

section \<open>DA2 pages\<close>

definition start_enumerator ::
  "('w, 'h) com_server \<Rightarrow> op_kind \<Rightarrow> u32 \<Rightarrow> string \<Rightarrow> string \<Rightarrow> string list
     \<Rightarrow> (('w, 'z) page_ctx_scheme, inventory_error, 'h buffered) prog" where
  "start_enumerator sv kind browse_type operation iterator_type path =
     bindp (map_errp (\<lambda>error. contextual_inventory_error error operation path None)
              (paced_call kind 1 (begin_da2_browse sv browse_type (Some []) 0 0)))
       (\<lambda>h. ret (buffered_new h iterator_type path))"

definition start_inventory_da2_page ::
  "('w, 'h) com_server \<Rightarrow> da2_path \<Rightarrow> browse_namespace
     \<Rightarrow> (('w, 'z) page_ctx_scheme, inventory_error, 'h inventory_da2_state) prog" where
  "start_inventory_da2_page sv parent_path namespace =
     seqp (inventory_move_to sv parent_path)
       (let components = dp_components parent_path; flat = (namespace = NsFlat)
        in bindp (if flat then ret None
                  else bindp (start_enumerator sv Da2BranchEnumeratorCreation OPC_BRANCH
                         ''begin_da2_browse(branches)'' ''inventory DA2 branch iterator'' components)
                       (\<lambda>b. ret (Some b))) (\<lambda>branches.
           bindp (if flat then start_enumerator sv Da2FlatEnumeratorCreation OPC_FLAT
                         ''begin_da2_browse(flat)'' ''inventory DA2 flat iterator'' components
                  else start_enumerator sv Da2LeafEnumeratorCreation OPC_LEAF
                         ''begin_da2_browse(items)'' ''inventory DA2 item iterator'' components) (\<lambda>items.
           ret \<lparr>id_parent_path = components, id_parent_item_id = dp_item_id parent_path,
                id_branches = branches, id_items = Some items, id_flat = flat, id_merged_items = {}\<rparr>)))"

definition skip_non_progressing_branch ::
  "'h inventory_da2_state \<Rightarrow> (('w, 'z) page_ctx_scheme, 'e, 'h inventory_da2_state) prog" where
  "skip_non_progressing_branch st =
     seqp (modifyp (\<lambda>c.
         c\<lparr>ic_skipped_non_progressing := sat_add (ic_skipped_non_progressing c) 1,
           ic_first_non_progressing := (case ic_first_non_progressing c of
              None \<Rightarrow> Some (''DA2 branch iterator at '' @ describe_browse_path (id_parent_path st))
            | Some first \<Rightarrow> Some first)\<rparr>))
       (ret (st\<lparr>id_branches := None\<rparr>))"

definition inventory_next_of ::
  "('w, 'h) com_server \<Rightarrow> 'h buffered option
     \<Rightarrow> (('w, 'z) gated_scheme, 'e, (inventory_error + string) option option \<times> 'h buffered option) prog" where
  "inventory_next_of sv names =
     (case names of
        None \<Rightarrow> ret (None, None)
      | Some b \<Rightarrow> bindp (inventory_next (cs_enum_next sv) b) (\<lambda>(r, b). ret (Some r, Some b)))"

text \<open>\<open>Da2PageState::next\<close>\<close>

definition next_leaf ::
  "('w, 'h) com_server \<Rightarrow> 'h inventory_da2_state
     \<Rightarrow> (('w, 'z) page_ctx_scheme, inventory_error, (browse_node_kind \<times> string) option \<times> 'h inventory_da2_state) prog" where
  "next_leaf sv st =
     bindp (inventory_next_of sv (id_items st)) (\<lambda>(item_result, items).
     let st = st\<lparr>id_items := items\<rparr>
     in case item_result of
          Some (Some (Inr name)) \<Rightarrow> ret (Some (KItem, name), st)
        | Some (Some (Inl error)) \<Rightarrow> throw error
        | Some None \<Rightarrow> ret (None, st\<lparr>id_items := None\<rparr>)
        | None \<Rightarrow> ret (None, st))"

definition next_name ::
  "('w, 'h) com_server \<Rightarrow> 'h inventory_da2_state
     \<Rightarrow> (('w, 'z) page_ctx_scheme, inventory_error, (browse_node_kind \<times> string) option \<times> 'h inventory_da2_state) prog" where
  "next_name sv st =
     bindp (inventory_next_of sv (id_branches st)) (\<lambda>(branch_result, branches).
     let st = st\<lparr>id_branches := branches\<rparr>
     in case branch_result of
          Some (Some (Inr name)) \<Rightarrow> ret (Some (KBranch, name), st)
        | Some (Some (Inl error)) \<Rightarrow>
            (case error of
               Failed e \<Rightarrow>
                 if is_non_progress_browse_error e then bindp (skip_non_progressing_branch st) (next_leaf sv)
                 else throw error
             | _ \<Rightarrow> throw error)
        | Some None \<Rightarrow> next_leaf sv (st\<lparr>id_branches := None\<rparr>)
        | None \<Rightarrow> next_leaf sv st)"

text \<open>\<open>Da2PageState::has_more\<close>\<close>

definition inventory_has_more_of ::
  "('w, 'h) com_server \<Rightarrow> 'h buffered option
     \<Rightarrow> (('w, 'z) gated_scheme, inventory_error, bool \<times> 'h buffered option) prog" where
  "inventory_has_more_of sv names =
     (case names of
        None \<Rightarrow> ret (False, None)
      | Some b \<Rightarrow> bindp (inventory_has_more (cs_enum_next sv) b) (\<lambda>(has, b). ret (has, Some b)))"

definition leaf_has_more ::
  "('w, 'h) com_server \<Rightarrow> 'h inventory_da2_state
     \<Rightarrow> (('w, 'z) page_ctx_scheme, inventory_error, bool \<times> 'h inventory_da2_state) prog" where
  "leaf_has_more sv st =
     bindp (inventory_has_more_of sv (id_items st)) (\<lambda>(has, items). ret (has, st\<lparr>id_items := items\<rparr>))"

definition names_have_more ::
  "('w, 'h) com_server \<Rightarrow> 'h inventory_da2_state
     \<Rightarrow> (('w, 'z) page_ctx_scheme, inventory_error, bool \<times> 'h inventory_da2_state) prog" where
  "names_have_more sv st =
     bindp (inventory_has_more_of sv (id_branches st)) (\<lambda>(branch_has_more, branches).
     let st = st\<lparr>id_branches := branches\<rparr>
     in if branch_has_more then
          (case branches of
             None \<Rightarrow> ret (True, st)
           | Some b \<Rightarrow>
               (case take_non_progress b of
                  (Some error, b) \<Rightarrow> bindp (skip_non_progressing_branch st) (leaf_has_more sv)
                | (None, b) \<Rightarrow> ret (True, st\<lparr>id_branches := Some b\<rparr>)))
        else leaf_has_more sv st)"

text \<open>\<open>map_inventory_da2_branch\<close>; the \<open>Option\<close> around its result is always \<open>Some\<close> in the code.\<close>

definition map_inventory_da2_branch ::
  "('w, 'h) com_server \<Rightarrow> 'h inventory_da2_state \<Rightarrow> string
     \<Rightarrow> (('w, 'z) page_ctx_scheme, inventory_error,
         (browse_node_kind \<times> string option \<times> branch_location option) option \<times> 'h inventory_da2_state) prog" where
  "map_inventory_da2_branch sv st name =
     (let child_path = id_parent_path st @ [name]
      in bindp (attempt (paced_call GetItemId 1 (resolve_da2_item_id sv name))) (\<lambda>r.
         bindp (case r of
                  Inr item_id \<Rightarrow> ret item_id
                | Inl error \<Rightarrow>
                    (case error of
                       Failed e \<Rightarrow>
                         if is_com_hresult e E_INVALIDARG_HRESULT then ret None
                         else throw (Failed (contextual_browse_error e ''resolve_da2_item_id(get_item_id)''
                                (id_parent_path st) (Some name)))
                     | _ \<Rightarrow> throw error)) (\<lambda>item_id.
         let child = Some (AtDa2 \<lparr>dp_components = child_path, dp_item_id = item_id\<rparr>)
         in if item_id \<noteq> None then
              ret (Some (KBranchAndItem, item_id, child),
                   st\<lparr>id_merged_items := insert name (id_merged_items st)\<rparr>)
            else ret (Some (KBranch, item_id, child), st))))"

definition map_inventory_da2_item ::
  "('w, 'h) com_server \<Rightarrow> 'h inventory_da2_state \<Rightarrow> string \<Rightarrow> (('w, 'z) page_ctx_scheme, inventory_error, string) prog" where
  "map_inventory_da2_item sv st name =
     (if id_flat st then ret name
      else bindp (attempt (paced_call GetItemId 1 (get_item_id sv name))) (\<lambda>r.
        case r of
          Inr item_id \<Rightarrow> ret item_id
        | Inl error \<Rightarrow>
            (case error of
               Failed e \<Rightarrow> throw (Failed (contextual_browse_error e ''get_item_id'' (id_parent_path st) (Some name)))
             | _ \<Rightarrow> throw error)))"

text \<open>One turn of the loop of \<open>browse_da2_page\<close>, and the loop.\<close>

datatype inventory_turn = NamesFinished | NameSkipped | NameListed inventory_node

definition browse_inventory_turn ::
  "('w, 'h) com_server \<Rightarrow> 'h inventory_da2_state
     \<Rightarrow> (('w, 'z) page_ctx_scheme, inventory_error, inventory_turn \<times> 'h inventory_da2_state) prog" where
  "browse_inventory_turn sv st =
     bindp (map_errp (\<lambda>error. contextual_inventory_error error ''enumerate_da2_names'' (id_parent_path st) None)
              (next_name sv st)) (\<lambda>(name_of, st).
     case name_of of
       None \<Rightarrow> ret (NamesFinished, st)
     | Some (kind, name) \<Rightarrow>
         if kind = KItem \<and> name \<in> id_merged_items st then ret (NameSkipped, st)
         else
           bindp (case kind of
                    KBranch \<Rightarrow> map_inventory_da2_branch sv st name
                  | KItem \<Rightarrow> bindp (map_inventory_da2_item sv st name) (\<lambda>item_id. ret (Some (KItem, Some item_id, None), st))
                  | KBranchAndItem \<Rightarrow>
                      throw (Failed (Internal ''DA2 browse returned an impossible combined node kind'')))
             (\<lambda>(mapped, st).
           case mapped of
             None \<Rightarrow> ret (NameSkipped, st)
           | Some (kind, item_id, child) \<Rightarrow>
               ret (NameListed \<lparr>in_display_name = name, in_item_id = item_id, in_kind = kind, in_child = child\<rparr>, st)))"

partial_function (option) browse_inventory_nodes ::
  "('w, 'h) com_server \<Rightarrow> nat \<Rightarrow> inventory_node list \<Rightarrow> 'h inventory_da2_state \<Rightarrow> ('w, 'z) page_ctx_scheme
     \<Rightarrow> ((inventory_error + inventory_node list \<times> 'h inventory_da2_state) \<times> ('w, 'z) page_ctx_scheme) option" where
  "browse_inventory_nodes sv batch_size nodes st c =
     (if length nodes < batch_size then
        bindp (browse_inventory_turn sv st) (\<lambda>(turn, st) c.
          case turn of
            NamesFinished \<Rightarrow> Some (Inr (nodes, st), c)
          | NameSkipped \<Rightarrow> browse_inventory_nodes sv batch_size nodes st c
          | NameListed node \<Rightarrow> browse_inventory_nodes sv batch_size (nodes @ [node]) st c) c
      else Some (Inr (nodes, st), c))"

declare browse_inventory_nodes.simps [code]

definition browse_inventory_da2_page ::
  "('w, 'h) com_server \<Rightarrow> 'h inventory_da2_state \<Rightarrow> u32
     \<Rightarrow> (('w, 'z) page_ctx_scheme, inventory_error, inventory_node list \<times> 'h inventory_da2_state option) prog" where
  "browse_inventory_da2_page sv st batch_size =
     seqp (inventory_move_to sv \<lparr>dp_components = id_parent_path st, dp_item_id = id_parent_item_id st\<rparr>)
       (bindp (browse_inventory_nodes sv (unat batch_size) [] st) (\<lambda>(nodes, st).
        bindp (names_have_more sv st) (\<lambda>(has_more, st).
        ret (nodes, if has_more then Some st else None))))"

section \<open>DA3 pages\<close>

definition map_inventory_da3_node :: "native_browse_element \<Rightarrow> opc_error + inventory_node" where
  "map_inventory_da3_node e =
     (case da3_kind e of
        None \<Rightarrow> Inl (Internal (''DA3 browse element '' @ [CHR 39] @ ne_name e @ [CHR 39]
                  @ '' is neither a branch nor an item''))
      | Some kind \<Rightarrow>
          if is_item kind \<and> ne_item_id e = None then
            Inl (Internal (''DA3 item '' @ [CHR 39] @ ne_name e @ [CHR 39] @ '' did not include an item ID''))
          else if has_children kind \<and> ne_item_id e = None then
            Inl (Internal (''DA3 branch '' @ [CHR 39] @ ne_name e @ [CHR 39] @ '' did not include an item ID''))
          else Inr \<lparr>in_display_name = ne_name e, in_item_id = ne_item_id e, in_kind = kind,
                    in_child = (if has_children kind then Some (AtDa3 (ne_item_id e)) else None)\<rparr>)"

definition da3_continuation_error :: "'h branch_work \<Rightarrow> string \<Rightarrow> inventory_error" where
  "da3_continuation_error work detail =
     Failed (browse_continuation_non_progress_error (bw_breadcrumbs work) detail)"

text \<open>The checks on a continuation point; they update the work's record of the points seen.\<close>

definition accept_continuation ::
  "native_browse_page \<Rightarrow> 'h branch_work \<Rightarrow> inventory_error + string option \<times> 'h branch_work" where
  "accept_continuation pg work =
     (if np_more_elements pg then
        (case np_continuation pg of
           None \<Rightarrow> Inl (da3_continuation_error work
                    ''server reported more elements without a continuation point'')
         | Some point \<Rightarrow>
             if point = [] then
               Inl (da3_continuation_error work ''server returned an empty continuation token'')
             else if point \<in> bw_da3_seen_continuations work then
               Inl (da3_continuation_error work (''server repeated continuation token '' @ dbg_str point))
             else
               let work = work\<lparr>bw_da3_seen_continuations := insert point (bw_da3_seen_continuations work)\<rparr>
               in if np_elements pg = [] then
                    let empty_pages = bw_da3_consecutive_empty_pages work + 1;
                        work = work\<lparr>bw_da3_consecutive_empty_pages := empty_pages\<rparr>
                    in if MAX_CONSECUTIVE_EMPTY_DA3_PAGES \<le> empty_pages then
                         Inl (da3_continuation_error work
                           (''server returned '' @ show_nat empty_pages @ '' consecutive empty pages''))
                       else Inr (Some point, work)
                  else Inr (Some point, work\<lparr>bw_da3_consecutive_empty_pages := 0\<rparr>))
      else Inr (None, work\<lparr>bw_da3_consecutive_empty_pages := 0\<rparr>))"

definition next_da3_page ::
  "('w, 'h) com_server \<Rightarrow> string option \<Rightarrow> 'h branch_work \<Rightarrow> u32
     \<Rightarrow> (('w, 'z) page_ctx_scheme, inventory_error, 'h inventory_page \<times> 'h branch_work) prog" where
  "next_da3_page sv item_id work batch_size =
     (let is_root = (item_id = None \<and> bw_breadcrumbs work = [])
      in bindp (map_errp (\<lambda>error. case error of
              Failed e \<Rightarrow>
                if is_root \<and> is_da3_browse_compatibility_error e then Failed e
                else Failed (contextual_browse_error e ''browse_da3'' (bw_breadcrumbs work) item_id)
            | _ \<Rightarrow> error)
           (paced_call Da3Page batch_size
              (browse_da3 sv item_id (bw_da3_continuation work) batch_size FAll))) (\<lambda>pg.
         bindp (lift_result (accept_continuation pg work)) (\<lambda>(continuation, work).
         bindp (map_errp Failed (for_each (np_elements pg) (\<lambda>e. lift_result (map_inventory_da3_node e)))) (\<lambda>nodes.
         ret (\<lparr>ig_nodes = nodes, ig_continuation = map_option MoreDa3 continuation\<rparr>, work)))))"

section \<open>The next page of some work\<close>

definition empty_page :: "'h inventory_page" where
  "empty_page = \<lparr>ig_nodes = [], ig_continuation = None\<rparr>"

text \<open>
  A DA2 branch that turns out not to be navigable ends as an empty page. Only a successful
  page leaves its work for later use, so an error does not return it.
\<close>

definition or_skip_invalid ::
  "(('w, 'z) page_ctx_scheme, inventory_error, 'a) prog \<Rightarrow> (('w, 'z) page_ctx_scheme, inventory_error, 'a option) prog" where
  "or_skip_invalid m =
     bindp (attempt m) (\<lambda>r.
       case r of
         Inr x \<Rightarrow> ret (Some x)
       | Inl error \<Rightarrow>
           (case error of
              InvalidDa2Branch parent_path branch \<Rightarrow>
                seqp (record_skipped_invalid_branch parent_path branch) (ret None)
            | _ \<Rightarrow> throw error))"

definition next_da2_page ::
  "('w, 'h) com_server \<Rightarrow> browse_namespace \<Rightarrow> da2_path \<Rightarrow> 'h branch_work \<Rightarrow> u32
     \<Rightarrow> (('w, 'z) page_ctx_scheme, inventory_error, 'h inventory_page \<times> 'h branch_work) prog" where
  "next_da2_page sv namespace path work batch_size =
     bindp (case bw_da2_state work of
              Some st \<Rightarrow> ret (Some st)
            | None \<Rightarrow> or_skip_invalid (start_inventory_da2_page sv path namespace)) (\<lambda>started.
     case started of
       None \<Rightarrow> ret (empty_page, work)
     | Some st \<Rightarrow>
         let work = work\<lparr>bw_da2_state := None\<rparr>
         in bindp (or_skip_invalid (browse_inventory_da2_page sv st batch_size)) (\<lambda>browsed.
            case browsed of
              None \<Rightarrow> ret (empty_page, work)
            | Some (nodes, st) \<Rightarrow>
                ret (\<lparr>ig_nodes = nodes, ig_continuation = map_option MoreDa2 st\<rparr>, work)))"

definition next_page ::
  "('w, 'h) com_server \<Rightarrow> browse_namespace \<Rightarrow> 'h branch_work \<Rightarrow> u32
     \<Rightarrow> (('w, 'z) page_ctx_scheme, inventory_error, 'h inventory_page \<times> 'h branch_work) prog" where
  "next_page sv namespace work batch_size =
     (case bw_location work of
        AtDa3 item_id \<Rightarrow> next_da3_page sv item_id work batch_size
      | AtDa2 path \<Rightarrow> next_da2_page sv namespace path work batch_size)"section \<open>Frames\<close>

text \<open>
  What gated programs leave alone. A frame is an observation \<open>F\<close> of the state that depends
  on the world only through \<open>\<phi>\<close> and not on the boundary, the environment or the page context;
  programs whose native calls keep \<open>\<phi>\<close> keep \<open>F\<close>. It is used for the state that extends the page
  context and for the position of the server's cursor.
\<close>

definition host_keeps :: "('s \<Rightarrow> 'b) \<Rightarrow> 's iterator_host \<Rightarrow> bool" where
  "host_keeps f host = (\<forall>s c k d.
     f (snd (ih_before host c s)) = f s \<and> f (snd (ih_cancel host s)) = f s \<and>
     f (snd (ih_now host s)) = f s \<and> f (snd (ih_next host s)) = f s \<and> f (ih_record host k d s) = f s)"

lemma host_keepsD:
  assumes "host_keeps f host"
  shows "ih_before host k s = (b, s1) \<Longrightarrow> f s1 = f s" "ih_cancel host s = (c, s1) \<Longrightarrow> f s1 = f s"
    "ih_now host s = (t, s1) \<Longrightarrow> f s1 = f s" "ih_next host s = (r, s1) \<Longrightarrow> f s1 = f s"
    "f (ih_record host kd d s) = f s"
  using assms unfolding host_keeps_def by (metis snd_conv)+

lemma ensure_cached_keeps:
  assumes "host_keeps f host" and "ensure_cached host it s = (r, it', s')"
  shows "f s' = f s"
proof -
  note c = host_keepsD(1)[OF assms(1)] and n = host_keepsD(3)[OF assms(1)] and x = host_keepsD(4)[OF assms(1)]
    and rc = host_keepsD(5)[OF assms(1)]
  from assms(2) show ?thesis
    by (auto simp: ensure_cached_def refill_cache_def Let_def rc split: prod.splits bool.splits if_splits
        dest!: c n x)
qed

lemma next_with_gate_keeps:
  assumes "host_keeps f host"
  shows "f (snd (snd (next_with_gate host it s))) = f s"
proof (induction it s rule: next_with_gate_induct[where host = host])
  case (null it s s1 it1 s2 it2)
  then show ?case using host_keepsD(2)[OF assms] ensure_cached_keeps[OF assms] by fastforce
qed (use host_keepsD(2)[OF assms] ensure_cached_keeps[OF assms] in fastforce)+

lemma names_next_keeps:
  assumes "\<And>h. host_keeps f (host_of h)" and "names_next host_of g s = (r, g', s')"
  shows "f s' = f s"
proof (cases "gd_done g")
  case True
  with assms(2) show ?thesis by (simp add: names_next_def guarded_next_def)
next
  case False
  obtain h it where inner: "gd_inner g = (h, it)" by (cases "gd_inner g")
  obtain r1 it1 s1 where once: "next_with_gate (host_of h) it s = (r1, it1, s1)"
    by (cases "next_with_gate (host_of h) it s")
  with next_with_gate_keeps[OF assms(1), of h it s] have "f s1 = f s" by simp
  with assms(2) False inner once show ?thesis
    by (auto simp: names_next_def guarded_next_def Let_def split: option.splits prod.splits)
qed

locale gated_frame =
  fixes F :: "('w, 'z) gated_scheme \<Rightarrow> 'b" and \<phi> :: "'w \<Rightarrow> 'c"
  assumes boundary_frame: "F (s\<lparr>gt_boundary := b\<rparr>) = F s"
    and env_frame: "F (s\<lparr>gt_env := e\<rparr>) = F s"
    and world_frame: "\<phi> w = \<phi> (gt_world s) \<Longrightarrow> F (s\<lparr>gt_world := w\<rparr>) = F s"
begin

lemma paced_call_frame: "keeps \<phi> op \<Longrightarrow> preserves (paced_call k c op) (\<lambda>s. F s = z)"
proof (rule preservesI)
  fix s r t
  assume "keeps \<phi> op" "F s = z" "paced_call k c op s = Some (r, t)"
  from this(3,1,2) show "F t = z"
    by (cases rule: paced_call_cases)
      (auto simp: boundary_frame env_frame world_frame keeps_def)
qed

lemma host_frame:
  "(\<And>w. \<phi> (snd (enum_next h w)) = \<phi> w) \<Longrightarrow> host_keeps (\<lambda>(s, cancelled). F s) (inventory_host enum_next h)"
  by (auto simp: host_keeps_def inventory_host_def Let_def boundary_frame env_frame record_operation_def
      split: prod.split boundary_result.split) (metis snd_conv world_frame)

lemma next_native_frame:
  assumes "\<And>h w. \<phi> (snd (enum_next h w)) = \<phi> w"
  shows "preserves (next_native enum_next b) (\<lambda>s. F s = z)"
proof (rule preservesI)
  fix s r t
  assume "F s = z" and run: "next_native enum_next b s = Some (r, t)"
  obtain r0 inner g cancelled where n: "names_next (inventory_host enum_next) (bf_inner b) (s, False) = (r0, inner, g, cancelled)"
    by (metis prod.exhaust)
  have "F g = F s"
    using names_next_keeps[OF host_frame n] assms by simp
  with run n \<open>F s = z\<close> show "F t = z"
    by (auto simp: next_native_def Let_def env_frame split: if_splits)
qed

lemma inventory_next_frame:
  "(\<And>h w. \<phi> (snd (enum_next h w)) = \<phi> w) \<Longrightarrow> preserves (inventory_next enum_next b) (\<lambda>s. F s = z)"
  unfolding inventory_next_def by (intro preserves_rules next_native_frame)

lemma inventory_has_more_frame:
  "(\<And>h w. \<phi> (snd (enum_next h w)) = \<phi> w) \<Longrightarrow> preserves (inventory_has_more enum_next b) (\<lambda>s. F s = z)"
  unfolding inventory_has_more_def by (intro preserves_rules next_native_frame)

end

definition server_keeps :: "('w \<Rightarrow> 'c) \<Rightarrow> ('w, 'h) com_server \<Rightarrow> bool" where
  "server_keeps \<phi> sv \<longleftrightarrow>
     keeps \<phi> (cs_query_organization sv) \<and> (\<forall>ty f d a. keeps \<phi> (cs_browse_item_ids sv ty f d a)) \<and>
     (\<forall>name. keeps \<phi> (cs_get_item_id sv name)) \<and> (\<forall>i c m f. keeps \<phi> (cs_browse sv i c m f)) \<and>
     (\<forall>h w. \<phi> (snd (cs_enum_next sv h w)) = \<phi> w)"

definition moves_keep :: "('w \<Rightarrow> 'c) \<Rightarrow> ('w, 'h) com_server \<Rightarrow> bool" where
  "moves_keep \<phi> sv \<longleftrightarrow> (\<forall>d n. keeps \<phi> (cs_change_position sv d n))"

lemma cursor_server_keeps: "cursor_server sv pos home \<Longrightarrow> server_keeps pos sv"
  by (simp add: cursor_server_def server_keeps_def)

lemma trivially_kept: "server_keeps (\<lambda>_. ()) sv" "moves_keep (\<lambda>_. ()) sv"
  by (simp_all add: server_keeps_def moves_keep_def keeps_def)

lemma keeps_da3_interface: "keeps f m \<Longrightarrow> keeps f (da3_interface sv m)"
  by (auto simp: keeps_def da3_interface_def throw_def)

lemma keeps_bindp: "keeps f m \<Longrightarrow> (\<And>x. keeps f (k x)) \<Longrightarrow> keeps f (bindp m k)"
  unfolding keeps_def by (fastforce simp: bindp_def split: option.splits sum.splits prod.splits)

lemma keeps_pure: "keeps f (ret x)" "keeps f (throw e)" "keeps f (lift_result r)"
  by (simp_all add: keeps_def ret_def throw_def lift_result_def)

lemma keeps_pure_loop: "keeps f (for_each xs (\<lambda>x. lift_result (g x)))"
  by (induction xs) (auto intro!: keeps_bindp keeps_pure)

lemma keeps_attempt: "keeps f m \<Longrightarrow> keeps f (attempt m)"
  by (fastforce simp: keeps_def attempt_def split: option.splits)

lemma server_calls_keep:
  assumes "server_keeps \<phi> sv"
  shows "keeps \<phi> (query_organization sv)" "keeps \<phi> (begin_da2_browse sv ty f d a)"
    "keeps \<phi> (get_item_id sv n)" "keeps \<phi> (resolve_da2_item_id sv n)" "keeps \<phi> (browse_da3 sv i c m fk)"
    "\<phi> (snd (cs_enum_next sv h w)) = \<phi> w"
proof -
  show "keeps \<phi> (query_organization sv)" "keeps \<phi> (begin_da2_browse sv ty f d a)" and item: "keeps \<phi> (get_item_id sv n)"
    and "\<phi> (snd (cs_enum_next sv h w)) = \<phi> w"
    using assms unfolding server_keeps_def query_organization_def begin_da2_browse_def get_item_id_def
    by (blast intro: keeps_da2_interface)+
  show "keeps \<phi> (resolve_da2_item_id sv n)"
    unfolding resolve_da2_item_id_def
    by (rule keeps_bindp[OF keeps_attempt[OF item]]) (simp add: keeps_pure split: sum.split)
  show "keeps \<phi> (browse_da3 sv i c m fk)"
    using assms unfolding browse_da3_def server_keeps_def
    by (auto intro!: keeps_bindp keeps_da3_interface keeps_pure keeps_pure_loop split: prod.split)
qed

lemma preserves_case_error:
  "(error = Cancelled \<Longrightarrow> preserves m1 I) \<Longrightarrow> (\<And>e. error = Failed e \<Longrightarrow> preserves (m2 e) I) \<Longrightarrow>
   (\<And>p b. error = InvalidDa2Branch p b \<Longrightarrow> preserves (m3 p b) I) \<Longrightarrow>
   preserves (case error of Cancelled \<Rightarrow> m1 | Failed e \<Rightarrow> m2 e | InvalidDa2Branch p b \<Rightarrow> m3 p b) I"
  by (cases error) simp_all

lemmas page_rules = preserves_rules preserves_case_error

locale page_frame = gated_frame F \<phi>
  for F :: "('w, 'z) page_ctx_scheme \<Rightarrow> 'b" and \<phi> :: "'w \<Rightarrow> 'c" +
  assumes context_frame: "F (s\<lparr>ic_skipped_invalid := n\<rparr>) = F s"
    "F (s\<lparr>ic_first_invalid := t\<rparr>) = F s" "F (s\<lparr>ic_skipped_non_progressing := n\<rparr>) = F s"
    "F (s\<lparr>ic_first_non_progressing := t\<rparr>) = F s"
begin

lemma record_frame:
  "preserves (record_skipped_invalid_branch p b) (\<lambda>s. F s = z)"
  "preserves (skip_non_progressing_branch st) (\<lambda>s. F s = z)"
  unfolding record_skipped_invalid_branch_def skip_non_progressing_branch_def
  by (auto intro!: preserves_rules simp: context_frame)

lemma or_skip_frame: "preserves m (\<lambda>s. F s = z) \<Longrightarrow> preserves (or_skip_invalid m) (\<lambda>s. F s = z)"
  unfolding or_skip_invalid_def by (intro page_rules record_frame)

lemma capabilities_frame:
  "server_keeps \<phi> sv \<Longrightarrow> preserves (capabilities_for_inventory sv) (\<lambda>s. F s = z)"
  unfolding capabilities_for_inventory_def Let_def
  by (intro page_rules paced_call_frame server_calls_keep)

lemma start_enumerator_frame:
  "server_keeps \<phi> sv \<Longrightarrow> preserves (start_enumerator sv k ty op it p) (\<lambda>s. F s = z)"
  unfolding start_enumerator_def by (intro page_rules paced_call_frame server_calls_keep)

lemma next_of_frame:
  "server_keeps \<phi> sv \<Longrightarrow> preserves (inventory_next_of sv b) (\<lambda>s. F s = z)"
  "server_keeps \<phi> sv \<Longrightarrow> preserves (inventory_has_more_of sv b) (\<lambda>s. F s = z)"
  unfolding inventory_next_of_def inventory_has_more_of_def
  by (intro page_rules inventory_next_frame inventory_has_more_frame server_calls_keep(6); assumption)+

lemma next_leaf_frame:
  "server_keeps \<phi> sv \<Longrightarrow> preserves (next_leaf sv st) (\<lambda>s. F s = z)"
  "server_keeps \<phi> sv \<Longrightarrow> preserves (leaf_has_more sv st) (\<lambda>s. F s = z)"
  unfolding next_leaf_def leaf_has_more_def Let_def by (intro page_rules next_of_frame; assumption)+

lemma next_name_frame:
  "server_keeps \<phi> sv \<Longrightarrow> preserves (next_name sv st) (\<lambda>s. F s = z)"
  "server_keeps \<phi> sv \<Longrightarrow> preserves (names_have_more sv st) (\<lambda>s. F s = z)"
  unfolding next_name_def names_have_more_def Let_def
  by (intro page_rules next_of_frame next_leaf_frame record_frame; assumption)+

lemma map_inventory_frame:
  "server_keeps \<phi> sv \<Longrightarrow> preserves (map_inventory_da2_branch sv st n) (\<lambda>s. F s = z)"
  "server_keeps \<phi> sv \<Longrightarrow> preserves (map_inventory_da2_item sv st n) (\<lambda>s. F s = z)"
  unfolding map_inventory_da2_branch_def map_inventory_da2_item_def Let_def
  by (intro page_rules paced_call_frame server_calls_keep; assumption)+

lemma inventory_turn_frame:
  "server_keeps \<phi> sv \<Longrightarrow> preserves (browse_inventory_turn sv st) (\<lambda>s. F s = z)"
  unfolding browse_inventory_turn_def
  by (intro page_rules next_name_frame) (auto split: browse_node_kind.split intro!: page_rules map_inventory_frame)

lemma da3_page_frame:
  "server_keeps \<phi> sv \<Longrightarrow> preserves (next_da3_page sv i work n) (\<lambda>s. F s = z)"
  unfolding next_da3_page_def Let_def
  by (intro page_rules paced_call_frame server_calls_keep)

end

lemma browse_inventory_nodes_inv:
  "browse_inventory_nodes sv n nodes st c = Some y \<Longrightarrow> (\<And>st. preserves (browse_inventory_turn sv st) I) \<Longrightarrow> I c \<Longrightarrow>
   I (snd y)"
proof (induction rule: browse_inventory_nodes.raw_induct[rotated, consumes 1, case_names turn])
  case (turn nodes_of sv n nodes st c y)
  show ?case
  proof (cases "length nodes < n")
    case False
    with turn show ?thesis by auto
  next
    case True
    from turn(2) True obtain r c1 where once: "browse_inventory_turn sv st c = Some (r, c1)"
      by (cases "browse_inventory_turn sv st c") (auto simp: bindp_def)
    have "I c1" using preservesD[OF turn(3) turn(4) once] .
    show ?thesis
    proof (cases r)
      case (Inl e)
      with turn(2) True once \<open>I c1\<close> show ?thesis by (auto simp: bindp_def)
    next
      case (Inr p)
      with turn(2) True once \<open>I c1\<close> turn(1)[OF _ turn(3)] show ?thesis
        by (cases p) (auto simp: bindp_def split: inventory_turn.splits)
    qed
  qed
qed

lemma preserves_inventory_nodes:
  "(\<And>st. preserves (browse_inventory_turn sv st) I) \<Longrightarrow> preserves (browse_inventory_nodes sv n nodes st) I"
  by (rule preservesI) (metis browse_inventory_nodes_inv snd_conv)

text \<open>With native moves that keep \<open>\<phi>\<close>, whole pages keep the frame.\<close>

locale whole_frame = page_frame F \<phi>
  for F :: "('w, 'z) page_ctx_scheme \<Rightarrow> 'b" and \<phi> :: "'w \<Rightarrow> 'c" +
  assumes path_frame: "F (s\<lparr>ic_current_path := p\<rparr>) = F s"
begin

lemma set_path_frame: "preserves (set_path p) (\<lambda>s. F s = z)"
  unfolding set_path_def by (rule preserves_modifyp) (simp add: path_frame)

lemma move_frame:
  "moves_keep \<phi> sv \<Longrightarrow> preserves (inventory_move_to sv target) (\<lambda>s. F s = z)"
  unfolding inventory_move_to_def browse_path_to_def walk_da2_path_def up_call_def down_call_def Let_def
    change_browse_position_to_def change_browse_position_def moves_keep_def
  by (auto intro!: page_rules paced_call_frame keeps_da2_interface set_path_frame)

lemma start_page_frame:
  "server_keeps \<phi> sv \<Longrightarrow> moves_keep \<phi> sv \<Longrightarrow> preserves (start_inventory_da2_page sv p ns) (\<lambda>s. F s = z)"
  unfolding start_inventory_da2_page_def Let_def
  by (intro page_rules move_frame start_enumerator_frame)

lemma da2_page_frame:
  "server_keeps \<phi> sv \<Longrightarrow> moves_keep \<phi> sv \<Longrightarrow> preserves (browse_inventory_da2_page sv st n) (\<lambda>s. F s = z)"
  unfolding browse_inventory_da2_page_def
  by (intro page_rules move_frame preserves_inventory_nodes inventory_turn_frame next_name_frame)

lemma next_page_frame:
  "server_keeps \<phi> sv \<Longrightarrow> moves_keep \<phi> sv \<Longrightarrow> preserves (next_page sv ns work n) (\<lambda>s. F s = z)"
  unfolding next_page_def next_da2_page_def Let_def
  by (cases "bw_location work")
    (auto intro!: page_rules da3_page_frame or_skip_frame start_page_frame da2_page_frame)

end

text \<open>The state that extends the page context is a frame of everything.\<close>

lemma page_ctx_more: "gated.more c' = gated.more c \<Longrightarrow> page_ctx.more c' = page_ctx.more c"
  by (cases c; cases c') simp

interpretation extension: whole_frame page_ctx.more "\<lambda>_. ()"
  by unfold_locales (rule page_ctx_more, simp; fail | simp)+

text \<open>So is the position of the cursor, of everything but the moves.\<close>

interpretation position: whole_frame "\<lambda>c. pos (gt_world c)" pos for pos
  by unfold_locales simp_all

text \<open>And the believed path, likewise.\<close>

interpretation path: page_frame ic_current_path "\<lambda>_. ()"
  by unfold_locales simp_all

lemmas next_page_extension = extension.next_page_frame[OF trivially_kept]

section \<open>The cursor\<close>

definition at_paths :: "('w \<Rightarrow> string list) \<Rightarrow> string list \<Rightarrow> string list \<Rightarrow> ('w, 'z) page_ctx_scheme \<Rightarrow> bool" where
  "at_paths pos believed actual c \<longleftrightarrow> ic_current_path c = believed \<and> pos (gt_world c) = actual"

definition not_invalid_branch :: "inventory_error \<Rightarrow> bool" where
  "not_invalid_branch e = (\<forall>p b. e \<noteq> InvalidDa2Branch p b)"

lemma paced_call_not_invalid: "paced_call k n op c = Some (Inl e, c') \<Longrightarrow> not_invalid_branch e"
  by (auto elim!: paced_call_cases simp: not_invalid_branch_def map_sum_def split: sum.splits)

lemma contextual_not_invalid: "not_invalid_branch e \<Longrightarrow> not_invalid_branch (contextual_inventory_error e op p i)"
  by (cases e) (auto simp: not_invalid_branch_def contextual_inventory_error_def)

lemma paced_move:
  assumes "moves pos g op"
  shows "hoare (at_paths pos q p) (paced_call k n op) (\<lambda>_. at_paths pos q (g p))
    (\<lambda>e c. not_invalid_branch e \<and> at_paths pos q p c)"
proof -
  have step: "at_paths pos q p s \<Longrightarrow> paced_call k n op s = Some (r, t) \<Longrightarrow>
      (case r of Inr _ \<Rightarrow> at_paths pos q (g p) t | Inl _ \<Rightarrow> at_paths pos q p t)" for s r t
    using assms by (auto elim!: paced_call_cases simp: at_paths_def moves_def split: sum.split)
  show ?thesis
    by (rule hoareI) (use step paced_call_not_invalid in \<open>fastforce+\<close>)
qed

lemma cursor_moves:
  assumes "cursor_server sv pos home" and "cs_da2 sv"
  shows "moves pos butlast (change_browse_position sv OPC_BROWSE_UP [])"
    "moves pos (\<lambda>p. p @ [n]) (change_browse_position sv OPC_BROWSE_DOWN n)"
    "moves pos (\<lambda>_. home i) (change_browse_position_to sv i)"
  using assms unfolding change_browse_position_to_def change_browse_position_def da2_interface_def cursor_server_def
  by simp_all

lemma hoare_set_inventory_path: "hoare (at_paths pos q p) (set_path r) (\<lambda>_. at_paths pos r p) E"
  by (auto simp: hoare_def set_path_def modifyp_def at_paths_def)

lemma hoare_current_path: "hoare (at_paths pos q p) (gets ic_current_path) (\<lambda>x c. x = q \<and> at_paths pos q p c) E"
  by (auto simp: hoare_def gets_def at_paths_def)

lemma hoare_known: "(x = q \<Longrightarrow> hoare P m Q E) \<Longrightarrow> hoare (\<lambda>c. x = q \<and> P c) m Q E"
  by (cases "x = q") (auto simp: hoare_def)

lemma up_call_hoare:
  assumes "cursor_server sv pos home" and "cs_da2 sv"
  shows "hoare (at_paths pos q p) (up_call sv) (\<lambda>_. at_paths pos q (butlast p)) (\<lambda>e c. not_invalid_branch e)"
  unfolding up_call_def
  by (rule hoare_bindp[OF _ hoare_current_path], rule hoare_known, rule hoare_map_errp,
      rule hoare_cons[OF paced_move[OF cursor_moves(1)[OF assms]]])
    (auto intro: contextual_not_invalid)

lemma up_calls_hoare:
  assumes "cursor_server sv pos home" and "cs_da2 sv"
  shows "length ys = length xs \<Longrightarrow>
    hoare (at_paths pos q (p @ ys)) (for_each xs (\<lambda>_. up_call sv)) (\<lambda>_. at_paths pos q p) (\<lambda>e c. not_invalid_branch e)"
proof (induction xs arbitrary: ys)
  case Nil
  then show ?case by (simp add: hoare_def ret_def)
next
  case (Cons x xs)
  then obtain zs z where ys: "ys = zs @ [z]" "length zs = length xs"
    by (metis length_Suc_conv_rev length_Cons)
  have up: "hoare (at_paths pos q (p @ ys)) (up_call sv) (\<lambda>_. at_paths pos q (p @ zs)) (\<lambda>e c. not_invalid_branch e)"
    using up_call_hoare[OF assms, of q "p @ ys"] by (simp add: ys butlast_append)
  show ?case
    unfolding for_each.simps
    by (rule hoare_bindp[OF _ up], rule hoare_bindp[OF _ Cons.IH[OF ys(2)]], rule hoare_ret)
qed

definition tracks :: "('w \<Rightarrow> string list) \<Rightarrow> ('w, 'z) page_ctx_scheme \<Rightarrow> bool" where
  "tracks pos c \<longleftrightarrow> ic_current_path c = pos (gt_world c)"

lemma tracksI: "at_paths pos q q c \<Longrightarrow> tracks pos c"
  by (simp add: at_paths_def tracks_def)

lemma down_call_hoare:
  assumes "cursor_server sv pos home" and "cs_da2 sv"
  shows "hoare (at_paths pos q q) (down_call sv n) (\<lambda>_. at_paths pos (q @ [n]) (q @ [n])) (\<lambda>e. tracks pos)"
proof -
  have call: "hoare (at_paths pos q q) (attempt (paced_call Da2PathDown 1 (change_browse_position sv OPC_BROWSE_DOWN n)))
      (\<lambda>r. case r of Inr _ \<Rightarrow> at_paths pos q (q @ [n]) | Inl _ \<Rightarrow> at_paths pos q q) E" for E
    by (rule hoare_attempt, rule hoare_cons[OF paced_move[OF cursor_moves(2)[OF assms], of q q]]) simp_all
  show ?thesis
    unfolding down_call_def
  proof (rule hoare_bindp[OF _ hoare_current_path], rule hoare_known, simp only:, rule hoare_bindp[OF _ call])
    fix r :: "inventory_error + unit"
    show "hoare (case r of Inr _ \<Rightarrow> at_paths pos q (q @ [n]) | Inl _ \<Rightarrow> at_paths pos q q)
      (case r of
         Inr _ \<Rightarrow> set_path (q @ [n])
       | Inl error \<Rightarrow>
           (case error of
              Failed e \<Rightarrow>
                if is_com_hresult e E_INVALIDARG_HRESULT then throw (InvalidDa2Branch q n)
                else throw (contextual_inventory_error error ''change_browse_position(down)'' q (Some n))
            | _ \<Rightarrow> throw (contextual_inventory_error error ''change_browse_position(down)'' q (Some n))))
      (\<lambda>_. at_paths pos (q @ [n]) (q @ [n])) (\<lambda>e. tracks pos)"
      by (auto split: sum.split inventory_error.split intro: hoare_set_inventory_path)
        (auto simp: hoare_def throw_def intro: tracksI)
  qed
qed

lemma down_calls_hoare:
  assumes "cursor_server sv pos home" and "cs_da2 sv"
  shows "hoare (at_paths pos q q) (for_each xs (down_call sv)) (\<lambda>_. at_paths pos (q @ xs) (q @ xs)) (\<lambda>e. tracks pos)"
proof (induction xs arbitrary: q)
  case Nil
  then show ?case by (simp add: hoare_def ret_def)
next
  case (Cons x xs)
  note later = Cons.IH[of "q @ [x]", unfolded append_assoc append_Cons append_Nil]
  show ?case
    unfolding for_each.simps
    by (rule hoare_bindp[OF _ down_call_hoare[OF assms]], rule hoare_bindp, rule hoare_ret, rule later)
qed

text \<open>A path whose item ID, if it has one, is the server's name for it.\<close>

definition homed :: "(string \<Rightarrow> string list) \<Rightarrow> da2_path \<Rightarrow> bool" where
  "homed home target \<longleftrightarrow> (\<forall>i. dp_item_id target = Some i \<longrightarrow> home i = dp_components target)"

abbreviation (input) tracked_unless_fatal where
  "tracked_unless_fatal pos \<equiv> \<lambda>e c. not_invalid_branch e \<or> tracks pos c"

lemma walk_hoare:
  assumes "cursor_server sv pos home" and "cs_da2 sv"
  shows "hoare (at_paths pos q q) (walk_da2_path sv target) (\<lambda>_. at_paths pos target target) (tracked_unless_fatal pos)"
proof -
  let ?n = "common_prefix_length q target" and ?E = "tracked_unless_fatal pos"
  have up: "hoare (at_paths pos q q) (for_each (drop ?n q) (\<lambda>_. up_call sv)) (\<lambda>_. at_paths pos q (take ?n q)) ?E"
    by (rule hoare_cons[OF up_calls_hoare[OF assms, of "drop ?n q" _ q "take ?n q"]]) simp_all
  have target: "take ?n q @ drop ?n target = target"
    by (simp only: common_prefix_take[of q target] append_take_drop_id)
  have down: "hoare (at_paths pos (take ?n q) (take ?n q)) (for_each (drop ?n target) (down_call sv))
      (\<lambda>_. at_paths pos target target) ?E"
    using down_calls_hoare[OF assms, of "take ?n q" "drop ?n target"] by (rule hoare_cons) (simp_all only: target simp_thms)
  have "hoare (at_paths pos q q)
      (seqp (for_each (drop ?n q) (\<lambda>_. up_call sv))
        (seqp (set_path (take ?n q)) (seqp (for_each (drop ?n target) (down_call sv)) (ret ()))))
      (\<lambda>_. at_paths pos target target) ?E"
    by (rule hoare_seqp[OF _ up], rule hoare_seqp[OF _ hoare_set_inventory_path], rule hoare_seqp_ret, rule down)
  then show ?thesis
    unfolding walk_da2_path_def Let_def by - (rule hoare_bindp[OF _ hoare_current_path], rule hoare_known, simp)
qed

lemma browse_path_to_hoare:
  assumes "cursor_server sv pos home" and "cs_da2 sv" and "homed home target"
  shows "hoare (at_paths pos q q) (browse_path_to sv target)
    (\<lambda>placed. if placed then at_paths pos (dp_components target) (dp_components target) else at_paths pos q q)
    (\<lambda>e. tracks pos)"
proof (cases "dp_item_id target")
  case None
  have "hoare (at_paths pos q q) (ret False) (\<lambda>placed. if placed then at_paths pos (dp_components target) (dp_components target)
      else at_paths pos q q) (\<lambda>e. tracks pos)" by (simp add: hoare_def ret_def)
  with None show ?thesis
    unfolding browse_path_to_def by - (rule hoare_bindp[OF _ hoare_current_path], rule hoare_known, simp)
next
  case (Some i)
  have home: "home i = dp_components target" using assms(3) Some by (simp add: homed_def)
  have call: "hoare (at_paths pos q q) (attempt (paced_call Da2PathTo 1 (change_browse_position_to sv i)))
      (\<lambda>r. case r of Inr _ \<Rightarrow> at_paths pos q (dp_components target) | Inl _ \<Rightarrow> at_paths pos q q) E" for E
    by (rule hoare_attempt, rule hoare_cons[OF paced_move[OF cursor_moves(3)[OF assms(1,2)], of q q]]) (simp_all add: home)
  let ?Q = "\<lambda>placed. if placed then at_paths pos (dp_components target) (dp_components target) else at_paths pos q q"
  have after: "hoare (case r of Inr _ \<Rightarrow> at_paths pos q (dp_components target) | Inl _ \<Rightarrow> at_paths pos q q)
      (case r of
             Inr _ \<Rightarrow> seqp (set_path (dp_components target)) (ret True)
           | Inl error \<Rightarrow>
               (case error of
                  Failed error \<Rightarrow>
                    if is_da2_browse_to_fallback_error error then ret False
                    else throw (Failed (contextual_browse_error error ''change_browse_position_to''
                           (dp_components target) (Some i)))
                | _ \<Rightarrow> throw error)) ?Q (\<lambda>e. tracks pos)" for r :: "inventory_error + unit"
    by (cases r)
      (auto simp: hoare_def seqp_def bindp_def set_path_def modifyp_def ret_def throw_def at_paths_def tracks_def
        split: inventory_error.split)
  have "hoare (at_paths pos q q)
      (if q \<noteq> dp_components target then
         bindp (attempt (paced_call Da2PathTo 1 (change_browse_position_to sv i))) (\<lambda>r.
         case r of
             Inr _ \<Rightarrow> seqp (set_path (dp_components target)) (ret True)
           | Inl error \<Rightarrow>
               (case error of
                  Failed error \<Rightarrow>
                    if is_da2_browse_to_fallback_error error then ret False
                    else throw (Failed (contextual_browse_error error ''change_browse_position_to''
                           (dp_components target) (Some i)))
                | _ \<Rightarrow> throw error))
       else ret False) ?Q (\<lambda>e. tracks pos)"
  proof (cases "q = dp_components target")
    case True
    then show ?thesis by (simp add: hoare_def ret_def)
  next
    case False
    then show ?thesis by (simp only: not_False_eq_True if_True) (rule hoare_bindp[OF after call])
  qed
  then show ?thesis
    unfolding browse_path_to_def Some option.case
    by - (rule hoare_bindp[OF _ hoare_current_path], rule hoare_known, simp)
qed

lemma inventory_move_hoare:
  assumes "cursor_server sv pos home" and "cs_da2 sv" and "homed home target"
  shows "hoare (tracks pos) (inventory_move_to sv target)
    (\<lambda>_. at_paths pos (dp_components target) (dp_components target)) (tracked_unless_fatal pos)"
proof -
  let ?t = "dp_components target"
  have rest: "hoare (if placed then at_paths pos ?t ?t else at_paths pos q q)
      (if placed then ret () else walk_da2_path sv ?t) (\<lambda>_. at_paths pos ?t ?t) (tracked_unless_fatal pos)" for placed q
    using walk_hoare[OF assms(1,2)] by (cases placed) (simp_all add: hoare_def ret_def)
  have "hoare (at_paths pos q q) (inventory_move_to sv target) (\<lambda>_. at_paths pos ?t ?t) (tracked_unless_fatal pos)" for q
    unfolding inventory_move_to_def
    by (rule hoare_bindp[OF rest], rule hoare_cons[OF browse_path_to_hoare[OF assms]]) auto
  note run = this
  show ?thesis
  proof (rule hoareI)
    fix s u t
    assume "tracks pos s" "inventory_move_to sv target s = Some (Inr u, t)"
    then show "at_paths pos ?t ?t t"
      using hoareD_Inr[OF run[of "ic_current_path s"]] by (auto simp: tracks_def at_paths_def)
  next
    fix s e t
    assume "tracks pos s" "inventory_move_to sv target s = Some (Inl e, t)"
    then show "not_invalid_branch e \<or> tracks pos t"
      using hoareD_Inl[OF run[of "ic_current_path s"]] by (auto simp: tracks_def at_paths_def)
  qed
qed

lemma position_at_paths:
  "(\<And>z. preserves m (\<lambda>c. pos (gt_world c) = z)) \<Longrightarrow> (\<And>q. preserves m (\<lambda>c. ic_current_path c = q)) \<Longrightarrow>
   preserves m (at_paths pos q p)"
  by (rule preservesI) (auto simp: at_paths_def dest: preservesD)

lemma names_keep_paths:
  assumes "cursor_server sv pos home"
  shows "preserves (start_enumerator sv k ty op it p) (at_paths pos q z)"
    "preserves (browse_inventory_nodes sv n nodes st) (at_paths pos q z)"
    "preserves (names_have_more sv st) (at_paths pos q z)"
    "preserves (next_da3_page sv i work m) (at_paths pos q z)"
  using cursor_server_keeps[OF assms] trivially_kept(1)
  by (blast intro: position_at_paths preserves_inventory_nodes position.start_enumerator_frame
      path.start_enumerator_frame position.inventory_turn_frame path.inventory_turn_frame
      position.next_name_frame path.next_name_frame position.da3_page_frame path.da3_page_frame)+

lemma record_keeps_paths: "preserves (record_skipped_invalid_branch pp b) (at_paths pos q z)"
  by (intro position_at_paths position.record_frame path.record_frame)

lemma preserves_tracks: "(\<And>q. preserves m (at_paths pos q q)) \<Longrightarrow> preserves m (tracks pos)"
  by (rule preservesI) (force simp: at_paths_def tracks_def dest: preservesD)

lemma hoare_then_preserves:
  assumes "hoare P m (\<lambda>_. at_paths pos t t) (tracked_unless_fatal pos)" and "preserves k (at_paths pos t t)"
  shows "hoare P (seqp m k) (\<lambda>_. at_paths pos t t) (tracked_unless_fatal pos)"
  by (rule hoare_seqp[OF _ assms(1)], rule hoare_cons[OF assms(2)[unfolded preserves_def]]) (auto dest: tracksI)

lemma start_page_tracks:
  assumes "cursor_server sv pos home" and "cs_da2 sv" and "homed home path"
  shows "hoare (tracks pos) (start_inventory_da2_page sv path ns)
    (\<lambda>_. at_paths pos (dp_components path) (dp_components path)) (tracked_unless_fatal pos)"
  unfolding start_inventory_da2_page_def Let_def
  by (rule hoare_then_preserves[OF inventory_move_hoare[OF assms]])
    (intro preserves_rules names_keep_paths[OF assms(1)])

lemma browse_page_tracks:
  assumes "cursor_server sv pos home" and "cs_da2 sv"
    and "homed home \<lparr>dp_components = id_parent_path st, dp_item_id = id_parent_item_id st\<rparr>"
  shows "hoare (tracks pos) (browse_inventory_da2_page sv st n)
    (\<lambda>_. at_paths pos (id_parent_path st) (id_parent_path st)) (tracked_unless_fatal pos)"
  unfolding browse_inventory_da2_page_def
  using inventory_move_hoare[OF assms]
  by (intro hoare_then_preserves preserves_rules names_keep_paths[OF assms(1)]) simp

lemma start_page_state:
  "start_inventory_da2_page sv path ns c = Some (Inr st, c') \<Longrightarrow>
   id_parent_path st = dp_components path \<and> id_parent_item_id st = dp_item_id path"
  by (auto simp: start_inventory_da2_page_def Let_def seqp_def bindp_eq_Inr ret_def)

lemma or_skip_tracks:
  assumes "hoare (tracks pos) m (\<lambda>x c. Q x \<and> tracks pos c) (tracked_unless_fatal pos)"
  shows "hoare (tracks pos) (or_skip_invalid m) (\<lambda>x c. (\<forall>y. x = Some y \<longrightarrow> Q y) \<and> tracks pos c) (\<lambda>_ _. True)"
proof -
  have recorded: "hoare (tracks pos) (record_skipped_invalid_branch p b) (\<lambda>_. tracks pos) (\<lambda>_. tracks pos)" for p b
    using preserves_tracks[OF record_keeps_paths] by (simp add: preserves_def)
  have "hoare (case r of Inr x \<Rightarrow> \<lambda>c. Q x \<and> tracks pos c | Inl e \<Rightarrow> tracked_unless_fatal pos e)
     (case r of
         Inr x \<Rightarrow> ret (Some x)
       | Inl error \<Rightarrow>
           (case error of
              InvalidDa2Branch parent_path branch \<Rightarrow>
                seqp (record_skipped_invalid_branch parent_path branch) (ret None)
            | _ \<Rightarrow> throw error)) (\<lambda>x c. (\<forall>y. x = Some y \<longrightarrow> Q y) \<and> tracks pos c) (\<lambda>_ _. True)" for r
  proof (cases r)
    case (Inr x)
    then show ?thesis by (simp add: hoare_def ret_def)
  next
    case (Inl e)
    show ?thesis
    proof (cases e)
      case (InvalidDa2Branch p b)
      have "hoare (tracks pos) (seqp (record_skipped_invalid_branch p b) (ret None))
          (\<lambda>x c. (\<forall>y. x = Some y \<longrightarrow> Q y) \<and> tracks pos c) (\<lambda>_ _. True)"
        by (rule hoare_seqp_ret, rule hoare_cons[OF recorded]) simp_all
      with Inl InvalidDa2Branch show ?thesis by (simp add: not_invalid_branch_def)
    qed (use Inl in \<open>simp_all add: hoare_def throw_def\<close>)
  qed
  then show ?thesis
    unfolding or_skip_invalid_def
    by (rule hoare_bindp) (rule hoare_attempt, use assms in simp)
qed

section \<open>Continuation points\<close>

text \<open>The pages of one branch, one after the other, as the loop of the run asks for them.\<close>

fun accept_pages :: "native_browse_page list \<Rightarrow> 'h branch_work \<Rightarrow> inventory_error + 'h branch_work" where
  "accept_pages [] work = Inr work"
| "accept_pages (pg # pgs) work =
     (case accept_continuation pg work of
        Inl error \<Rightarrow> Inl error
      | Inr (continuation, work) \<Rightarrow> accept_pages pgs (work\<lparr>bw_da3_continuation := continuation\<rparr>))"

definition dry_windows :: "nat \<Rightarrow> bool list \<Rightarrow> bool" where
  "dry_windows n dry = (\<forall>i. i + n \<le> length dry \<longrightarrow> False \<in> set (take n (drop i dry)))"

lemma dry_windows_short: "length dry < n \<Longrightarrow> dry_windows n dry"
  by (simp add: dry_windows_def)

lemma dry_windows_break:
  assumes "k < n" and "dry_windows n rest"
  shows "dry_windows n (replicate k True @ False # rest)"
  unfolding dry_windows_def
proof (intro allI impI)
  fix i
  assume len: "i + n \<le> length (replicate k True @ False # rest)"
  show "False \<in> set (take n (drop i (replicate k True @ False # rest)))"
  proof (cases "i \<le> k")
    case True
    have "take n (drop i (replicate k True @ False # rest)) ! (k - i) = False"
      using True assms(1) by (simp add: nth_append)
    moreover have "k - i < length (take n (drop i (replicate k True @ False # rest)))"
      using True assms(1) len by simp
    ultimately show ?thesis by (metis nth_mem)
  next
    case False
    then have "drop i (replicate k True @ False # rest) = drop (i - Suc k) rest"
      by (simp add: drop_Cons' Suc_diff_Suc)
    moreover have "i - Suc k + n \<le> length rest" using False len by simp
    ultimately show ?thesis using assms(2) by (simp add: dry_windows_def)
  qed
qed

lemma accept_cases:
  assumes "accept_continuation pg work = Inr (k, work')" and "np_more_elements pg"
    and "bw_da3_consecutive_empty_pages work < 64"
  shows "\<exists>point. np_continuation pg = Some point \<and> k = Some point \<and> point \<noteq> [] \<and>
      point \<notin> bw_da3_seen_continuations work \<and>
      bw_da3_seen_continuations work' = insert point (bw_da3_seen_continuations work) \<and>
      bw_da3_consecutive_empty_pages work'
        = (if np_elements pg = [] then bw_da3_consecutive_empty_pages work + 1 else 0) \<and>
      bw_da3_consecutive_empty_pages work' < 64"
  using assms
  by (auto simp: accept_continuation_def Let_def MAX_CONSECUTIVE_EMPTY_DA3_PAGES_def
      MAX_CONSECUTIVE_IDENTICAL_BROWSE_VALUES_def split: option.splits if_splits)

lemma accept_pages_progress:
  "accept_pages pgs work = Inr work' \<Longrightarrow> \<forall>pg\<in>set pgs. np_more_elements pg \<Longrightarrow>
   bw_da3_consecutive_empty_pages work < 64 \<Longrightarrow>
   distinct (map np_continuation pgs) \<and>
   (\<forall>pg\<in>set pgs. \<exists>point. np_continuation pg = Some point \<and> point \<noteq> [] \<and> point \<notin> bw_da3_seen_continuations work) \<and>
   dry_windows 64 (replicate (bw_da3_consecutive_empty_pages work) True @ map (\<lambda>pg. np_elements pg = []) pgs)"
proof (induction pgs arbitrary: work)
  case Nil
  then show ?case by (simp add: dry_windows_short)
next
  case (Cons pg pgs)
  from Cons.prems obtain k work1 where acc: "accept_continuation pg work = Inr (k, work1)"
    and rest: "accept_pages pgs (work1\<lparr>bw_da3_continuation := k\<rparr>) = Inr work'"
    by (auto split: sum.splits)
  from accept_cases[OF acc] Cons.prems obtain point where point: "np_continuation pg = Some point" "point \<noteq> []"
      "point \<notin> bw_da3_seen_continuations work"
      "bw_da3_seen_continuations work1 = insert point (bw_da3_seen_continuations work)"
    and count: "bw_da3_consecutive_empty_pages work1
        = (if np_elements pg = [] then bw_da3_consecutive_empty_pages work + 1 else 0)"
      "bw_da3_consecutive_empty_pages work1 < 64"
    by auto
  from Cons.IH[OF rest] Cons.prems(2) count(2) have IH: "distinct (map np_continuation pgs)"
    "\<forall>pg\<in>set pgs. \<exists>p. np_continuation pg = Some p \<and> p \<noteq> [] \<and> p \<notin> insert point (bw_da3_seen_continuations work)"
    "dry_windows 64 (replicate (bw_da3_consecutive_empty_pages work1) True @ map (\<lambda>pg. np_elements pg = []) pgs)"
    by (simp_all add: point(4))
  have "np_continuation pg \<notin> np_continuation ` set pgs" using IH(2) point(1) by force
  moreover have "dry_windows 64 (replicate (bw_da3_consecutive_empty_pages work) True
      @ map (\<lambda>pg. np_elements pg = []) (pg # pgs))"
  proof (cases "np_elements pg = []")
    case True
    then have "replicate (bw_da3_consecutive_empty_pages work) True @ map (\<lambda>pg. np_elements pg = []) (pg # pgs)
        = replicate (bw_da3_consecutive_empty_pages work1) True @ map (\<lambda>pg. np_elements pg = []) pgs"
      using count(1) by (simp add: replicate_app_Cons_same)
    with IH(3) show ?thesis by (simp only:)
  next
    case False
    with count(1) IH(3) Cons.prems(3) show ?thesis by (simp add: dry_windows_break)
  qed
  ultimately show ?case using IH(1,2) point by auto
qed

section \<open>Properties\<close>

text \<open>
  C20. DA3 paging of an inventory makes progress: as long as the pages of a branch are accepted,
  their continuation points are there, nonempty and pairwise different, and among any 64
  consecutive pages one brings elements. So a server with finitely many continuation points
  can make a branch take at most that many pages before its last one.
\<close>

theorem da3_paging_progresses:
  assumes "accept_pages pgs (new_work location breadcrumbs) = Inr work'" and "\<forall>pg\<in>set pgs. np_more_elements pg"
  shows "distinct (map np_continuation pgs) \<and>
    (\<forall>pg\<in>set pgs. \<exists>point. np_continuation pg = Some point \<and> point \<noteq> []) \<and>
    (\<forall>i. i + 64 \<le> length pgs \<longrightarrow> (\<exists>pg\<in>set (take 64 (drop i pgs)). np_elements pg \<noteq> [])) \<and>
    (\<forall>points. finite points \<and> np_continuation ` set pgs \<subseteq> points \<longrightarrow> length pgs \<le> card points)"
proof -
  have "bw_da3_consecutive_empty_pages (new_work location breadcrumbs) < 64" by (simp add: new_work_def)
  note facts = accept_pages_progress[OF assms this]
  have "\<exists>pg\<in>set (take 64 (drop i pgs)). np_elements pg \<noteq> []" if "i + 64 \<le> length pgs" for i
    using facts that by (auto simp: new_work_def dry_windows_def drop_map take_map)
  moreover have "length pgs \<le> card points" if "finite points" "np_continuation ` set pgs \<subseteq> points" for points
  proof -
    have "length pgs = card (set (map np_continuation pgs))" using facts by (simp only: distinct_card length_map)
    also have "\<dots> \<le> card points" using that by (intro card_mono) simp_all
    finally show ?thesis .
  qed
  ultimately show ?thesis using facts by blast
qed

theorem da3_paging_progresses_witness:
  "\<exists>work'. accept_pages [\<lparr>np_elements = [], np_more_elements = True, np_continuation = Some ''a''\<rparr>,
       \<lparr>np_elements = [pump], np_more_elements = True, np_continuation = Some ''b''\<rparr>]
     (new_work (AtDa3 None) [] :: nat branch_work) = Inr work' \<and> distinct [Some ''a'', Some ''b'']"
proof -
  let ?pgs = "[\<lparr>np_elements = [], np_more_elements = True, np_continuation = Some ''a''\<rparr>,
       \<lparr>np_elements = [pump], np_more_elements = True, np_continuation = Some ''b''\<rparr>]"
  obtain work' where run: "accept_pages ?pgs (new_work (AtDa3 None) [] :: nat branch_work) = Inr work'"
    by (simp add: accept_continuation_def new_work_def Let_def MAX_CONSECUTIVE_EMPTY_DA3_PAGES_def
        MAX_CONSECUTIVE_IDENTICAL_BROWSE_VALUES_def)
  from da3_paging_progresses[OF run] run show ?thesis by simp
qed

text \<open>A DA2 page keeps the believed position true, from the parents that the work remembers.\<close>

lemma next_da2_page_tracks:
  assumes server: "cursor_server sv pos home" "cs_da2 sv" and path: "homed home path"
    and state: "\<forall>st. bw_da2_state work = Some st \<longrightarrow>
      homed home \<lparr>dp_components = id_parent_path st, dp_item_id = id_parent_item_id st\<rparr>"
  shows "hoare (tracks pos) (next_da2_page sv ns path work n) (\<lambda>_. tracks pos) (\<lambda>_ _. True)"
proof -
  let ?home = "\<lambda>st. homed home \<lparr>dp_components = id_parent_path st, dp_item_id = id_parent_item_id st\<rparr>"
  have start: "hoare (tracks pos) (start_inventory_da2_page sv path ns) (\<lambda>st c. ?home st \<and> tracks pos c)
      (tracked_unless_fatal pos)"
    by (rule hoareI)
      (use path in \<open>auto dest: start_page_state hoareD_Inr[OF start_page_tracks[OF server path]]
          hoareD_Inl[OF start_page_tracks[OF server path]] intro: tracksI simp: homed_def\<close>)
  have begun: "hoare (tracks pos) (case bw_da2_state work of Some st \<Rightarrow> ret (Some st)
      | None \<Rightarrow> or_skip_invalid (start_inventory_da2_page sv path ns))
      (\<lambda>started c. (\<forall>st. started = Some st \<longrightarrow> ?home st) \<and> tracks pos c) (\<lambda>_ _. True)"
    using or_skip_tracks[OF start] state by (auto simp: hoare_def ret_def split: option.split)
  have browse: "hoare (tracks pos) (or_skip_invalid (browse_inventory_da2_page sv st n))
      (\<lambda>x c. (\<forall>y. x = Some y \<longrightarrow> True) \<and> tracks pos c) (\<lambda>_ _. True)" if "?home st" for st
    by (rule or_skip_tracks, rule hoare_cons[OF browse_page_tracks[OF server that]]) (auto intro: tracksI)
  show ?thesis
    unfolding next_da2_page_def
  proof (rule hoare_bindp[OF _ begun])
    fix started :: "'b inventory_da2_state option"
    show "hoare (\<lambda>c. (\<forall>st. started = Some st \<longrightarrow> ?home st) \<and> tracks pos c)
      (case started of
         None \<Rightarrow> ret (empty_page, work)
       | Some st \<Rightarrow>
           let work = work\<lparr>bw_da2_state := None\<rparr>
           in bindp (or_skip_invalid (browse_inventory_da2_page sv st n)) (\<lambda>browsed.
              case browsed of
                None \<Rightarrow> ret (empty_page, work)
              | Some (nodes, st) \<Rightarrow>
                  ret (\<lparr>ig_nodes = nodes, ig_continuation = map_option MoreDa2 st\<rparr>, work)))
      (\<lambda>_. tracks pos) (\<lambda>_ _. True)"
    proof (cases started)
      case None
      then show ?thesis by (simp add: hoare_def ret_def)
    next
      case (Some st)
      show ?thesis
      proof (cases "?home st")
        case False
        with Some show ?thesis by (simp add: hoare_def)
      next
        case True
        have "hoare (tracks pos) (bindp (or_skip_invalid (browse_inventory_da2_page sv st n)) (\<lambda>browsed.
              case browsed of
                None \<Rightarrow> ret (empty_page, work\<lparr>bw_da2_state := None\<rparr>)
              | Some (nodes, st) \<Rightarrow>
                  ret (\<lparr>ig_nodes = nodes, ig_continuation = map_option MoreDa2 st\<rparr>, work\<lparr>bw_da2_state := None\<rparr>)))
            (\<lambda>_. tracks pos) (\<lambda>_ _. True)"
          by (rule hoare_bindp[OF _ browse[OF True]]) (auto simp: hoare_def ret_def split: option.split)
        with Some True show ?thesis by (simp add: Let_def)
      qed
    qed
  qed
qed

text \<open>
  C11. Whenever the page of a branch is delivered, also as the empty page of a branch that turned
  out not to be navigable, the path at which the inventory believes the DA2 cursor to be is
  the server's position, if it was before and item IDs denote the paths they came with.
\<close>

theorem inventory_cursor_tracks:
  assumes "cursor_server sv pos home" and "cs_da2 sv"
    and "\<forall>path. bw_location work = AtDa2 path \<longrightarrow> homed home path"
    and "\<forall>st. bw_da2_state work = Some st \<longrightarrow>
      homed home \<lparr>dp_components = id_parent_path st, dp_item_id = id_parent_item_id st\<rparr>"
    and "ic_current_path c = pos (gt_world c)" and "next_page sv ns work n c = Some (Inr (pg, work'), c')"
  shows "ic_current_path c' = pos (gt_world c')"
proof (cases "bw_location work")
  case (AtDa3 i)
  with assms(6) have run: "next_da3_page sv i work n c = Some (Inr (pg, work'), c')" by (simp add: next_page_def)
  from assms(5) preservesD[OF names_keep_paths(4)[OF assms(1)] _ run] show ?thesis by (force simp: at_paths_def)
next
  case (AtDa2 path)
  have path: "homed home path" using assms(3) AtDa2 by simp
  from hoareD_Inr[OF next_da2_page_tracks[OF assms(1,2) path assms(4)]] assms(5,6) AtDa2
  show ?thesis by (simp add: tracks_def next_page_def)
qed

theorem inventory_cursor_tracks_witness:
  "\<exists>pg work' c'. next_page plant NsHierarchical
      ((new_work (AtDa2 \<lparr>dp_components = [''Area''], dp_item_id = None\<rparr>) [''Area''] :: nat branch_work)
         \<lparr>bw_da2_state := Some \<lparr>id_parent_path = [''Area''], id_parent_item_id = None, id_branches = None,
            id_items = None, id_flat = False, id_merged_items = {}\<rparr>\<rparr>) 10
      \<lparr>gt_boundary = boundary_new, gt_env = quiet_env 9, gt_world = \<lparr>tw_pos = [''Area''], tw_batches = []\<rparr>,
       ic_current_path = [''Area''], ic_skipped_invalid = 0, ic_first_invalid = None,
       ic_skipped_non_progressing = 0, ic_first_non_progressing = None\<rparr> = Some (Inr (pg, work'), c')
    \<and> ic_current_path c' = tw_pos (gt_world c')"
proof -
  let ?st = "\<lparr>id_parent_path = [''Area''], id_parent_item_id = None, id_branches = None :: nat buffered option,
      id_items = None, id_flat = False, id_merged_items = {}\<rparr>"
  let ?work = "(new_work (AtDa2 \<lparr>dp_components = [''Area''], dp_item_id = None\<rparr>) [''Area''])
      \<lparr>bw_da2_state := Some ?st\<rparr>"
  let ?c = "\<lparr>gt_boundary = boundary_new, gt_env = quiet_env 9, gt_world = \<lparr>tw_pos = [''Area''], tw_batches = []\<rparr>,
       ic_current_path = [''Area''], ic_skipped_invalid = 0, ic_first_invalid = None,
       ic_skipped_non_progressing = 0, ic_first_non_progressing = None\<rparr>"
  have run: "next_page plant NsHierarchical ?work 10 ?c = Some (Inr (empty_page, ?work\<lparr>bw_da2_state := None\<rparr>), ?c)"
    by (simp add: next_page_def next_da2_page_def new_work_def or_skip_invalid_def browse_inventory_da2_page_def
        inventory_move_to_def browse_path_to_def walk_da2_path_def set_path_def browse_inventory_nodes.simps
        browse_inventory_turn_def next_name_def next_leaf_def inventory_next_of_def names_have_more_def
        leaf_has_more_def inventory_has_more_of_def empty_page_def Let_def prog_defs)
  have "ic_current_path ?c = tw_pos (gt_world ?c)"
    by (rule inventory_cursor_tracks[OF tree_server_cursor _ _ _ _ run])
      (simp_all add: homed_def new_work_def tree_server_def)
  with run show ?thesis by blast
qed

end
