(* ===== verification/Inventory.thy ===== *)
theory Inventory
  imports InventoryPages
begin

text \<open>
  The inventory of a server: \<open>run_inventory_at_root\<close> of \<open>inventory.rs\<close> with the events of
  \<open>provider.rs\<close> and \<open>inventory/progress.rs\<close>.

  The receiver of the events takes a number of them (\<open>sk_room\<close>) and is then dropped; a send
  fails from then on. Counters are \<open>u64\<close> as in the code; a length is clamped to \<open>u64\<close>, which
  is what the cast does to a 64-bit \<open>usize\<close>. The rate of a progress event is a float division; it
  is kept as its two operands, \<open>None\<close> for the 0.0 before any time has passed.

  The loop over the queue of branches is a partial function: a server that always has one more
  branch keeps it running.
\<close>

section \<open>Events\<close>

record inventory_progress =
  ip_branches_visited :: u64
  ip_entries_seen :: u64
  ip_unique_items :: u64
  ip_active_time_ms :: u64
  ip_paused_time_ms :: u64
  ip_items_per_second :: "(u64 \<times> duration) option"
  ip_estimated_remaining_ms :: "u64 option"

record slice_observation =
  so_sequence :: u64
  so_backend :: slice_backend
  so_nodes_returned :: u64
  so_has_more :: bool
  so_native_operations :: u64
  so_native_operation_observations :: "op_observation list"
  so_elapsed_ms :: u64
  so_entries_seen :: u64
  so_unique_items :: u64

record inventory_completed =
  cp_complete :: bool
  cp_cancelled :: bool
  cp_truncated :: bool
  cp_warning :: "string option"
  cp_capabilities :: browse_capabilities
  cp_startup_observations :: "op_observation list"

datatype inventory_event =
    EntryEvent inventory_entry
  | ProgressEvent inventory_progress
  | SliceEvent slice_observation
  | CompletedEvent inventory_completed

record sink =
  sk_room :: nat
  sk_sent :: "inventory_event list"

definition millis :: "duration \<Rightarrow> u64" where
  "millis d = clamp_word (d div 1000000)"

definition progress :: "u64 \<Rightarrow> u64 \<Rightarrow> u64 \<Rightarrow> duration \<Rightarrow> duration \<Rightarrow> inventory_progress" where
  "progress branches_visited entries_seen unique_items active_time paused_time =
     \<lparr>ip_branches_visited = branches_visited, ip_entries_seen = entries_seen,
      ip_unique_items = unique_items, ip_active_time_ms = millis active_time,
      ip_paused_time_ms = millis paused_time,
      ip_items_per_second = (if 0 < active_time then Some (unique_items, active_time) else None),
      ip_estimated_remaining_ms = None\<rparr>"

definition merge_warning :: "string option \<Rightarrow> string \<Rightarrow> string option" where
  "merge_warning existing warning =
     (case existing of Some text \<Rightarrow> Some (text @ ''; '' @ warning) | None \<Rightarrow> Some warning)"

section \<open>The state of a run\<close>

record ('w, 'h) inventory = "'w page_ctx" +
  iv_queue :: "'h branch_work list"
  iv_seen :: "string list"
  iv_branches_visited :: u64
  iv_entries_seen :: u64
  iv_slice_sequence :: u64
  iv_active_time :: duration
  iv_terminal :: inventory_completed
  iv_sink :: sink

type_synonym ('w, 'h, 'a) inventory_prog = "(('w, 'h) inventory, opc_error, 'a) prog"

definition send_event :: "inventory_event \<Rightarrow> ('w, 'h, bool) inventory_prog" where
  "send_event event = effect (\<lambda>s.
     if sk_room (iv_sink s) = 0 then (False, s)
     else (True, s\<lparr>iv_sink := \<lparr>sk_room = sk_room (iv_sink s) - 1, sk_sent = sk_sent (iv_sink s) @ [event]\<rparr>\<rparr>))"

definition unique_items :: "('w, 'h) inventory \<Rightarrow> u64" where
  "unique_items s = clamp_word (length (iv_seen s))"

definition send_progress :: "('w, 'h, bool) inventory_prog" where
  "send_progress = bindp (gets (\<lambda>s. progress (iv_branches_visited s) (iv_entries_seen s) (unique_items s)
       (iv_active_time s) (bd_paused_time (gt_boundary s)))) (\<lambda>p. send_event (ProgressEvent p))"

definition update_terminal ::
  "(inventory_completed \<Rightarrow> inventory_completed) \<Rightarrow> ('w, 'h, unit) inventory_prog" where
  "update_terminal f = modifyp (iv_terminal_update f)"

definition mark_cancelled :: "inventory_completed \<Rightarrow> inventory_completed" where
  "mark_cancelled t = t\<lparr>cp_complete := False, cp_cancelled := True\<rparr>"

definition mark_truncated :: "inventory_completed \<Rightarrow> inventory_completed" where
  "mark_truncated t = t\<lparr>cp_complete := False, cp_truncated := True,
     cp_warning := merge_warning (cp_warning t) ''inventory entry limit reached''\<rparr>"

definition add_warning :: "string \<Rightarrow> inventory_completed \<Rightarrow> inventory_completed" where
  "add_warning w t = t\<lparr>cp_warning := merge_warning (cp_warning t) w\<rparr>"

text \<open>\<open>control.is_cancelled()\<close>, one more observation.\<close>

definition observe_cancelled :: "(('w, 'z) gated_scheme, 'e, bool) prog" where
  "observe_cancelled = effect (\<lambda>s. let e = advance (gt_env s) in (env_cancelled e, s\<lparr>gt_env := e\<rparr>))"

definition observe_batch_size :: "u32 \<Rightarrow> (('w, 'z) gated_scheme, 'e, u32) prog" where
  "observe_batch_size configured = effect (\<lambda>s.
     let e = advance (gt_env s)
     in (case get_batch_size (env_control e) of Some n \<Rightarrow> n | None \<Rightarrow> configured, s\<lparr>gt_env := e\<rparr>))"

section \<open>The nodes of a page\<close>

definition limit_reached :: "inventory_options \<Rightarrow> ('w, 'h) inventory \<Rightarrow> bool" where
  "limit_reached options s =
     (case io_max_entries options of Some limit \<Rightarrow> limit \<le> unique_items s | None \<Rightarrow> False)"

text \<open>The item of a node: \<open>False\<close> when the loop over the nodes ends with it.\<close>

definition emit_item ::
  "inventory_options \<Rightarrow> string list \<Rightarrow> inventory_node \<Rightarrow> ('w, 'h, bool) inventory_prog" where
  "emit_item options breadcrumbs node =
     (case in_item_id node of
        None \<Rightarrow> ret True
      | Some item_id \<Rightarrow>
          bindp (gets iv_seen) (\<lambda>seen.
          if is_item (in_kind node) \<and> item_id \<notin> set seen then
            seqp (modifyp (iv_seen_update (\<lambda>seen. item_id # seen)))
              (bindp (send_event (EntryEvent \<lparr>ent_display_name = in_display_name node, ent_item_id = item_id,
                        ent_kind = in_kind node, ent_breadcrumbs = breadcrumbs\<rparr>)) (\<lambda>sent.
               if \<not> sent then seqp (update_terminal mark_cancelled) (ret False)
               else bindp (gets (limit_reached options)) (\<lambda>full.
                 if full then seqp (update_terminal mark_truncated) (ret False) else ret True)))
          else ret True))"

definition emit_node ::
  "inventory_options \<Rightarrow> string list \<Rightarrow> inventory_node \<Rightarrow> ('w, 'h, bool) inventory_prog" where
  "emit_node options breadcrumbs node =
     bindp observe_cancelled (\<lambda>cancelled.
     if cancelled then seqp (update_terminal mark_cancelled) (ret False)
     else bindp (emit_item options breadcrumbs node) (\<lambda>go.
       if \<not> go then ret False
       else case in_child node of
              None \<Rightarrow> ret True
            | Some location \<Rightarrow>
                seqp (modifyp (iv_queue_update (\<lambda>q. q @ [new_work location (breadcrumbs @ [in_display_name node])])))
                  (ret True)))"

fun emit_nodes ::
  "inventory_options \<Rightarrow> string list \<Rightarrow> inventory_node list \<Rightarrow> ('w, 'h, unit) inventory_prog" where
  "emit_nodes options breadcrumbs [] = ret ()"
| "emit_nodes options breadcrumbs (node # nodes) =
     bindp (emit_node options breadcrumbs node) (\<lambda>go.
       if go then emit_nodes options breadcrumbs nodes else ret ())"

section \<open>One turn of the loop\<close>

definition continue_work :: "'h inventory_continuation \<Rightarrow> 'h branch_work \<Rightarrow> 'h branch_work" where
  "continue_work continuation work =
     (case continuation of
        MoreDa3 point \<Rightarrow> work\<lparr>bw_da3_continuation := Some point\<rparr>
      | MoreDa2 st \<Rightarrow> work\<lparr>bw_da2_state := Some st\<rparr>)"

definition slice_of :: "branch_location \<Rightarrow> slice_backend" where
  "slice_of location = (case location of AtDa3 _ \<Rightarrow> SliceDa3 | AtDa2 _ \<Rightarrow> SliceDa2)"

definition send_slice ::
  "'h branch_work \<Rightarrow> 'h inventory_page \<Rightarrow> u64 \<Rightarrow> duration \<Rightarrow> ('w, 'h, bool) inventory_prog" where
  "send_slice work pg operations_before slice_elapsed =
     bindp (effect (\<lambda>s. case take_operation_observations (gt_boundary s) of
              (obs, b) \<Rightarrow> (obs, s\<lparr>gt_boundary := b\<rparr>))) (\<lambda>observations.
     bindp (gets (\<lambda>s. \<lparr>so_sequence = iv_slice_sequence s, so_backend = slice_of (bw_location work),
              so_nodes_returned = clamp_word (length (ig_nodes pg)),
              so_has_more = (ig_continuation pg \<noteq> None),
              so_native_operations = sat_sub (bd_native_operations (gt_boundary s)) operations_before,
              so_native_operation_observations = observations, so_elapsed_ms = millis slice_elapsed,
              so_entries_seen = iv_entries_seen s, so_unique_items = unique_items s\<rparr>))
       (\<lambda>slice. send_event (SliceEvent slice)))"

text \<open>What follows a page; \<open>True\<close> when the loop goes on.\<close>

definition deliver_page ::
  "inventory_options \<Rightarrow> 'h branch_work \<Rightarrow> 'h inventory_page \<Rightarrow> u64 \<Rightarrow> duration \<Rightarrow> ('w, 'h, bool) inventory_prog" where
  "deliver_page options work pg operations_before slice_elapsed =
     seqp (modifyp (\<lambda>s. s\<lparr>iv_entries_seen := sat_add (iv_entries_seen s) (clamp_word (length (ig_nodes pg))),
                          iv_slice_sequence := sat_add (iv_slice_sequence s) 1\<rparr>))
    (seqp (emit_nodes options (bw_breadcrumbs work) (ig_nodes pg))
    (bindp (send_slice work pg operations_before slice_elapsed) (\<lambda>sent.
     seqp (if sent then ret () else update_terminal mark_cancelled)
    (bindp (gets iv_terminal) (\<lambda>terminal.
     if cp_cancelled terminal \<or> cp_truncated terminal then ret False
     else
       seqp (case ig_continuation pg of
               None \<Rightarrow> ret ()
             | Some continuation \<Rightarrow> modifyp (iv_queue_update (\<lambda>q. continue_work continuation work # q)))
         (bindp send_progress (\<lambda>sent.
          if sent then ret True else seqp (update_terminal mark_cancelled) (ret False))))))))"

definition fallback_warning :: "opc_error \<Rightarrow> string" where
  "fallback_warning error =
     ''OPC DA 3.0 root browse returned compatibility HRESULT '' @
     (case com_hresult error of None \<Rightarrow> ''N/A'' | Some code \<Rightarrow> hex8 code) @
     ''; inventory continued through OPC DA 2.x''"

definition fall_back_to_da2 :: "string option \<Rightarrow> opc_error \<Rightarrow> ('w, 'h, unit) inventory_prog" where
  "fall_back_to_da2 root_item_id error = modifyp (\<lambda>s.
     let terminal = add_warning (fallback_warning error) (iv_terminal s);
         capabilities = (cp_capabilities terminal)\<lparr>cap_supports_da3 := False\<rparr>
     in s\<lparr>iv_terminal := terminal\<lparr>cp_capabilities := capabilities\<rparr>,
          iv_branches_visited := sat_sub (iv_branches_visited s) 1,
          iv_queue := [initial_work capabilities root_item_id], ic_current_path := []\<rparr>)"

text \<open>The measured call of \<open>next_page\<close>; its time, less the time paused, is active time.\<close>

definition timed_page ::
  "('w, 'h) com_server \<Rightarrow> browse_namespace \<Rightarrow> u32 \<Rightarrow> 'h branch_work
     \<Rightarrow> ('w, 'h, (inventory_error + 'h inventory_page \<times> 'h branch_work) \<times> u64 \<times> duration) inventory_prog" where
  "timed_page sv namespace configured work =
     bindp instant_now (\<lambda>call_started.
     bindp (gets (\<lambda>s. bd_paused_time (gt_boundary s))) (\<lambda>paused_before.
     bindp (observe_batch_size configured) (\<lambda>batch_size.
     bindp (gets (\<lambda>s. bd_native_operations (gt_boundary s))) (\<lambda>operations_before.
     bindp (attempt (next_page sv namespace work batch_size)) (\<lambda>result.
     bindp instant_now (\<lambda>ended.
     let slice_elapsed = ended - call_started
     in seqp (modifyp (\<lambda>s. s\<lparr>iv_active_time := iv_active_time s
              + (slice_elapsed - (bd_paused_time (gt_boundary s) - paused_before))\<rparr>))
          (ret (result, operations_before, slice_elapsed))))))))"

definition inventory_loop_turn ::
  "('w, 'h) com_server \<Rightarrow> browse_namespace \<Rightarrow> inventory_options \<Rightarrow> string option \<Rightarrow> 'h branch_work
     \<Rightarrow> ('w, 'h, bool) inventory_prog" where
  "inventory_loop_turn sv namespace options root_item_id work =
     seqp (if bw_da3_continuation work = None \<and> bw_da2_state work = None
           then modifyp (\<lambda>s. s\<lparr>iv_branches_visited := sat_add (iv_branches_visited s) 1\<rparr>) else ret ())
    (bindp (timed_page sv namespace (io_batch_size options) work) (\<lambda>(result, operations_before, slice_elapsed).
     case result of
       Inr (pg, work) \<Rightarrow> deliver_page options work pg operations_before slice_elapsed
     | Inl Cancelled \<Rightarrow> seqp (update_terminal mark_cancelled) (ret False)
     | Inl (Failed error) \<Rightarrow>
         bindp (gets iv_terminal) (\<lambda>terminal.
         if is_initial_da3_root work \<and> cap_supports_da2 (cp_capabilities terminal)
            \<and> is_da3_browse_compatibility_error error then
           seqp (fall_back_to_da2 root_item_id error) (ret True)
         else seqp send_progress (throw error))
     | Inl (InvalidDa2Branch parent_path branch) \<Rightarrow>
         seqp (record_skipped_invalid_branch parent_path branch) (ret True)))"

partial_function (option) inventory_loop ::
  "('w, 'h) com_server \<Rightarrow> browse_namespace \<Rightarrow> inventory_options \<Rightarrow> string option \<Rightarrow> ('w, 'h) inventory
     \<Rightarrow> ((opc_error + unit) \<times> ('w, 'h) inventory) option" where
  "inventory_loop sv namespace options root_item_id s =
     (case iv_queue s of
        [] \<Rightarrow> Some (Inr (), s)
      | work # rest \<Rightarrow>
          bindp (inventory_loop_turn sv namespace options root_item_id work) (\<lambda>go s.
            if go then inventory_loop sv namespace options root_item_id s else Some (Inr (), s))
          (s\<lparr>iv_queue := rest\<rparr>))"

declare inventory_loop.simps [code]

section \<open>A run\<close>

definition skipped_warning :: "u64 \<Rightarrow> string \<Rightarrow> string \<Rightarrow> string option \<Rightarrow> inventory_completed \<Rightarrow> inventory_completed" where
  "skipped_warning count what first_what first t =
     (if 0 < count then
        add_warning (''skipped '' @ show_nat (unat count) @ what @ first_what
          @ (case first of Some text \<Rightarrow> text | None \<Rightarrow> ''<unknown>'')) t
      else t)"

definition finish_inventory :: "('w, 'h, unit) inventory_prog" where
  "finish_inventory =
     bindp observe_cancelled (\<lambda>cancelled.
     seqp (if cancelled then update_terminal mark_cancelled else ret ())
    (seqp (modifyp (\<lambda>s. iv_terminal_update (skipped_warning (ic_skipped_invalid s)
             '' non-navigable DA2 branch name(s); '' ''first skipped branch: '' (ic_first_invalid s)) s))
    (seqp (modifyp (\<lambda>s. iv_terminal_update (skipped_warning (ic_skipped_non_progressing s)
             '' non-progressing DA2 branch iterator(s); '' ''first skipped iterator: ''
             (ic_first_non_progressing s)) s))
    (bindp (gets iv_terminal) (\<lambda>terminal.
     seqp (send_event (CompletedEvent terminal)) (ret ()))))))"

definition no_capabilities :: browse_capabilities where
  "no_capabilities = \<lparr>cap_namespace = NsUnknown, cap_supports_da3 = False, cap_supports_da2 = False,
     cap_max_page_size = 1000\<rparr>"

definition detect_capabilities :: "('w, 'h) com_server \<Rightarrow> ('w, 'h, browse_capabilities) inventory_prog" where
  "detect_capabilities sv =
     bindp observe_cancelled (\<lambda>cancelled.
     if cancelled then ret no_capabilities
     else bindp (attempt (capabilities_for_inventory sv)) (\<lambda>r.
       case r of
         Inr capabilities \<Rightarrow> ret capabilities
       | Inl Cancelled \<Rightarrow> ret no_capabilities
       | Inl (Failed error) \<Rightarrow> throw error
       | Inl (InvalidDa2Branch _ _) \<Rightarrow> throw (Internal ''invalid DA2 branch escaped capability detection'')))"

definition start_run :: "browse_capabilities \<Rightarrow> string option \<Rightarrow> ('w, 'h, unit) inventory_prog" where
  "start_run capabilities root_item_id = modifyp (\<lambda>s.
     case take_operation_observations (gt_boundary s) of (observations, b) \<Rightarrow>
       s\<lparr>gt_boundary := b, iv_queue := [initial_work capabilities root_item_id],
         iv_terminal := \<lparr>cp_complete = True, cp_cancelled = False, cp_truncated = False, cp_warning = None,
           cp_capabilities = capabilities, cp_startup_observations = observations\<rparr>\<rparr>)"

definition run_inventory_at_root ::
  "('w, opc_error, ('w, 'h) com_server) prog \<Rightarrow> string option \<Rightarrow> inventory_options \<Rightarrow> ('w, 'h, unit) inventory_prog" where
  "run_inventory_at_root connect root_item_id options =
     (if io_batch_size options = 0 \<or> MAX_INVENTORY_BATCH_SIZE < io_batch_size options then
        throw (InvalidState (''Inventory batch size must be between 1 and ''
          @ show_nat (unat MAX_INVENTORY_BATCH_SIZE)))
      else
        bindp (on_world connect) (\<lambda>sv.
        bindp (detect_capabilities sv) (\<lambda>capabilities.
        seqp (start_run capabilities root_item_id)
       (bindp send_progress (\<lambda>sent.
        if \<not> sent then ret ()
        else if io_max_entries options = Some 0 then
          seqp (update_terminal (\<lambda>t. t\<lparr>cp_complete := False, cp_truncated := True,
                  cp_warning := Some ''inventory entry limit reached''\<rparr>))
            (bindp (gets iv_terminal) (\<lambda>terminal. seqp (send_event (CompletedEvent terminal)) (ret ())))
        else seqp (inventory_loop sv (cap_namespace capabilities) options root_item_id) finish_inventory)))))"

text \<open>The state before a run: a fresh boundary, nothing seen, nothing sent.\<close>

definition inventory_start :: "env \<Rightarrow> 'w \<Rightarrow> nat \<Rightarrow> ('w, 'h) inventory" where
  "inventory_start e w room =
     \<lparr>gt_boundary = boundary_new, gt_env = e, gt_world = w, ic_current_path = [],
      ic_skipped_invalid = 0, ic_first_invalid = None, ic_skipped_non_progressing = 0,
      ic_first_non_progressing = None, iv_queue = [], iv_seen = [], iv_branches_visited = 0,
      iv_entries_seen = 0, iv_slice_sequence = 0, iv_active_time = 0,
      iv_terminal = \<lparr>cp_complete = True, cp_cancelled = False, cp_truncated = False, cp_warning = None,
        cp_capabilities = no_capabilities, cp_startup_observations = []\<rparr>,
      iv_sink = \<lparr>sk_room = room, sk_sent = []\<rparr>\<rparr>"

section \<open>What a run promises\<close>

text \<open>The item IDs and the slices among the events, in order.\<close>

fun entry_ids :: "inventory_event list \<Rightarrow> string list" where
  "entry_ids [] = []"
| "entry_ids (EntryEvent e # es) = ent_item_id e # entry_ids es"
| "entry_ids (_ # es) = entry_ids es"

fun slices :: "inventory_event list \<Rightarrow> slice_observation list" where
  "slices [] = []"
| "slices (SliceEvent s # es) = s # slices es"
| "slices (_ # es) = slices es"

lemma entry_ids_append: "entry_ids (xs @ ys) = entry_ids xs @ entry_ids ys"
  by (induction xs rule: entry_ids.induct) auto

lemma slices_append: "slices (xs @ ys) = slices xs @ slices ys"
  by (induction xs rule: slices.induct) auto

definition sent_events :: "('w, 'h) inventory \<Rightarrow> inventory_event list" where
  "sent_events s = sk_sent (iv_sink s)"

definition live :: "('w, 'h) inventory \<Rightarrow> bool" where
  "live s \<longleftrightarrow> \<not> cp_cancelled (iv_terminal s) \<and> \<not> cp_truncated (iv_terminal s)"

definition flags_ok :: "inventory_options \<Rightarrow> ('w, 'h) inventory \<Rightarrow> bool" where
  "flags_ok options s \<longleftrightarrow>
     (cp_complete (iv_terminal s) \<longleftrightarrow> live s) \<and>
     (cp_truncated (iv_terminal s) \<longrightarrow> entry_ids (sent_events s) = rev (iv_seen s) \<and>
        (\<exists>limit. io_max_entries options = Some limit \<and> length (iv_seen s) = unat limit)) \<and>
     (\<forall>limit. io_max_entries options = Some limit \<longrightarrow> length (iv_seen s) \<le> unat limit \<and>
        (live s \<longrightarrow> length (iv_seen s) < unat limit))"

definition log_ok :: "('w, 'h) inventory \<Rightarrow> bool" where
  "log_ok s \<longleftrightarrow> distinct (iv_seen s) \<and>
     (entry_ids (sent_events s) = rev (iv_seen s) \<or>
      (cp_cancelled (iv_terminal s) \<and> iv_seen s \<noteq> [] \<and> entry_ids (sent_events s) = rev (tl (iv_seen s)))) \<and>
     (\<forall>c. CompletedEvent c \<notin> set (sent_events s)) \<and>
     map so_sequence (slices (sent_events s)) = map clamp_word [1..<Suc (length (slices (sent_events s)))]"

definition slices_behind :: "nat \<Rightarrow> ('w, 'h) inventory \<Rightarrow> bool" where
  "slices_behind k s \<longleftrightarrow> iv_slice_sequence s = clamp_word (length (slices (sent_events s)) + k)"

definition run_ok :: "inventory_options \<Rightarrow> nat \<Rightarrow> ('w, 'h) inventory \<Rightarrow> bool" where
  "run_ok options k s \<longleftrightarrow> flags_ok options s \<and> log_ok s \<and> slices_behind k s"

lemmas run_ok_defs = run_ok_def flags_ok_def log_ok_def slices_behind_def live_def sent_events_def

lemma extension_fields:
  assumes "page_ctx.more s' = page_ctx.more (s :: ('w, 'h) inventory)"
  shows "iv_queue s' = iv_queue s" "iv_seen s' = iv_seen s" "iv_slice_sequence s' = iv_slice_sequence s"
    "iv_terminal s' = iv_terminal s" "iv_sink s' = iv_sink s"
  using assms by (cases s; cases s'; simp)+

lemma run_ok_cong:
  "iv_seen s' = iv_seen s \<Longrightarrow> iv_slice_sequence s' = iv_slice_sequence s \<Longrightarrow> iv_terminal s' = iv_terminal s \<Longrightarrow>
   iv_sink s' = iv_sink s \<Longrightarrow> run_ok options k s' = run_ok options k s \<and> live s' = live s"
  by (simp add: run_ok_defs)

lemma sat_add_clamp: "sat_add (clamp_word n) 1 = (clamp_word (Suc n) :: u64)"
  by (simp add: word_unat_eq_iff unat_sat_add unat_clamp_word)

lemma limit_reached_iff:
  assumes "io_max_entries options = Some limit"
  shows "limit_reached options s \<longleftrightarrow> unat limit \<le> length (iv_seen s)"
proof -
  have "unat limit < 2 ^ 64" using unsigned_less[of limit] by simp
  then have "unat limit \<le> 2 ^ 64 - 1" by arith
  then show ?thesis
    by (auto simp: limit_reached_def unique_items_def word_le_nat_alt unat_clamp_word assms)
qed

lemma send_run:
  "send_event ev s = Some (if sk_room (iv_sink s) = 0 then (Inr False, s)
     else (Inr True, s\<lparr>iv_sink := \<lparr>sk_room = sk_room (iv_sink s) - 1, sk_sent = sent_events s @ [ev]\<rparr>\<rparr>))"
  by (simp add: send_event_def effect_def sent_events_def)

lemma emit_item_ok:
  "hoare (\<lambda>s. run_ok options k s \<and> live s) (emit_item options b node :: ('w, 'h, bool) inventory_prog)
     (\<lambda>go s. run_ok options k s \<and> (go = live s)) E"
proof (rule hoareI)
  fix s t :: "('w, 'h) inventory" and go
  assume ok: "run_ok options k s \<and> live s" and run: "emit_item options b node s = Some (Inr go, t)"
  show "run_ok options k t \<and> (go = live t)"
  proof (cases "\<exists>item_id. in_item_id node = Some item_id \<and> is_item (in_kind node) \<and> item_id \<notin> set (iv_seen s)")
    case False
    with ok run show ?thesis
      by (auto simp: emit_item_def bindp_def gets_def ret_def split: option.splits)
  next
    case True
    then obtain item_id where item: "in_item_id node = Some item_id" "is_item (in_kind node)"
      "item_id \<notin> set (iv_seen s)" by blast
    show ?thesis
    proof (cases "sk_room (iv_sink s) = 0")
      case True
      with ok run item show ?thesis
        by (auto simp: emit_item_def bindp_def gets_def ret_def seqp_def modifyp_def send_run update_terminal_def
            mark_cancelled_def run_ok_defs less_Suc_eq_le Suc_le_eq)
    next
      case False
      let ?s = "(iv_seen_update ((#) item_id) s)\<lparr>iv_sink := \<lparr>sk_room = sk_room (iv_sink s) - 1,
        sk_sent = sent_events s @ [EntryEvent \<lparr>ent_display_name = in_display_name node, ent_item_id = item_id,
          ent_kind = in_kind node, ent_breadcrumbs = b\<rparr>]\<rparr>\<rparr>"
      have full: "limit_reached options ?s \<longleftrightarrow>
          (\<exists>limit. io_max_entries options = Some limit \<and> length (iv_seen ?s) = unat limit)"
        using ok limit_reached_iff[of options _ ?s]
        by (cases "io_max_entries options") (auto simp: limit_reached_def run_ok_defs Suc_le_eq)
      from run item False have t: "if limit_reached options ?s then go = False \<and> t = iv_terminal_update mark_truncated ?s
          else go = True \<and> t = ?s"
        by (auto simp: emit_item_def bindp_def gets_def ret_def seqp_def modifyp_def send_run update_terminal_def
            sent_events_def split: if_splits)
      show ?thesis
      proof (cases "limit_reached options ?s")
        case True
        with t ok full item show ?thesis
          by (auto simp: run_ok_defs mark_truncated_def entry_ids_append slices_append)
      next
        case False
        with t ok full item show ?thesis
          by (auto simp: run_ok_defs entry_ids_append slices_append Suc_le_eq less_le)
      qed
    qed
  qed
next
  fix s t :: "('w, 'h) inventory" and e
  assume "emit_item options b node s = Some (Inl e, t)"
  then show "E e t"
    by (auto simp: emit_item_def bindp_def gets_def ret_def seqp_def modifyp_def send_run update_terminal_def
        split: option.splits if_splits)
qed

lemma mark_cancelled_ok:
  "run_ok options k s \<Longrightarrow> run_ok options k (iv_terminal_update mark_cancelled s) \<and> \<not> live (iv_terminal_update mark_cancelled s)"
  by (auto simp: run_ok_defs mark_cancelled_def)


lemma observe_ok:
  "hoare P observe_cancelled (\<lambda>_. P) E" if "\<And>s e. P (s\<lparr>gt_env := e\<rparr>) = P s"
  using that by (auto simp: hoare_def observe_cancelled_def effect_def Let_def)

lemma run_ok_env [simp]:
  "run_ok options k (s\<lparr>gt_env := e\<rparr>) = run_ok options k s" "live (s\<lparr>gt_env := e\<rparr>) = live s"
  "run_ok options k (s\<lparr>gt_boundary := b\<rparr>) = run_ok options k s" "live (s\<lparr>gt_boundary := b\<rparr>) = live s"
  "run_ok options k (iv_queue_update f s) = run_ok options k s" "live (iv_queue_update f s) = live s"
  "run_ok options k (s\<lparr>iv_active_time := d\<rparr>) = run_ok options k s" "live (s\<lparr>iv_active_time := d\<rparr>) = live s"
  "run_ok options k (s\<lparr>iv_branches_visited := n\<rparr>) = run_ok options k s" "live (s\<lparr>iv_branches_visited := n\<rparr>) = live s"
  by (simp_all add: run_ok_defs)

lemma cancel_ok:
  "hoare (run_ok options k) (seqp (update_terminal mark_cancelled) (ret False)) (\<lambda>go s. run_ok options k s \<and> (go = live s)) E"
  by (auto simp: hoare_def seqp_def bindp_def update_terminal_def modifyp_def ret_def dest: mark_cancelled_ok)

lemma emit_node_ok:
  "hoare (\<lambda>s. run_ok options k s \<and> live s) (emit_node options b node) (\<lambda>go s. run_ok options k s \<and> (go = live s)) E"
proof -
  let ?I = "\<lambda>s. run_ok options k s \<and> live s" and ?Q = "\<lambda>go s. run_ok options k s \<and> (go = live s)"
  have child: "hoare (?Q go) (if \<not> go then ret False
       else case in_child node of
              None \<Rightarrow> ret True
            | Some location \<Rightarrow>
                seqp (modifyp (iv_queue_update (\<lambda>q. q @ [new_work location (b @ [in_display_name node])])))
                  (ret True)) ?Q E" for go
    by (auto simp: hoare_def ret_def seqp_def bindp_def modifyp_def split: option.split)
  have body: "hoare ?I (if cancelled then seqp (update_terminal mark_cancelled) (ret False)
     else bindp (emit_item options b node) (\<lambda>go.
       if \<not> go then ret False
       else case in_child node of
              None \<Rightarrow> ret True
            | Some location \<Rightarrow>
                seqp (modifyp (iv_queue_update (\<lambda>q. q @ [new_work location (b @ [in_display_name node])])))
                  (ret True))) ?Q E" for cancelled
    using hoare_pre[OF cancel_ok, of ?I options k E] hoare_bindp[OF child emit_item_ok]
    by (cases cancelled) simp_all
  show ?thesis
    unfolding emit_node_def by (rule hoare_bindp[OF body]) (rule observe_ok, simp)
qed

lemma emit_nodes_ok:
  "hoare (\<lambda>s. run_ok options k s \<and> live s) (emit_nodes options b nodes) (\<lambda>_. run_ok options k) E"
proof (induction nodes)
  case Nil
  show ?case by (simp add: hoare_def ret_def)
next
  case (Cons node nodes)
  have "hoare (\<lambda>s. run_ok options k s \<and> (go = live s)) (if go then emit_nodes options b nodes else ret ())
      (\<lambda>_. run_ok options k) E" for go
    using Cons.IH by (cases go) (simp_all add: hoare_def ret_def)
  then show ?case unfolding emit_nodes.simps by (rule hoare_bindp) (rule emit_node_ok)
qed

lemma send_progress_ok:
  "hoare (\<lambda>s. run_ok options k s \<and> live s) send_progress (\<lambda>_ s. run_ok options k s \<and> live s) E"
  "hoare (run_ok options k) send_progress (\<lambda>_. run_ok options k) E"
  by (auto simp: hoare_def send_progress_def bindp_def gets_def send_run run_ok_defs entry_ids_append slices_append)

lemma slice_sent:
  assumes "run_ok options 1 s" and "so_sequence sl = iv_slice_sequence s"
  shows "run_ok options 0 (s\<lparr>iv_sink := \<lparr>sk_room = r, sk_sent = sent_events s @ [SliceEvent sl]\<rparr>\<rparr>)"
proof -
  let ?n = "length (slices (sent_events s))"
  have up: "[1..<Suc (Suc ?n)] = [1..<Suc ?n] @ [Suc ?n]" by simp
  have seq: "map so_sequence (slices (sent_events s)) @ [iv_slice_sequence s] = map clamp_word [1..<Suc (Suc ?n)]"
    using assms(1) unfolding up by (simp add: run_ok_def log_ok_def slices_behind_def del: upt_Suc)
  from assms seq show ?thesis
    by (simp add: run_ok_def flags_ok_def log_ok_def slices_behind_def sent_events_def live_def entry_ids_append
        slices_append del: upt_Suc)
qed

lemma send_slice_ok:
  "hoare (run_ok options 1) (send_slice work pg ops d)
     (\<lambda>sent s. if sent then run_ok options 0 s else run_ok options 1 s) E"
proof -
  have send: "hoare (\<lambda>s. run_ok options 1 s \<and> so_sequence sl = iv_slice_sequence s) (send_event (SliceEvent sl))
      (\<lambda>sent s. if sent then run_ok options 0 s else run_ok options 1 s) E" for sl
    by (simp add: hoare_def send_run slice_sent)
  show ?thesis
    unfolding send_slice_def
    by (rule hoare_bindp[where R = "\<lambda>_. run_ok options 1"], rule hoare_bindp[OF send])
      (auto simp: hoare_def gets_def effect_def split: prod.split)
qed

definition stopped_ok :: "inventory_options \<Rightarrow> ('w, 'h) inventory \<Rightarrow> bool" where
  "stopped_ok options s \<longleftrightarrow> (\<exists>k. run_ok options k s)"

text \<open>After a turn: go on with everything in step, or stop because of a cancellation or the limit.\<close>

definition turn_ok :: "inventory_options \<Rightarrow> bool \<Rightarrow> ('w, 'h) inventory \<Rightarrow> bool" where
  "turn_ok options go s \<longleftrightarrow> (if go then run_ok options 0 s \<and> live s else stopped_ok options s \<and> \<not> live s)"

lemma turn_cancelled:
  "run_ok options k s \<Longrightarrow> turn_ok options False (iv_terminal_update mark_cancelled s)"
  using mark_cancelled_ok by (auto simp: turn_ok_def stopped_ok_def)

lemma deliver_page_ok:
  "hoare (\<lambda>s. run_ok options 0 s \<and> live s) (deliver_page options work pg ops d) (turn_ok options) E"
proof -
  have counters: "hoare (\<lambda>s. run_ok options 0 s \<and> live s)
      (modifyp (\<lambda>s. s\<lparr>iv_entries_seen := sat_add (iv_entries_seen s) (clamp_word (length (ig_nodes pg))),
                          iv_slice_sequence := sat_add (iv_slice_sequence s) 1\<rparr>))
      (\<lambda>_ s. run_ok options 1 s \<and> live s) E"
    by (auto simp: hoare_def modifyp_def run_ok_defs sat_add_clamp)
  have last: "hoare (\<lambda>s. terminal = iv_terminal s \<and> (if live s then run_ok options 0 s else stopped_ok options s))
      (if cp_cancelled terminal \<or> cp_truncated terminal then ret False
       else
         seqp (case ig_continuation pg of
                 None \<Rightarrow> ret ()
               | Some continuation \<Rightarrow> modifyp (iv_queue_update (\<lambda>q. continue_work continuation work # q)))
           (bindp send_progress (\<lambda>sent.
            if sent then ret True else seqp (update_terminal mark_cancelled) (ret False))))
      (turn_ok options) E" for terminal
  proof (rule hoareI)
    fix s t :: "('a, 'b) inventory" and go
    assume pre: "terminal = iv_terminal s \<and> (if live s then run_ok options 0 s else stopped_ok options s)"
    assume run: "(if cp_cancelled terminal \<or> cp_truncated terminal then ret False
       else
         seqp (case ig_continuation pg of
                 None \<Rightarrow> ret ()
               | Some continuation \<Rightarrow> modifyp (iv_queue_update (\<lambda>q. continue_work continuation work # q)))
           (bindp send_progress (\<lambda>sent.
            if sent then ret True else seqp (update_terminal mark_cancelled) (ret False)))) s = Some (Inr go, t)"
    show "turn_ok options go t"
    proof (cases "live s")
      case False
      with pre run show ?thesis by (auto simp: live_def turn_ok_def ret_def)
    next
      case True
      define s1 where "s1 = (case ig_continuation pg of None \<Rightarrow> s
          | Some continuation \<Rightarrow> iv_queue_update (\<lambda>q. continue_work continuation work # q) s)"
      have s1: "run_ok options 0 s1 \<and> live s1" using pre True by (auto simp: s1_def split: option.split)
      from run pre True obtain sent s2 where p: "send_progress s1 = Some (Inr sent, s2)"
        and e: "if sent then go \<and> t = s2 else \<not> go \<and> t = iv_terminal_update mark_cancelled s2"
        by (auto simp: s1_def live_def seqp_def bindp_eq_Inr ret_def modifyp_def update_terminal_def
            split: option.splits if_splits)
      from hoareD_Inr[OF send_progress_ok(1) s1 p] e show ?thesis
        by (cases sent) (auto simp: turn_ok_def dest: turn_cancelled[unfolded turn_ok_def])
    qed
  next
    fix s t :: "('a, 'b) inventory" and e
    assume "(if cp_cancelled terminal \<or> cp_truncated terminal then ret False
       else
         seqp (case ig_continuation pg of
                 None \<Rightarrow> ret ()
               | Some continuation \<Rightarrow> modifyp (iv_queue_update (\<lambda>q. continue_work continuation work # q)))
           (bindp send_progress (\<lambda>sent.
            if sent then ret True else seqp (update_terminal mark_cancelled) (ret False)))) s = Some (Inl e, t)"
    then show "E e t"
      by (auto simp: prog_defs send_progress_def send_run update_terminal_def split: if_splits option.splits)
  qed
  have mark: "hoare (\<lambda>s. if sent then run_ok options 0 s else run_ok options 1 s)
      (if sent then ret () else update_terminal mark_cancelled)
      (\<lambda>_ s. if live s then run_ok options 0 s else stopped_ok options s) E" for sent
    by (auto simp: hoare_def ret_def update_terminal_def modifyp_def stopped_ok_def dest: mark_cancelled_ok)
  show ?thesis
    unfolding deliver_page_def
    by (rule hoare_seqp[OF _ counters], rule hoare_seqp[OF _ emit_nodes_ok], rule hoare_bindp[OF _ send_slice_ok],
        rule hoare_seqp[OF _ mark], rule hoare_bindp[OF last])
      (auto simp: hoare_def gets_def)
qed

lemma extension_ok:
  "(\<And>z. preserves m (\<lambda>s. page_ctx.more s = z)) \<Longrightarrow> (\<And>s s'. page_ctx.more s' = page_ctx.more s \<Longrightarrow> P s' = P s) \<Longrightarrow>
   preserves m P"
  by (rule preservesI) (metis (mono_tags, lifting) preservesD)

lemma run_ok_extension:
  assumes "page_ctx.more s' = page_ctx.more s"
  shows "(run_ok options k s' \<and> live s') = (run_ok options k s \<and> live s)"
  using run_ok_cong[OF extension_fields(2,3,4,5)[OF assms]] by blast

lemma timed_page_ok:
  "preserves (timed_page sv ns n work) (\<lambda>s. run_ok options k s \<and> live s)"
proof -
  have page: "preserves (next_page sv ns work m) (\<lambda>s. run_ok options k s \<and> live s)" for m
    by (rule extension_ok[OF next_page_extension]) (rule run_ok_extension)
  show ?thesis
    unfolding timed_page_def Let_def
    by (intro preserves_rules page) (auto simp: preserves_def hoare_def instant_now_def observe_batch_size_def
        effect_def Let_def)
qed

lemma inventory_loop_turn_ok:
  "hoare (\<lambda>s. run_ok options 0 s \<and> live s) (inventory_loop_turn (sv :: ('w, 'h) com_server) ns options root work) (turn_ok options)
     (\<lambda>_. stopped_ok options)"
proof -
  let ?I = "\<lambda>s :: ('w, 'h) inventory. run_ok options 0 s \<and> live s"
  have visit: "hoare ?I (if bw_da3_continuation work = None \<and> bw_da2_state work = None
           then modifyp (\<lambda>s. s\<lparr>iv_branches_visited := sat_add (iv_branches_visited s) 1\<rparr>) else ret ())
      (\<lambda>_. ?I) E" for E
    by (auto simp: hoare_def modifyp_def ret_def)
  have timed: "hoare ?I (timed_page sv ns m work) (\<lambda>_. ?I) (\<lambda>_. stopped_ok options)" for m
    using timed_page_ok[of sv ns m work options 0, unfolded preserves_def]
    by (rule hoare_cons) (auto simp: stopped_ok_def)
  have fallback: "hoare ?I (seqp (fall_back_to_da2 root e) (ret True)) (turn_ok options) (\<lambda>_. stopped_ok options)" for e
    by (auto simp: hoare_def seqp_def bindp_def fall_back_to_da2_def modifyp_def ret_def turn_ok_def Let_def
        run_ok_defs add_warning_def)
  have failed: "hoare ?I (seqp send_progress (throw e)) (turn_ok options) (\<lambda>_. stopped_ok options)" for e
    by (rule hoare_seqp[OF _ send_progress_ok(1)]) (auto simp: hoare_def throw_def stopped_ok_def)
  have skipped: "hoare ?I (seqp (record_skipped_invalid_branch p b) (ret True)) (turn_ok options)
      (\<lambda>_. stopped_ok options)" for p b
    by (auto simp: hoare_def seqp_def bindp_def record_skipped_invalid_branch_def modifyp_def ret_def turn_ok_def
        run_ok_defs)
  have cancelled: "hoare ?I (seqp (update_terminal mark_cancelled) (ret False)) (turn_ok options)
      (\<lambda>_. stopped_ok options)"
    by (auto simp: hoare_def seqp_def bindp_def update_terminal_def modifyp_def ret_def intro: turn_cancelled)
  show ?thesis
    unfolding inventory_loop_turn_def
  proof (rule hoare_seqp[OF _ visit], rule hoare_bindp[OF _ timed])
    fix x :: "(inventory_error + 'h inventory_page \<times> 'h branch_work) \<times> u64 \<times> duration"
    obtain result ops d where x: "x = (result, ops, d)" by (cases x) auto
    show "hoare ?I (case x of (result, operations_before, slice_elapsed) \<Rightarrow>
     case result of
       Inr (pg, work) \<Rightarrow> deliver_page options work pg operations_before slice_elapsed
     | Inl Cancelled \<Rightarrow> seqp (update_terminal mark_cancelled) (ret False)
     | Inl (Failed error) \<Rightarrow>
         bindp (gets iv_terminal) (\<lambda>terminal.
         if is_initial_da3_root work \<and> cap_supports_da2 (cp_capabilities terminal)
            \<and> is_da3_browse_compatibility_error error then
           seqp (fall_back_to_da2 root error) (ret True)
         else seqp send_progress (throw error))
     | Inl (InvalidDa2Branch parent_path branch) \<Rightarrow>
         seqp (record_skipped_invalid_branch parent_path branch) (ret True)) (turn_ok options) (\<lambda>_. stopped_ok options)"
    proof (cases result)
      case (Inr p)
      then show ?thesis using deliver_page_ok by (cases p) (simp add: x)
    next
      case (Inl e)
      show ?thesis
      proof (cases e)
        case (Failed err)
        have "hoare ?I (if is_initial_da3_root work \<and> cap_supports_da2 (cp_capabilities terminal)
            \<and> is_da3_browse_compatibility_error err then seqp (fall_back_to_da2 root err) (ret True)
         else seqp send_progress (throw err)) (turn_ok options) (\<lambda>_. stopped_ok options)" for terminal
          using fallback[of err] failed[of err] by simp
        then have "hoare ?I (bindp (gets iv_terminal) (\<lambda>terminal.
          if is_initial_da3_root work \<and> cap_supports_da2 (cp_capabilities terminal)
            \<and> is_da3_browse_compatibility_error err then seqp (fall_back_to_da2 root err) (ret True)
          else seqp send_progress (throw err))) (turn_ok options) (\<lambda>_. stopped_ok options)"
          by (rule hoare_bindp) (simp add: hoare_def gets_def)
        with Inl Failed x show ?thesis by simp
      qed (use Inl x cancelled skipped in simp_all)
    qed
  qed
qed

lemma inventory_loop_ok:
  "inventory_loop sv ns options root s = Some y \<Longrightarrow> run_ok options 0 s \<and> live s \<Longrightarrow>
   (case y of (r, t) \<Rightarrow> stopped_ok options t \<and> (r = Inr () \<longrightarrow> live t \<longrightarrow> iv_queue t = []))"
proof (induction rule: inventory_loop.raw_induct[rotated, consumes 1, case_names turn])
  case (turn loop sv ns options root s y)
  show ?case
  proof (cases "iv_queue s")
    case Nil
    with turn show ?thesis by (auto simp: stopped_ok_def)
  next
    case (Cons work rest)
    let ?s = "s\<lparr>iv_queue := rest\<rparr>"
    have ok: "run_ok options 0 ?s \<and> live ?s" using turn(3) by simp
    from turn(2) Cons obtain r c where once: "inventory_loop_turn sv ns options root work ?s = Some (r, c)"
      by (cases "inventory_loop_turn sv ns options root work ?s") (auto simp: bindp_def)
    show ?thesis
    proof (cases r)
      case (Inl e)
      with hoareD_Inl[OF inventory_loop_turn_ok ok] once turn(2) Cons show ?thesis by (auto simp: bindp_def)
    next
      case (Inr go)
      from hoareD_Inr[OF inventory_loop_turn_ok ok once[unfolded Inr]] have after: "turn_ok options go c" .
      show ?thesis
      proof (cases go)
        case True
        with after Inr once turn(2) Cons turn(1)[of sv ns options root c y] show ?thesis
          by (auto simp: bindp_def turn_ok_def)
      next
        case False
        with after Inr once turn(2) Cons show ?thesis by (auto simp: bindp_def turn_ok_def)
      qed
    qed
  qed
qed

text \<open>What the events of a finished run look like.\<close>

definition completed_ok :: "inventory_options \<Rightarrow> inventory_completed \<Rightarrow> ('w, 'h) inventory \<Rightarrow> bool" where
  "completed_ok options c s \<longleftrightarrow>
     (cp_complete c \<longleftrightarrow> \<not> cp_cancelled c \<and> \<not> cp_truncated c) \<and>
     (cp_complete c \<longrightarrow> iv_queue s = []) \<and>
     (cp_truncated c \<longrightarrow> (\<exists>limit. io_max_entries options = Some limit \<and>
        length (entry_ids (sent_events s)) = unat limit))"

definition events_ok :: "inventory_options \<Rightarrow> inventory_event list \<Rightarrow> bool" where
  "events_ok options events \<longleftrightarrow> distinct (entry_ids events) \<and>
     (\<forall>limit. io_max_entries options = Some limit \<longrightarrow> length (entry_ids events) \<le> unat limit) \<and>
     map so_sequence (slices events) = map clamp_word [1..<Suc (length (slices events))]"

definition finished_ok :: "inventory_options \<Rightarrow> bool \<Rightarrow> ('w, 'h) inventory \<Rightarrow> bool" where
  "finished_ok options succeeded s \<longleftrightarrow> events_ok options (sent_events s) \<and>
     (\<exists>body tail. sent_events s = body @ tail \<and> (\<forall>c. CompletedEvent c \<notin> set body) \<and>
        (tail = [] \<or> (\<exists>c. tail = [CompletedEvent c] \<and> succeeded \<and> completed_ok options c s)))"

lemma stopped_events_ok:
  assumes "stopped_ok options s"
  shows "events_ok options (sent_events s)" and "\<forall>c. CompletedEvent c \<notin> set (sent_events s)"
  using assms
  by (auto simp: stopped_ok_def run_ok_def flags_ok_def log_ok_def events_ok_def distinct_tl simp del: upt_Suc)

lemma completed_appended:
  "events_ok options (evs @ [CompletedEvent c]) = events_ok options evs"
  by (simp add: events_ok_def entry_ids_append slices_append)

text \<open>The end of a run, from the terminal state that is sent.\<close>

definition terminal_ok :: "inventory_options \<Rightarrow> inventory_completed \<Rightarrow> ('w, 'h) inventory \<Rightarrow> bool" where
  "terminal_ok options t s \<longleftrightarrow> events_ok options (sent_events s) \<and>
     (\<forall>c. CompletedEvent c \<notin> set (sent_events s)) \<and> completed_ok options t s"

lemma finished_unsent:
  "events_ok options (sent_events s) \<Longrightarrow> \<forall>c. CompletedEvent c \<notin> set (sent_events s) \<Longrightarrow> finished_ok options b s"
  unfolding finished_ok_def by (metis append_Nil2)

lemma finished_sent:
  "events_ok options evs \<Longrightarrow> \<forall>c. CompletedEvent c \<notin> set evs \<Longrightarrow> sent_events s = evs @ [CompletedEvent c] \<Longrightarrow>
   completed_ok options c s \<Longrightarrow> finished_ok options True s"
  unfolding finished_ok_def by (metis completed_appended)

lemma send_completed_ok:
  assumes "terminal_ok options t s" and "seqp (send_event (CompletedEvent t)) (ret ()) s = Some (r, s')"
  shows "finished_ok options True s' \<and> r = Inr ()"
proof (cases "sk_room (iv_sink s) = 0")
  case True
  with assms have "s' = s" "r = Inr ()" by (auto simp: seqp_def bindp_def send_run ret_def)
  with assms(1) finished_unsent show ?thesis by (auto simp: terminal_ok_def)
next
  case False
  with assms have s': "s' = s\<lparr>iv_sink := \<lparr>sk_room = sk_room (iv_sink s) - 1, sk_sent = sent_events s @ [CompletedEvent t]\<rparr>\<rparr>"
    and r: "r = Inr ()" by (auto simp: seqp_def bindp_def send_run ret_def)
  from s' have "sent_events s' = sent_events s @ [CompletedEvent t]" by (simp add: sent_events_def)
  moreover from this assms(1) s' have "completed_ok options t s'"
    by (simp add: terminal_ok_def completed_ok_def entry_ids_append)
  ultimately show ?thesis using assms(1) r finished_sent by (auto simp: terminal_ok_def)
qed

lemma skipped_warning_flags:
  "cp_complete (skipped_warning n a b f t) = cp_complete t"
  "cp_cancelled (skipped_warning n a b f t) = cp_cancelled t"
  "cp_truncated (skipped_warning n a b f t) = cp_truncated t"
  by (simp_all add: skipped_warning_def add_warning_def)

lemma stopped_terminal_ok:
  assumes "stopped_ok options s" and "live s \<longrightarrow> iv_queue s = []"
  shows "terminal_ok options (iv_terminal s) s"
  using stopped_events_ok[OF assms(1)] assms
  by (auto simp: terminal_ok_def completed_ok_def stopped_ok_def run_ok_def flags_ok_def live_def)

lemma finish_inventory_ok:
  assumes "stopped_ok options s" and "live s \<longrightarrow> iv_queue s = []" and "finish_inventory s = Some (r, s')"
  shows "finished_ok options True s' \<and> r = Inr ()"
proof -
  define s1 where "s1 = s\<lparr>gt_env := advance (gt_env s)\<rparr>"
  define s2 where "s2 = (if env_cancelled (advance (gt_env s)) then iv_terminal_update mark_cancelled s1 else s1)"
  have s2: "stopped_ok options s2 \<and> (live s2 \<longrightarrow> iv_queue s2 = [])"
  proof -
    from assms(1) obtain k where k: "run_ok options k s1" by (auto simp: stopped_ok_def s1_def)
    then show ?thesis
      using assms(2) mark_cancelled_ok[OF k] by (auto simp: s2_def stopped_ok_def s1_def)
  qed
  define s3 where "s3 = iv_terminal_update (skipped_warning (ic_skipped_invalid s2)
      '' non-navigable DA2 branch name(s); '' ''first skipped branch: '' (ic_first_invalid s2)) s2"
  define s4 where "s4 = iv_terminal_update (skipped_warning (ic_skipped_non_progressing s3)
      '' non-progressing DA2 branch iterator(s); '' ''first skipped iterator: '' (ic_first_non_progressing s3)) s3"
  have "finish_inventory s = seqp (send_event (CompletedEvent (iv_terminal s4))) (ret ()) s4"
    by (simp add: finish_inventory_def observe_cancelled_def update_terminal_def effect_def seqp_def bindp_def
        modifyp_def gets_def ret_def Let_def s1_def s2_def s3_def s4_def)
  with assms(3) have send: "seqp (send_event (CompletedEvent (iv_terminal s4))) (ret ()) s4 = Some (r, s')" by simp
  have "terminal_ok options (iv_terminal s4) s4"
    using stopped_terminal_ok[of options s2] s2
    by (simp add: terminal_ok_def completed_ok_def sent_events_def s3_def s4_def skipped_warning_flags)
  from send_completed_ok[OF this send] show ?thesis .
qed

text \<open>The start of a run: nothing seen and nothing sent until the first progress.\<close>

definition untouched :: "('w, 'h) inventory \<Rightarrow> bool" where
  "untouched s \<longleftrightarrow> iv_seen s = [] \<and> iv_slice_sequence s = 0 \<and> sent_events s = []"

lemma untouched_extension: "page_ctx.more s' = page_ctx.more s \<Longrightarrow> untouched s' = untouched s"
  using extension_fields[of s' s] by (simp add: untouched_def sent_events_def)

lemma untouched_connect: "preserves (on_world m) untouched"
  by (rule preservesI) (auto simp: on_world_run untouched_def sent_events_def split: option.splits)

lemma untouched_detect: "preserves (detect_capabilities sv) untouched"
proof -
  have caps: "preserves (capabilities_for_inventory sv) untouched"
    by (rule extension_ok[OF extension.capabilities_frame[OF trivially_kept(1)]]) (rule untouched_extension)
  have cancelled: "preserves observe_cancelled untouched"
    by (auto simp: preserves_def hoare_def observe_cancelled_def effect_def Let_def untouched_def sent_events_def)
  show ?thesis
    unfolding detect_capabilities_def by (intro page_rules caps cancelled)
qed

lemma started_ok:
  assumes "untouched s" and "start_run capabilities root s = Some (u, s1)" and "send_progress s1 = Some (Inr sent, s2)"
  shows "live s2 \<and> events_ok options (sent_events s2) \<and> (\<forall>c. CompletedEvent c \<notin> set (sent_events s2)) \<and>
    entry_ids (sent_events s2) = [] \<and> (io_max_entries options \<noteq> Some 0 \<longrightarrow> run_ok options 0 s2)"
proof -
  have s1: "untouched s1 \<and> live s1 \<and> cp_complete (iv_terminal s1)"
    using assms(1,2) by (auto simp: start_run_def modifyp_def untouched_def sent_events_def live_def take_operation_observations_def
        collector_take_def)
  have s2: "iv_seen s2 = []" "iv_slice_sequence s2 = 0" "iv_terminal s2 = iv_terminal s1"
    "sent_events s2 = [] \<or> (\<exists>p. sent_events s2 = [ProgressEvent p])"
    using s1 assms(3)
    by (auto simp: send_progress_def bindp_def gets_def send_run untouched_def sent_events_def split: if_splits)
  have pos: "io_max_entries options = Some limit \<Longrightarrow> io_max_entries options \<noteq> Some 0 \<Longrightarrow> 0 < unat limit" for limit
    by (auto simp: unat_gt_0)
  from s1 s2 pos show ?thesis
    by (auto simp: run_ok_def flags_ok_def log_ok_def slices_behind_def events_ok_def live_def clamp_word_def)
qed

lemma run_inventory_ok:
  assumes "run_inventory_at_root connect root options (inventory_start e w room :: ('w, 'h) inventory) = Some (r, s')"
  shows "finished_ok options (r = Inr ()) s'"
proof -
  let ?s = "inventory_start e w room :: ('w, 'h) inventory"
  have fresh: "untouched ?s" by (simp add: untouched_def inventory_start_def sent_events_def)
  have quiet: "finished_ok options b s" if "untouched s" for b and s :: "('w, 'h) inventory"
    using that by (intro finished_unsent) (simp_all add: untouched_def events_ok_def)
  show ?thesis
  proof (cases "io_batch_size options = 0 \<or> MAX_INVENTORY_BATCH_SIZE < io_batch_size options")
    case True
    with assms have "s' = ?s" by (auto simp: run_inventory_at_root_def throw_def)
    with fresh quiet show ?thesis by simp
  next
    case False
    with assms obtain rc c1 where c: "on_world connect ?s = Some (rc, c1)"
      by (cases "on_world connect ?s") (auto simp: run_inventory_at_root_def bindp_def)
    have c1: "untouched c1" by (rule preservesD[OF untouched_connect fresh c])
    show ?thesis
    proof (cases rc)
      case (Inl err)
      with False assms c c1 quiet show ?thesis by (auto simp: run_inventory_at_root_def bindp_def)
    next
      case (Inr sv)
      with False assms c obtain rd d1 where d: "detect_capabilities sv c1 = Some (rd, d1)"
        by (cases "detect_capabilities sv c1") (auto simp: run_inventory_at_root_def bindp_def)
      have d1: "untouched d1" by (rule preservesD[OF untouched_detect c1 d])
      show ?thesis
      proof (cases rd)
        case (Inl err)
        with False assms c Inr d d1 quiet show ?thesis by (auto simp: run_inventory_at_root_def bindp_def)
      next
        case caps: (Inr capabilities)
        obtain s1 where s1: "start_run capabilities root d1 = Some (Inr (), s1)"
          by (auto simp: start_run_def modifyp_def)
        obtain sent s2 where s2: "send_progress s1 = Some (Inr sent, s2)"
          by (cases "sk_room (iv_sink s1) = 0") (auto simp: send_progress_def bindp_def gets_def send_run)
        note started = started_ok[OF d1 s1 s2, of options]
        have rest: "(if \<not> sent then ret ()
            else if io_max_entries options = Some 0 then
              seqp (update_terminal (\<lambda>t. t\<lparr>cp_complete := False, cp_truncated := True,
                      cp_warning := Some ''inventory entry limit reached''\<rparr>))
                (bindp (gets iv_terminal) (\<lambda>terminal. seqp (send_event (CompletedEvent terminal)) (ret ())))
            else seqp (inventory_loop sv (cap_namespace capabilities) options root) finish_inventory) s2 = Some (r, s')"
          using False assms c Inr d caps s1 s2 by (simp add: run_inventory_at_root_def bindp_def seqp_def)
        consider (closed) "\<not> sent" | (none) "sent" "io_max_entries options = Some 0" | (loop) "sent" "io_max_entries options \<noteq> Some 0"
          by blast
        then show ?thesis
        proof cases
          case closed
          with rest started show ?thesis by (auto simp: ret_def intro: finished_unsent)
        next
          case none
          let ?f = "\<lambda>t. t\<lparr>cp_complete := False, cp_truncated := True, cp_warning := Some ''inventory entry limit reached''\<rparr>"
          from none rest have "seqp (send_event (CompletedEvent (?f (iv_terminal s2)))) (ret ()) (iv_terminal_update ?f s2) = Some (r, s')"
            by (simp add: seqp_def bindp_def update_terminal_def modifyp_def gets_def)
          moreover have "terminal_ok options (?f (iv_terminal s2)) (iv_terminal_update ?f s2)"
            using started none by (simp add: terminal_ok_def completed_ok_def sent_events_def)
          ultimately show ?thesis using send_completed_ok by fastforce
        next
          case loop
          with rest obtain rl l1 where l: "inventory_loop sv (cap_namespace capabilities) options root s2 = Some (rl, l1)"
            by (cases "inventory_loop sv (cap_namespace capabilities) options root s2") (auto simp: seqp_def bindp_def)
          from inventory_loop_ok[OF l] started loop
          have l1: "stopped_ok options l1" "rl = Inr () \<longrightarrow> live l1 \<longrightarrow> iv_queue l1 = []" by auto
          show ?thesis
          proof (cases rl)
            case (Inl err)
            with rest loop l have "s' = l1" by (simp add: seqp_def bindp_def)
            with stopped_events_ok[OF l1(1)] show ?thesis by (simp add: finished_unsent)
          next
            case (Inr u)
            with rest loop l have "finish_inventory l1 = Some (r, s')" by (simp add: seqp_def bindp_def)
            from finish_inventory_ok[OF l1(1) _ this] l1(2) Inr show ?thesis by simp
          qed
        qed
      qed
    qed
  qed
qed

text \<open>A run with the limit 0 on a server that has DA3 only: progress, then the completion.\<close>

definition da3_only_server :: "(unit, nat) com_server" where
  "da3_only_server = (flat_server None)\<lparr>cs_da2 := False\<rparr>"

lemma limited_run:
  "\<exists>s' c. run_inventory_at_root (ret da3_only_server) None \<lparr>io_batch_size = 100, io_max_entries = Some 0\<rparr>
      (inventory_start (quiet_env 3) () 10) = Some (Inr (), s')
    \<and> (\<exists>p. sk_sent (iv_sink s') = [ProgressEvent p, CompletedEvent c]) \<and> cp_truncated c"
  by (simp add: run_inventory_at_root_def MAX_INVENTORY_BATCH_SIZE_def on_world_run bindp_def ret_def
      inventory_start_def detect_capabilities_def observe_cancelled_def effect_def quiet_env_def env_cancelled_def
      env_control_def advance_def control_new_def attempt_def capabilities_for_inventory_def da3_only_server_def
      flat_server_def start_run_def seqp_def modifyp_def take_operation_observations_def collector_take_def
      boundary_new_def send_progress_def gets_def send_run Let_def sent_events_def update_terminal_def)

section \<open>Properties\<close>

text \<open>
  C9. Whatever server, control and receiver a run meets: the item IDs of its entries are
  pairwise different, their number never exceeds the configured limit, the slices are
  numbered 1, 2, 3 and so on in \<open>u64\<close>, and a completion, if one is sent, is sent once, as the
  last event, and only by a run that does not fail.
\<close>

theorem inventory_event_order:
  assumes "run_inventory_at_root connect root options (inventory_start e w room) = Some (r, s')"
  shows "distinct (entry_ids (sk_sent (iv_sink s'))) \<and>
    (\<forall>limit. io_max_entries options = Some limit \<longrightarrow> length (entry_ids (sk_sent (iv_sink s'))) \<le> unat limit) \<and>
    map so_sequence (slices (sk_sent (iv_sink s')))
      = map clamp_word [1..<Suc (length (slices (sk_sent (iv_sink s'))))] \<and>
    (\<exists>body tail. sk_sent (iv_sink s') = body @ tail \<and> (\<forall>c. CompletedEvent c \<notin> set body) \<and>
       (tail = [] \<or> (\<exists>c. tail = [CompletedEvent c] \<and> r = Inr ())))"
  using run_inventory_ok[OF assms]
  by (auto simp: finished_ok_def events_ok_def sent_events_def simp del: upt_Suc)

theorem inventory_event_order_witness:
  "\<exists>s' body c. run_inventory_at_root (ret da3_only_server) None \<lparr>io_batch_size = 100, io_max_entries = Some 0\<rparr>
      (inventory_start (quiet_env 3) () 10) = Some (Inr (), s')
    \<and> sk_sent (iv_sink s') = body @ [CompletedEvent c] \<and> entry_ids (sk_sent (iv_sink s')) = []"
proof -
  obtain s' c p where run: "run_inventory_at_root (ret da3_only_server) None \<lparr>io_batch_size = 100, io_max_entries = Some 0\<rparr>
      (inventory_start (quiet_env 3) () 10) = Some (Inr (), s')"
    and sent: "sk_sent (iv_sink s') = [ProgressEvent p, CompletedEvent c]"
    using limited_run by blast
  from inventory_event_order[OF run] have "entry_ids (sk_sent (iv_sink s')) = []" by (simp del: upt_Suc)
  moreover have "sk_sent (iv_sink s') = [ProgressEvent p] @ [CompletedEvent c]" using sent by simp
  ultimately show ?thesis using run by blast
qed



end
