(* ===== verification/Helpers.thy ===== *)
theory Helpers
  imports Connector "HOL-Library.Signed_Division"
begin

text \<open>
  \<open>opc-da-client/src/helpers.rs\<close>: the text of a \<open>VARIANT\<close>, of a quality word and of a
  \<open>FILETIME\<close>, the \<open>VARIANT\<close> of a value to write, and the resolution of a ProgID.

  Third-party code is a parameter: \<open>pf_local_time secs nanos\<close> is
  \<open>chrono::DateTime::from_timestamp(secs, nanos)\<close> followed by the formatting in the local
  time zone (\<open>None\<close> outside chrono's range), \<open>pf_debug_vt\<close> the \<open>\{:?\}\<close> of a \<open>VARENUM\<close>.
  Floating-point numbers are their IEEE 754 bits; the decimal formatting \<open>\{:.n\}\<close> prints the
  exact binary value rounded half to even, as \<open>core::fmt\<close> does.
\<close>

record platform =
  pf_local_time :: "int \<Rightarrow> nat \<Rightarrow> string option"
  pf_debug_vt :: "u16 \<Rightarrow> string"

section \<open>Floating-point numbers\<close>

text \<open>\<open>Finite s m e\<close> is m * 2\<open>^\<close>e, negated when \<open>s\<close> holds.\<close>

datatype float_value = NotANumber | Infinite bool | Finite bool nat int

definition decode_ieee :: "nat \<Rightarrow> nat \<Rightarrow> nat \<Rightarrow> float_value" where
  "decode_ieee exponent_bits fraction_bits n =
     (let negative = odd (n div 2 ^ (exponent_bits + fraction_bits));
          ex = n div 2 ^ fraction_bits mod 2 ^ exponent_bits;
          fr = n mod 2 ^ fraction_bits;
          bias = 2 ^ (exponent_bits - 1) - 1 + int fraction_bits
      in if ex = 2 ^ exponent_bits - 1 then (if fr = 0 then Infinite negative else NotANumber)
         else if ex = 0 then Finite negative fr (1 - bias)
         else Finite negative (2 ^ fraction_bits + fr) (int ex - bias))"

definition f32_value :: "u32 \<Rightarrow> float_value" where
  "f32_value w = decode_ieee 8 23 (unat w)"

definition f64_value :: "u64 \<Rightarrow> float_value" where
  "f64_value w = decode_ieee 11 52 (unat w)"

definition pad_zeros :: "nat \<Rightarrow> string \<Rightarrow> string" where
  "pad_zeros width s = replicate (width - length s) (CHR ''0'') @ s"

text \<open>\<open>\{:.n\}\<close>\<close>

definition show_fixed :: "nat \<Rightarrow> float_value \<Rightarrow> string" where
  "show_fixed digits v =
     (case v of
        NotANumber \<Rightarrow> ''NaN''
      | Infinite negative \<Rightarrow> (if negative then ''-inf'' else ''inf'')
      | Finite negative m e \<Rightarrow>
          let n = round_half_even (m * 10 ^ digits * 2 ^ nat e) (2 ^ nat (- e))
          in (if negative then ''-'' else []) @ show_nat (n div 10 ^ digits) @ ''.''
               @ pad_zeros digits (show_nat (n mod 10 ^ digits)))"

text \<open>
  Rounding to an \<open>f64\<close>: the significand keeps 53 bits, or fewer below the normal range. The
  two operations of \<open>ole_date_to_string\<close> are exact results rounded once each.
\<close>

fun bit_length :: "nat \<Rightarrow> nat" where
  "bit_length n = (if n = 0 then 0 else Suc (bit_length (n div 2)))"

declare bit_length.simps [simp del]

definition round_f64 :: "bool \<Rightarrow> nat \<Rightarrow> int \<Rightarrow> float_value" where
  "round_f64 negative m e =
     (let shift = max (int (bit_length m) - 53) (- 1074 - e)
      in if shift \<le> 0 then Finite negative m e
         else let m' = round_half_even m (2 ^ nat shift); e' = e + shift
              in if 971 < e' \<or> (e' = 971 \<and> 2 ^ 53 \<le> m') then Infinite negative
                 else Finite negative m' e')"

definition f64_sub_nat :: "float_value \<Rightarrow> nat \<Rightarrow> float_value" where
  "f64_sub_nat v k =
     (case v of
        Finite negative m e \<Rightarrow>
          let low = min e 0;
              a = (if negative then - int m else int m) * 2 ^ nat (e - low);
              d = a - int k * 2 ^ nat (- low)
          in round_f64 (d < 0) (nat \<bar>d\<bar>) low
      | _ \<Rightarrow> v)"

definition f64_mul_nat :: "float_value \<Rightarrow> nat \<Rightarrow> float_value" where
  "f64_mul_nat v k = (case v of Finite negative m e \<Rightarrow> round_f64 negative (m * k) e | _ \<Rightarrow> v)"

text \<open>\<open>as i64\<close>: toward zero, saturating, 0 for NaN.\<close>

definition f64_to_i64 :: "float_value \<Rightarrow> int" where
  "f64_to_i64 v =
     (case v of
        NotANumber \<Rightarrow> 0
      | Infinite negative \<Rightarrow> (if negative then - (2 ^ 63) else 2 ^ 63 - 1)
      | Finite negative m e \<Rightarrow>
          let n = int (m * 2 ^ nat e div 2 ^ nat (- e))
          in if negative then max (- n) (- (2 ^ 63)) else min n (2 ^ 63 - 1))"

section \<open>VARIANT\<close>

text \<open>
  A \<open>VARIANT\<close> is its \<open>vt\<close> word and its union. \<open>Bits\<close> holds the union's eight bytes, \<open>Bstr\<close>
  the text of the \<open>BSTR\<close> (decoded by the \<open>windows\<close> crate) and \<open>Parray\<close> the array pointer
  (\<open>None\<close> is null); the function reads the arm that \<open>vt\<close> names, which the caller guarantees to
  be the active one. A safe array has a number of dimensions, the bounds its functions report
  (\<open>None\<close> when they fail) and, when \<open>SafeArrayAccessData\<close> grants access, its elements:
  whole \<open>VARIANT\<close>s, or the payload that the raw bytes of an element amount to when they are
  copied into a zeroed union.
\<close>

datatype variant = Variant u16 variant_data
and variant_data = Bits u64 | Bstr string | Parray "safe_array option"
and safe_array = SafeArray u32 "u32 option" "u32 option" "array_elements option"
and array_elements = Variants "variant list" | Raw "variant_data list"

fun bits_of :: "variant_data \<Rightarrow> u64" where
  "bits_of (Bits w) = w"
| "bits_of _ = 0"

fun bstr_of :: "variant_data \<Rightarrow> string" where
  "bstr_of (Bstr t) = t"
| "bstr_of _ = []"

fun parray_of :: "variant_data \<Rightarrow> safe_array option" where
  "parray_of (Parray a) = a"
| "parray_of _ = None"

definition OLE_EPOCH_DAYS :: nat where "OLE_EPOCH_DAYS = 25569"

definition ole_date_to_string :: "platform \<Rightarrow> u64 \<Rightarrow> string" where
  "ole_date_to_string pf ole_date =
     (let v = f64_value ole_date;
          total_secs = f64_mul_nat (f64_sub_nat v OLE_EPOCH_DAYS) 86400
      in case pf_local_time pf (f64_to_i64 total_secs) 0 of
           Some t \<Rightarrow> t
         | None \<Rightarrow> show_fixed 6 v)"

definition show_bool :: "bool \<Rightarrow> string" where
  "show_bool b = (if b then ''true'' else ''false'')"

text \<open>\<open>VT_CY\<close>: 64-bit fixed point, scaled by 10000.\<close>

definition cy_to_string :: "u64 \<Rightarrow> string" where
  "cy_to_string w =
     (let raw = sint w; whole = raw sdiv 10000; frac = nat \<bar>raw smod 10000\<bar>
      in show_int whole @ ''.'' @ pad_zeros 4 (show_nat frac))"

definition scode_to_string :: "u32 \<Rightarrow> string" where
  "scode_to_string hr =
     (case friendly_hresult_hint hr of
        Some msg \<Rightarrow> ''Error: '' @ msg @ '' ('' @ hex8 hr @ '')''
      | None \<Rightarrow> ''Error ('' @ hex8 hr @ '')'')"

text \<open>The \<open>match vt.0\<close> of a variant that is no array.\<close>

definition scalar_to_string :: "platform \<Rightarrow> bool \<Rightarrow> u16 \<Rightarrow> variant_data \<Rightarrow> string" where
  "scalar_to_string pf quote_bstr vt d =
     (let w = bits_of d in
      if vt = 0 then ''Empty''
      else if vt = 1 then ''Null''
      else if vt = 2 then show_int (sint (ucast w :: u16))
      else if vt = 3 then show_int (sint (ucast w :: u32))
      else if vt = 4 then show_fixed 2 (f32_value (ucast w))
      else if vt = 5 then show_fixed 2 (f64_value w)
      else if vt = 6 then cy_to_string w
      else if vt = 7 then ole_date_to_string pf w
      else if vt = 8 then
        (if quote_bstr then [CHR 34] @ bstr_of d @ [CHR 34] else bstr_of d)
      else if vt = 10 then scode_to_string (ucast w)
      else if vt = 11 then show_bool ((ucast w :: u16) \<noteq> 0)
      else if vt = 16 then show_int (sint (ucast w :: 8 word))
      else if vt = 17 then show_nat (unat (ucast w :: 8 word))
      else if vt = 18 then show_nat (unat (ucast w :: u16))
      else if vt = 19 then show_nat (unat (ucast w :: u32))
      else if vt = 20 then show_int (sint w)
      else if vt = 21 then show_nat (unat w)
      else ''(VT '' @ pf_debug_vt pf vt @ '')'')"

text \<open>
  The number of elements of a one-dimensional array, in 32-bit arithmetic that wraps (the
  release build), and the text around the elements shown.
\<close>

definition array_count :: "u32 option \<Rightarrow> u32 option \<Rightarrow> nat" where
  "array_count lower upper =
     (let lb = (case lower of Some l \<Rightarrow> l | None \<Rightarrow> 0);
          ub = (case upper of Some u \<Rightarrow> u | None \<Rightarrow> - 1)
      in nat (max (sint (ub - lb + 1)) 0))"

definition MAX_DISPLAYED_ELEMENTS :: nat where "MAX_DISPLAYED_ELEMENTS = 20"

definition array_text :: "nat \<Rightarrow> string list \<Rightarrow> string" where
  "array_text count elements =
     ''['' @ join '', '' elements @ (if MAX_DISPLAYED_ELEMENTS < count then '', ...'' else []) @ '']''"

definition VT_ARRAY_FLAG :: u16 where "VT_ARRAY_FLAG = 0x2000"
definition VT_VARIANT :: u16 where "VT_VARIANT = 12"

text \<open>
  \<open>variant_to_string_with_bstr_quotes\<close>. The elements of an array of \<open>VARIANT\<close>s may be arrays
  themselves; the element type of any other array has no array flag left.
\<close>

lemma size_taken: "x \<in> set (take k xs) \<Longrightarrow> size x \<le> size_list size xs"
  by (drule in_set_takeD, erule size_list_estimation') simp

lemma size_nested_variant:
  "parray_of d = Some (SafeArray n l u (Some (Variants vs))) \<Longrightarrow> v \<in> set (take k vs) \<Longrightarrow> size v < Suc (size d)"
  by (cases d) (auto dest!: size_taken)

lemma size_raw_cell:
  "parray_of d = Some (SafeArray n l u (Some (Raw cs))) \<Longrightarrow> c \<in> set (take k cs) \<Longrightarrow> size c < size d"
  by (cases d) (auto dest!: size_taken)

function variant_to_string_with_bstr_quotes :: "platform \<Rightarrow> bool \<Rightarrow> variant \<Rightarrow> string" where
  "variant_to_string_with_bstr_quotes pf quote_bstr (Variant vt d) =
     (let base_type = (and) vt 0x0FFF in
      if (and) vt VT_ARRAY_FLAG \<noteq> 0 then
        (case parray_of d of
           None \<Rightarrow> ''Array[?]''
         | Some (SafeArray dims lower upper contents) \<Rightarrow>
             if dims = 0 then ''Array[0]''
             else if dims = 1 then
               (let count = array_count lower upper
                in array_text count
                     (case contents of
                        Some (Variants vars) \<Rightarrow>
                          if base_type = VT_VARIANT then
                            map (\<lambda>v. variant_to_string_with_bstr_quotes pf quote_bstr v)
                              (take (min count MAX_DISPLAYED_ELEMENTS) vars)
                          else []
                      | Some (Raw cells) \<Rightarrow>
                          if base_type = VT_VARIANT then []
                          else map (\<lambda>c. variant_to_string_with_bstr_quotes pf quote_bstr (Variant base_type c))
                                 (take (min count MAX_DISPLAYED_ELEMENTS) cells)
                      | None \<Rightarrow> []))
             else ''Array['' @ show_nat (unat dims) @ ''D]'')
      else scalar_to_string pf quote_bstr vt d)"
  by pat_completeness auto

termination variant_to_string_with_bstr_quotes
proof (relation "measure (\<lambda>(pf, quote_bstr, v). size v)")
qed (auto dest: size_nested_variant size_raw_cell)

declare variant_to_string_with_bstr_quotes.simps [simp del]

lemma variant_scalar:
  "(and) vt VT_ARRAY_FLAG = 0 \<Longrightarrow>
   variant_to_string_with_bstr_quotes pf quote_bstr (Variant vt d) = scalar_to_string pf quote_bstr vt d"
  by (subst variant_to_string_with_bstr_quotes.simps) simp

definition variant_to_string :: "platform \<Rightarrow> variant \<Rightarrow> string" where
  "variant_to_string pf v = variant_to_string_with_bstr_quotes pf False v"

definition variant_to_display_string :: "platform \<Rightarrow> variant \<Rightarrow> string" where
  "variant_to_display_string pf v = variant_to_string_with_bstr_quotes pf True v"

definition opc_value_to_variant :: "opc_value \<Rightarrow> variant" where
  "opc_value_to_variant v =
     (case v of
        VString s \<Rightarrow> Variant 8 (Bstr s)
      | VInt i \<Rightarrow> Variant 3 (Bits (ucast i))
      | VFloat f \<Rightarrow> Variant 5 (Bits f)
      | VBool b \<Rightarrow> Variant 11 (Bits (ucast (if b then - 1 else 0 :: u16))))"

section \<open>Quality and time\<close>

definition quality_to_string :: "u16 \<Rightarrow> string" where
  "quality_to_string quality =
     (let bits = (and) quality 0xC0
      in if bits = 0xC0 then ''Good''
         else if bits = 0 then ''Bad''
         else if bits = 0x40 then ''Uncertain''
         else ''Unknown(0x'' @ hex_fixed 4 (unat quality) @ '')'')"

text \<open>\<open>dwHighDateTime\<close> and \<open>dwLowDateTime\<close> of a \<open>FILETIME\<close>.\<close>

record filetime =
  ft_high :: u32
  ft_low :: u32

definition filetime_to_string :: "platform \<Rightarrow> filetime \<Rightarrow> string" where
  "filetime_to_string pf ft =
     (if ft_high ft = 0 \<and> ft_low ft = 0 then ''N/A''
      else let intervals = (or) (push_bit 32 (ucast (ft_high ft) :: u64)) (ucast (ft_low ft));
               unix_secs = sat_sub (intervals div 10000000) 11644473600;
               nanos = ucast (intervals mod 10000000 * 100) :: u32
           in case pf_local_time pf (sint unix_secs) (unat nanos) of
                Some t \<Rightarrow> t
              | None \<Rightarrow> ''Invalid'')"

section \<open>ProgIDs\<close>

text \<open>
  \<open>progid_from_clsid\<close> and \<open>clsid_from_progid\<close> are the Windows calls, \<open>create_server\<close> the
  creation of the COM object. The text of a failed call is part of its error.
\<close>

definition guid_to_progid :: "('g \<Rightarrow> string + pwstr) \<Rightarrow> 'g \<Rightarrow> opc_error + string" where
  "guid_to_progid progid_from_clsid guid =
     (case progid_from_clsid guid of
        Inl e \<Rightarrow> Inl (Internal (''Failed to get ProgID from CLSID: '' @ e))
      | Inr PNull \<Rightarrow> Inr []
      | Inr (PText t) \<Rightarrow> Inr t
      | Inr (PBad code e) \<Rightarrow> Inl (Conversion (''Failed into convert PWSTR: '' @ e)))"

definition connect_server ::
  "(string \<Rightarrow> string + 'g) \<Rightarrow> ('g \<Rightarrow> ('w, opc_error, 'v) prog) \<Rightarrow> string \<Rightarrow> ('w, opc_error, 'v) prog" where
  "connect_server clsid_from_progid create_server server_name =
     (case clsid_from_progid server_name of
        Inl e \<Rightarrow> throw (Connection (''Failed to resolve ProgID '' @ [CHR 39] @ server_name @ [CHR 39] @
                   '' to CLSID: '' @ e))
      | Inr clsid \<Rightarrow> create_server clsid)"

section \<open>Reading decimal text back\<close>

definition digits_value :: "string \<Rightarrow> nat" where
  "digits_value s = foldl (\<lambda>n c. 10 * n + (of_char c - 48)) 0 s"

lemma digits_value_snoc: "digits_value (s @ [c]) = 10 * digits_value s + (of_char c - 48)"
  by (simp add: digits_value_def)

lemma of_char_digit: "d < 10 \<Longrightarrow> (of_char (char_of (48 + d) :: char) :: nat) = 48 + d"
  by (simp add: take_bit_eq_mod)

lemma show_nat_cases:
  "show_nat n = (if n < 10 then [] else show_nat (n div 10)) @ [char_of (48 + n mod 10)]"
  by (subst show_nat.simps) simp

lemma digits_value_show_nat: "digits_value (show_nat n) = n"
proof (induction n rule: less_induct)
  case (less n)
  show ?case
  proof (cases "n < 10")
    case True
    then show ?thesis by (simp add: show_nat_cases[of n] digits_value_def of_char_digit)
  next
    case False
    with less[of "n div 10"] show ?thesis
      by (subst show_nat_cases) (simp add: digits_value_snoc of_char_digit)
  qed
qed

lemma digits_value_padded: "digits_value (pad_zeros width s) = digits_value s"
proof -
  have "foldl (\<lambda>n c. 10 * n + (of_char c - 48)) 0 (replicate k (CHR ''0'')) = (0 :: nat)" for k
    by (induction k) simp_all
  then show ?thesis by (simp add: pad_zeros_def digits_value_def)
qed

lemma show_nat_length: "n < 10 ^ k \<Longrightarrow> 0 < k \<Longrightarrow> length (show_nat n) \<le> k"
proof (induction k arbitrary: n)
  case (Suc k)
  show ?case
  proof (cases "n < 10")
    case True
    then show ?thesis by (simp add: show_nat_cases[of n])
  next
    case False
    with Suc.prems have "n div 10 < 10 ^ k" by (simp add: less_mult_imp_div_less mult.commute)
    moreover from this False have "0 < k" by (cases k) auto
    ultimately have "length (show_nat (n div 10)) \<le> k" by (rule Suc.IH)
    with False show ?thesis by (simp add: show_nat_cases[of n])
  qed
qed simp

lemma pad_zeros_length: "length s \<le> width \<Longrightarrow> length (pad_zeros width s) = width"
  by (simp add: pad_zeros_def)

lemma show_nat_inject: "show_nat a = show_nat b \<longleftrightarrow> a = b"
  by (metis digits_value_show_nat)

lemma show_nat_no_minus: "CHR ''-'' \<notin> set (show_nat n)"
proof (induction n rule: less_induct)
  case (less n)
  have "CHR ''-'' \<noteq> (char_of (48 + n mod 10) :: char)"
  proof
    assume "CHR ''-'' = (char_of (48 + n mod 10) :: char)"
    then have "(of_char (CHR ''-'') :: nat) = 48 + n mod 10"
      using of_char_digit[of "n mod 10"] by simp
    then show False by simp
  qed
  with less[of "n div 10"] show ?case
    by (auto simp: show_nat_cases[of n])
qed

lemma show_int_inject: "show_int a = show_int b \<longleftrightarrow> a = b"
proof
  assume eq: "show_int a = show_int b"
  have "CHR ''-'' \<in> set (show_int a) \<longleftrightarrow> a < 0" for a
    by (simp add: show_int_def show_nat_no_minus)
  with eq have "a < 0 \<longleftrightarrow> b < 0" by metis
  with eq show "a = b"
    by (auto simp: show_int_def show_nat_inject split: if_splits)
qed simp

lemma signed_parts:
  fixes a :: int
  shows "\<bar>a sdiv 10000\<bar> = \<bar>a\<bar> div 10000" and "\<bar>a smod 10000\<bar> = \<bar>a\<bar> mod 10000"
    and "(- a) sdiv 10000 = - (a sdiv 10000)"
  by (auto simp: signed_divide_int_def signed_modulo_int_def abs_mult sgn_if)

lemma quotient_sign:
  fixes a b :: int
  shows "a sdiv 10000 = b sdiv 10000 \<and> nat \<bar>a smod 10000\<bar> = nat \<bar>b smod 10000\<bar>
    \<longleftrightarrow> a = b \<or> \<bar>a\<bar> < 10000 \<and> b = - a"
proof
  assume eq: "a sdiv 10000 = b sdiv 10000 \<and> nat \<bar>a smod 10000\<bar> = nat \<bar>b smod 10000\<bar>"
  then have "\<bar>a\<bar> div 10000 = \<bar>b\<bar> div 10000" and "\<bar>a\<bar> mod 10000 = \<bar>b\<bar> mod 10000"
    by (simp_all add: eq_nat_nat_iff flip: signed_parts)
  then have "\<bar>a\<bar> = \<bar>b\<bar>" by (metis div_mult_mod_eq)
  then consider "a = b" | "b = - a" "a \<noteq> 0" by linarith
  then show "a = b \<or> \<bar>a\<bar> < 10000 \<and> b = - a"
  proof cases
    case 2
    with eq have "a sdiv 10000 = 0" by (simp add: signed_parts(3))
    then have "\<bar>a\<bar> div 10000 = 0" by (simp flip: signed_parts(1))
    with 2 show ?thesis by (simp add: zdiv_eq_0_iff)
  qed simp
next
  assume "a = b \<or> \<bar>a\<bar> < 10000 \<and> b = - a"
  moreover have "a sdiv 10000 = 0" if "\<bar>a\<bar> < 10000"
    using that signed_parts(1)[of a] by simp
  ultimately show "a sdiv 10000 = b sdiv 10000 \<and> nat \<bar>a smod 10000\<bar> = nat \<bar>b smod 10000\<bar>"
    by (auto simp: signed_parts)
qed

lemma sint_of_small: "uint (x :: u64) < 2 ^ 63 \<Longrightarrow> sint x = uint x"
  by (simp only: sint_uint, rule signed_take_bit_int_eq_self)
    (auto intro: order_trans[OF _ unsigned_greater_eq])

lemma intervals_disjoint: "(and) (push_bit 32 (ucast hi :: u64)) (ucast (lo :: u32)) = 0"
  by (rule bit_word_eqI) (auto simp: bit_simps dest: bit_imp_le_length)

section \<open>Properties\<close>


text \<open>
  The text of a currency value determines the value except below one unit, where the
  sign is lost: two values share a text exactly when they are equal, or opposite with a whole
  part of zero.
\<close>

theorem currency_text_determines_value:
  "cy_to_string x = cy_to_string y \<longleftrightarrow> x = y \<or> \<bar>sint x\<bar> < 10000 \<and> sint y = - sint x"
proof -
  let ?w = "\<lambda>x. sint x sdiv 10000" and ?f = "\<lambda>x. nat \<bar>sint x smod 10000\<bar>"
  have len: "length (pad_zeros 4 (show_nat (?f x))) = 4" for x :: u64
    by (rule pad_zeros_length, rule show_nat_length) (simp_all add: signed_parts)
  have "cy_to_string x = cy_to_string y \<longleftrightarrow>
      show_int (?w x) = show_int (?w y) \<and> pad_zeros 4 (show_nat (?f x)) = pad_zeros 4 (show_nat (?f y))"
    using len[of x] len[of y] by (auto simp: cy_to_string_def Let_def)
  also have "\<dots> \<longleftrightarrow> ?w x = ?w y \<and> ?f x = ?f y"
    by (metis show_int_inject digits_value_padded digits_value_show_nat)
  also have "\<dots> \<longleftrightarrow> sint x = sint y \<or> \<bar>sint x\<bar> < 10000 \<and> sint y = - sint x"
    by (rule quotient_sign)
  finally show ?thesis by (simp only: word_eq_iff_signed[where 'a = int and v = x])
qed

text \<open>
  C36. A nonzero \<open>FILETIME\<close> of t intervals of 100 ns is shown as the local time of the exact
  instant when it is not before 1970; the seconds of an earlier one are clamped to 0. Nothing
  overflows for any of the 2^64 values.
\<close>

theorem filetime_decodes_exactly:
  "let t = unat (ft_high ft) * 2 ^ 32 + unat (ft_low ft)
   in filetime_to_string pf ft =
        (if t = 0 then ''N/A''
         else case pf_local_time pf (int (t div 10000000 - 11644473600)) (t mod 10000000 * 100) of
                Some s \<Rightarrow> s | None \<Rightarrow> ''Invalid'')"
proof -
  let ?hi = "ft_high ft" and ?lo = "ft_low ft"
  let ?t = "unat ?hi * 2 ^ 32 + unat ?lo"
  let ?iv = "(or) (push_bit 32 (ucast ?hi :: u64)) (ucast ?lo)"
  have "?t < 2 ^ 64" using unsigned_less[where ?'a = nat, of ?hi] unsigned_less[where ?'a = nat, of ?lo] by simp
  moreover have ofn: "?iv = of_nat ?t"
    by (subst disjunctive_add_eq_or[OF intervals_disjoint, symmetric]) (simp add: push_bit_eq_mult)
  ultimately have iv: "unat ?iv = ?t"
    by (simp only: ofn unat_of_nat) simp
  have zero: "(?hi = 0 \<and> ?lo = 0) = (?t = 0)" by (simp add: unat_eq_0)
  let ?secs = "sat_sub (?iv div 10000000) 11644473600"
  have secs: "unat ?secs = ?t div 10000000 - 11644473600"
    by (simp add: unat_sat_sub unat_div iv)
  moreover have "?t div 10000000 - 11644473600 < 2 ^ 63" using \<open>?t < 2 ^ 64\<close> by simp
  ultimately have small: "uint ?secs < 2 ^ 63" by (simp add: uint_nat)
  then have "sint ?secs = uint ?secs" by (rule sint_of_small)
  then have "sint ?secs = int (?t div 10000000 - 11644473600)" by (simp only: uint_nat secs)
  moreover have "unat (ucast (?iv mod 10000000 * 100) :: u32) = ?t mod 10000000 * 100"
    by (simp add: unsigned_ucast_eq unsigned_take_bit_eq take_bit_eq_mod unat_word_ariths unat_mod iv)
  ultimately show ?thesis
    unfolding Let_def filetime_to_string_def zero by simp
qed

end
