(* ===== verification/ReadWrite.thy ===== *)
theory ReadWrite
  imports Helpers
begin

text \<open>
  Reading and writing tags: \<open>com_worker/read.rs\<close> and \<open>com_worker/write.rs\<close>, with the group
  operations of the facade (\<open>opc_da/client/traits/server.rs\<close>, \<open>item_mgt.rs\<close>,
  \<open>sync_io.rs\<close>) and the COM arrays they return (\<open>opc_da/com_utils.rs\<close>).

  \<open>opc_server\<close> extends the server of \<open>Connector\<close> with the COM methods of groups; a
  \<open>HRESULT\<close> array or item array that a call returns is its memory, or \<open>None\<close> for a null
  pointer. \<open>group_server\<close> states what OPC DA 2.05 (4.5.2) documents about the groups that exist.
  A panic ends the worker thread: the program does not return.
\<close>

section \<open>COM arrays\<close>

record 'a remote_array =
  ra_pointer :: "'a list option"
  ra_len :: u32

definition ra_as_slice :: "'a remote_array \<Rightarrow> 'a list" where
  "ra_as_slice r = (case ra_pointer r of
       None \<Rightarrow> []
     | Some xs \<Rightarrow> if ra_len r = 0 then [] else take (unat (ra_len r)) xs)"

definition ra_count :: "'a remote_array \<Rightarrow> u32" where
  "ra_count r = (case ra_pointer r of None \<Rightarrow> 0 | Some _ \<Rightarrow> ra_len r)"

text \<open>\<open>len().try_into()?\<close> to a \<open>u32\<close>.\<close>

definition u32_len :: "'a list \<Rightarrow> opc_error + u32" where
  "u32_len xs = (if unat (of_nat (length xs) :: u32) = length xs then Inr (of_nat (length xs))
     else Inl (Conversion ''Integer conversion error: out of range integral type conversion attempted''))"

section \<open>Groups of a server\<close>

text \<open>
  An item definition (its other fields are null or zero), an item state, and the server:
  \<open>os_AddGroup name active rate client\<close> yields the server's handle and the group, or null, or
  a group whose required interfaces are missing.
\<close>

record item_def =
  id_item_id :: string
  id_active :: bool
  id_client :: u32

record item_state =
  is_value :: variant
  is_quality :: u16
  is_time :: filetime

record ('w, 'h, 'g) opc_server = "('w, 'h) com_server" +
  os_AddGroup :: "string \<Rightarrow> bool \<Rightarrow> u32 \<Rightarrow> u32 \<Rightarrow> ('w, opc_error, (opc_error + 'g) option \<times> u32) prog"
  os_RemoveGroup :: "u32 \<Rightarrow> bool \<Rightarrow> ('w, opc_error, unit) prog"
  os_AddItems :: "'g \<Rightarrow> item_def list \<Rightarrow> ('w, opc_error, u32 list option \<times> u32 list option) prog"
  os_Read :: "'g \<Rightarrow> u32 \<Rightarrow> u32 list \<Rightarrow> ('w, opc_error, item_state list option \<times> u32 list option) prog"
  os_Write :: "'g \<Rightarrow> u32 list \<Rightarrow> variant list \<Rightarrow> ('w, opc_error, u32 list option) prog"

definition add_group ::
  "('w, 'h, 'g) opc_server \<Rightarrow> string \<Rightarrow> bool \<Rightarrow> u32 \<Rightarrow> u32 \<Rightarrow> ('w, opc_error, 'g \<times> u32) prog" where
  "add_group sv name active update_rate client_handle =
     bindp (os_AddGroup sv name active update_rate client_handle) (\<lambda>(grp, server_handle).
       case grp of
         None \<Rightarrow> throw (Com E_POINTER ''Failed to add group, returned null'')
       | Some r \<Rightarrow> bindp (lift_result r) (\<lambda>g. ret (g, server_handle)))"

definition remove_group :: "('w, 'h, 'g) opc_server \<Rightarrow> u32 \<Rightarrow> bool \<Rightarrow> ('w, opc_error, unit) prog" where
  "remove_group sv server_handle force = os_RemoveGroup sv server_handle force"

definition add_items ::
  "('w, 'h, 'g) opc_server \<Rightarrow> 'g \<Rightarrow> item_def list
     \<Rightarrow> ('w, opc_error, u32 remote_array \<times> u32 remote_array) prog" where
  "add_items sv g items =
     (if items = [] then throw (InvalidState ''items cannot be empty'')
      else bindp (lift_result (u32_len items)) (\<lambda>n.
           bindp (os_AddItems sv g items) (\<lambda>(results, errors).
           ret (\<lparr>ra_pointer = results, ra_len = n\<rparr>, \<lparr>ra_pointer = errors, ra_len = n\<rparr>))))"

definition read_items ::
  "('w, 'h, 'g) opc_server \<Rightarrow> 'g \<Rightarrow> u32 \<Rightarrow> u32 list
     \<Rightarrow> ('w, opc_error, item_state remote_array \<times> u32 remote_array) prog" where
  "read_items sv g source server_handles =
     (if server_handles = [] then throw (InvalidState ''server_handles cannot be empty'')
      else bindp (lift_result (u32_len server_handles)) (\<lambda>n.
           bindp (os_Read sv g source server_handles) (\<lambda>(item_values, errors).
           ret (\<lparr>ra_pointer = item_values, ra_len = n\<rparr>, \<lparr>ra_pointer = errors, ra_len = n\<rparr>))))"

definition write_items ::
  "('w, 'h, 'g) opc_server \<Rightarrow> 'g \<Rightarrow> u32 list \<Rightarrow> variant list \<Rightarrow> ('w, opc_error, u32 remote_array) prog" where
  "write_items sv g server_handles vals =
     (if length server_handles \<noteq> length vals then
        throw (InvalidState ''server_handles and values must have the same length'')
      else if server_handles = [] then throw (InvalidState ''server_handles cannot be empty'')
      else bindp (lift_result (u32_len server_handles)) (\<lambda>n.
           bindp (os_Write sv g server_handles vals) (\<lambda>errors.
           ret \<lparr>ra_pointer = errors, ra_len = n\<rparr>)))"

text \<open>Removing the group at the end only logs a failure.\<close>

definition discard_group :: "('w, 'h, 'g) opc_server \<Rightarrow> u32 \<Rightarrow> ('w, opc_error, unit) prog" where
  "discard_group sv server_handle = bindp (attempt (remove_group sv server_handle True)) (\<lambda>_. ret ())"

section \<open>Reading\<close>

datatype read_presentation = Semantic | Display

definition bad_quality :: "string \<Rightarrow> string" where
  "bad_quality reason = ''Bad '' @ em_dash @ '' '' @ reason"

definition unread_value :: "string \<Rightarrow> tag_value" where
  "unread_value tag_id = \<lparr>tv_tag_id = tag_id, tv_value = ''Error'',
     tv_quality = bad_quality ''not added to group'', tv_timestamp = []\<rparr>"

definition item_defs :: "string list \<Rightarrow> item_def list" where
  "item_defs tag_ids = map (\<lambda>(idx, tag_id). \<lparr>id_item_id = tag_id, id_active = True, id_client = of_nat idx\<rparr>)
     (enumerate 0 tag_ids)"

text \<open>
  The loop over the results of \<open>add_items\<close>: the handles of the accepted tags, their indices,
  and the values with the quality of the rejected ones filled in.
\<close>

fun sort_added ::
  "nat \<Rightarrow> (u32 \<times> u32) list \<Rightarrow> tag_value list \<Rightarrow> u32 list \<times> nat list \<times> tag_value list" where
  "sort_added idx [] tag_values = ([], [], tag_values)"
| "sort_added idx ((server_handle, error) # rs) tag_values =
     (if hresult_is_ok error then
        (case sort_added (idx + 1) rs tag_values of
           (server_handles, valid_indices, tag_values) \<Rightarrow>
             (server_handle # server_handles, idx # valid_indices, tag_values))
      else sort_added (idx + 1) rs
        (tag_values[idx := (tag_values ! idx)\<lparr>tv_quality := bad_quality (format_hresult error)\<rparr>]))"

definition read_value :: "platform \<Rightarrow> read_presentation \<Rightarrow> string \<Rightarrow> item_state \<Rightarrow> u32 \<Rightarrow> tag_value" where
  "read_value pf presentation tag_id state read_error =
     (case (if hresult_is_ok read_error then
              (case presentation of
                 Semantic \<Rightarrow> variant_to_string pf (is_value state)
               | Display \<Rightarrow> variant_to_display_string pf (is_value state),
               quality_to_string (is_quality state))
            else (''Error'', bad_quality (format_hresult read_error))) of
        (value_str, quality_str) \<Rightarrow>
          \<lparr>tv_tag_id = tag_id, tv_value = value_str, tv_quality = quality_str,
           tv_timestamp = filetime_to_string pf (is_time state)\<rparr>)"

text \<open>
  The loop over the accepted tags; \<open>i\<close> counts them. Indexing past the end of a slice panics
  (\<open>None\<close>).
\<close>

fun store_read ::
  "platform \<Rightarrow> read_presentation \<Rightarrow> string list \<Rightarrow> item_state list \<Rightarrow> u32 list \<Rightarrow> nat \<Rightarrow> nat list
     \<Rightarrow> tag_value list \<Rightarrow> tag_value list option" where
  "store_read pf presentation tag_ids states errors i [] tag_values = Some tag_values"
| "store_read pf presentation tag_ids states errors i (idx # idxs) tag_values =
     (if i < length states \<and> i < length errors then
        store_read pf presentation tag_ids states errors (i + 1) idxs
          (tag_values[idx := read_value pf presentation (tag_ids ! idx) (states ! i) (errors ! i)])
      else None)"

definition OPC_DS_DEVICE :: u32 where "OPC_DS_DEVICE = 2"

text \<open>What \<open>handle_read\<close> does with its group.\<close>

definition read_in_group ::
  "platform \<Rightarrow> string list \<Rightarrow> read_presentation \<Rightarrow> ('w, 'h, 'g) opc_server \<Rightarrow> 'g \<Rightarrow> u32
     \<Rightarrow> ('w, opc_error, tag_value list) prog" where
  "read_in_group pf tag_ids presentation sv grp server_handle =
     bindp (add_items sv grp (item_defs tag_ids)) (\<lambda>(results, errors).
     if unat (ra_count results) \<noteq> length tag_ids \<or> unat (ra_count errors) \<noteq> length tag_ids then
       seqp (discard_group sv server_handle)
         (throw (Internal ''OPC server returned mismatched result array sizes''))
     else
       case sort_added 0 (zip (ra_as_slice results) (ra_as_slice errors)) (map unread_value tag_ids) of
         (server_handles, valid_indices, tag_values) \<Rightarrow>
           if server_handles = [] then seqp (discard_group sv server_handle) (ret tag_values)
           else
             bindp (read_items sv grp OPC_DS_DEVICE server_handles) (\<lambda>(item_states, read_errors).
             case store_read pf presentation tag_ids (ra_as_slice item_states) (ra_as_slice read_errors) 0
                    valid_indices tag_values of
               None \<Rightarrow> diverge
             | Some tag_values \<Rightarrow> seqp (discard_group sv server_handle) (ret tag_values)))"

definition handle_read ::
  "platform \<Rightarrow> string list \<Rightarrow> read_presentation \<Rightarrow> ('w, 'h, 'g) opc_server
     \<Rightarrow> ('w, opc_error, tag_value list) prog" where
  "handle_read pf tag_ids presentation sv =
     bindp (add_group sv ''opc-da-client-read'' True 1000 0) (\<lambda>(grp, server_handle).
       read_in_group pf tag_ids presentation sv grp server_handle)"

section \<open>Writing\<close>

definition first_or :: "string \<Rightarrow> 'a list \<Rightarrow> opc_error + 'a" where
  "first_or message xs = (case xs of [] \<Rightarrow> Inl (Internal message) | x # _ \<Rightarrow> Inr x)"

text \<open>What \<open>handle_write\<close> does with its group.\<close>

definition write_in_group ::
  "string \<Rightarrow> opc_value \<Rightarrow> ('w, 'h, 'g) opc_server \<Rightarrow> 'g \<Rightarrow> u32 \<Rightarrow> ('w, opc_error, write_result) prog" where
  "write_in_group tag_id val sv grp server_handle =
     bindp (add_items sv grp [\<lparr>id_item_id = tag_id, id_active = True, id_client = 0\<rparr>]) (\<lambda>(results, errors).
     bindp (lift_result (first_or ''Server returned empty item results'' (ra_as_slice results))) (\<lambda>item_res.
     bindp (lift_result (first_or ''Server returned empty item errors'' (ra_as_slice errors))) (\<lambda>item_err.
     if \<not> hresult_is_ok item_err then
       seqp (discard_group sv server_handle)
         (ret \<lparr>wr_tag_id = tag_id, wr_success = False,
               wr_error = Some (''Failed to add tag: '' @ format_hresult item_err)\<rparr>)
     else
       bindp (write_items sv grp [item_res] [opc_value_to_variant val]) (\<lambda>write_errors.
       bindp (lift_result (first_or ''Server returned empty write errors'' (ra_as_slice write_errors))) (\<lambda>write_err.
       seqp (discard_group sv server_handle)
         (ret (if hresult_is_ok write_err then \<lparr>wr_tag_id = tag_id, wr_success = True, wr_error = None\<rparr>
               else \<lparr>wr_tag_id = tag_id, wr_success = False, wr_error = Some (format_hresult write_err)\<rparr>)))))))"

definition handle_write ::
  "string \<Rightarrow> opc_value \<Rightarrow> ('w, 'h, 'g) opc_server \<Rightarrow> ('w, opc_error, write_result) prog" where
  "handle_write tag_id val sv =
     bindp (add_group sv ''opc-da-client-write'' True 1000 0) (\<lambda>(grp, server_handle).
       write_in_group tag_id val sv grp server_handle)"

section \<open>The read loops against a recursive specification\<close>

text \<open>One value per tag, in order; the states come in the order of the accepted tags.\<close>

fun read_spec ::
  "platform \<Rightarrow> read_presentation \<Rightarrow> string list \<Rightarrow> u32 list \<Rightarrow> item_state list \<Rightarrow> u32 list \<Rightarrow> tag_value list" where
  "read_spec pf presentation (tag # tags) (error # errors) states read_errors =
     (if hresult_is_ok error then
        read_value pf presentation tag (hd states) (hd read_errors)
          # read_spec pf presentation tags errors (tl states) (tl read_errors)
      else (unread_value tag)\<lparr>tv_quality := bad_quality (format_hresult error)\<rparr>
          # read_spec pf presentation tags errors states read_errors)"
| "read_spec pf presentation _ _ states read_errors = []"

fun accepted_handles :: "u32 list \<Rightarrow> u32 list \<Rightarrow> u32 list" where
  "accepted_handles (h # hs) (e # es) =
     (if hresult_is_ok e then h # accepted_handles hs es else accepted_handles hs es)"
| "accepted_handles _ _ = []"

fun accepted_indices :: "nat \<Rightarrow> u32 list \<Rightarrow> nat list" where
  "accepted_indices n [] = []"
| "accepted_indices n (e # es) =
     (if hresult_is_ok e then n # accepted_indices (n + 1) es else accepted_indices (n + 1) es)"

fun after_adding :: "string list \<Rightarrow> u32 list \<Rightarrow> tag_value list" where
  "after_adding (t # ts) (e # es) =
     (if hresult_is_ok e then unread_value t
      else (unread_value t)\<lparr>tv_quality := bad_quality (format_hresult e)\<rparr>) # after_adding ts es"
| "after_adding _ _ = []"

lemma sort_added_spec:
  "length hs = length es \<Longrightarrow> length ts = length es \<Longrightarrow> length pre = n \<Longrightarrow>
   sort_added n (zip hs es) (pre @ map unread_value ts)
     = (accepted_handles hs es, accepted_indices n es, pre @ after_adding ts es)"
proof (induction hs es arbitrary: ts pre n rule: list_induct2)
  case (Cons h hs e es)
  then obtain t ts' where ts: "ts = t # ts'" by (cases ts) auto
  let ?v = "if hresult_is_ok e then unread_value t
      else (unread_value t)\<lparr>tv_quality := bad_quality (format_hresult e)\<rparr>"
  have "sort_added (Suc n) (zip hs es) ((pre @ [?v]) @ map unread_value ts')
      = (accepted_handles hs es, accepted_indices (Suc n) es, (pre @ [?v]) @ after_adding ts' es)"
    by (rule Cons.IH) (use Cons.prems ts in auto)
  with Cons.prems(2) show ?case
    by (auto simp: ts list_update_append nth_append)
qed simp

lemma accepted_lengths: "length hs = length es \<Longrightarrow> length (accepted_handles hs es) = length (accepted_indices n es)"
  by (induction hs es arbitrary: n rule: list_induct2) auto

lemma accepted_le: "length (accepted_handles hs es) \<le> length es"
  by (induction hs es rule: accepted_handles.induct) auto

lemma store_read_spec:
  "length ts = length es \<Longrightarrow> length pre = n \<Longrightarrow> length pretags = n \<Longrightarrow>
   i + length (accepted_indices n es) \<le> length sts \<Longrightarrow> i + length (accepted_indices n es) \<le> length rs \<Longrightarrow>
   store_read pf p (pretags @ ts) sts rs i (accepted_indices n es) (pre @ after_adding ts es)
     = Some (pre @ read_spec pf p ts es (drop i sts) (drop i rs))"
proof (induction ts es arbitrary: pre pretags n i rule: list_induct2)
  case (Cons t ts e es)
  let ?v = "if hresult_is_ok e then read_value pf p t (sts ! i) (rs ! i)
      else (unread_value t)\<lparr>tv_quality := bad_quality (format_hresult e)\<rparr>"
  let ?i = "if hresult_is_ok e then Suc i else i"
  have "store_read pf p ((pretags @ [t]) @ ts) sts rs ?i (accepted_indices (Suc n) es) ((pre @ [?v]) @ after_adding ts es)
     = Some ((pre @ [?v]) @ read_spec pf p ts es (drop ?i sts) (drop ?i rs))"
    by (rule Cons.IH) (use Cons.prems in \<open>auto split: if_splits\<close>)
  with Cons.prems show ?case
    by (auto simp: list_update_append nth_append hd_drop_conv_nth drop_Suc tl_drop split: if_splits)
qed simp

lemma read_spec_tags: "length ts = length es \<Longrightarrow> map tv_tag_id (read_spec pf p ts es sts rs) = ts"
  by (induction pf p ts es sts rs rule: read_spec.induct) (auto simp: read_value_def unread_value_def Let_def)

lemma ra_full: "length xs = unat n \<Longrightarrow> ra_as_slice \<lparr>ra_pointer = Some xs, ra_len = n\<rparr> = xs"
  by (auto simp: ra_as_slice_def)

lemma u32_len_ok: "length xs < 2 ^ 32 \<Longrightarrow> u32_len xs = Inr (of_nat (length xs))"
  by (simp add: u32_len_def unat_of_nat)

lemma unat_length: "length xs < 2 ^ 32 \<Longrightarrow> unat (of_nat (length xs) :: u32) = length xs"
  by (simp add: unat_of_nat)

lemma length_item_defs: "length (item_defs tags) = length tags"
  by (simp add: item_defs_def)

section \<open>The groups that exist\<close>

definition group_server :: "('w, 'h, 'g) opc_server \<Rightarrow> ('w \<Rightarrow> u32 set) \<Rightarrow> bool" where
  "group_server sv grps \<longleftrightarrow>
     (\<forall>n a r c w x w'. os_AddGroup sv n a r c w = Some (x, w') \<longrightarrow>
        (case x of Inr (_, h) \<Rightarrow> h \<notin> grps w \<and> grps w' = insert h (grps w) | Inl _ \<Rightarrow> grps w' = grps w)) \<and>
     (\<forall>h f w x w'. os_RemoveGroup sv h f w = Some (x, w') \<longrightarrow>
        grps w' = (case x of Inr _ \<Rightarrow> grps w - {h} | Inl _ \<Rightarrow> grps w)) \<and>
     (\<forall>g items. keeps grps (os_AddItems sv g items)) \<and>
     (\<forall>g s hs. keeps grps (os_Read sv g s hs)) \<and>
     (\<forall>g hs vs. keeps grps (os_Write sv g hs vs))"

definition removals_succeed :: "('w, 'h, 'g) opc_server \<Rightarrow> bool" where
  "removals_succeed sv \<longleftrightarrow> (\<forall>h f w x w'. os_RemoveGroup sv h f w = Some (x, w') \<longrightarrow> x = Inr ())"

abbreviation leaked_at_most_one :: "('w \<Rightarrow> u32 set) \<Rightarrow> u32 set \<Rightarrow> 'w \<Rightarrow> bool" where
  "leaked_at_most_one grps G w \<equiv> grps w = G \<or> (\<exists>h. grps w = insert h G)"

lemma hoare_add_group:
  assumes "group_server sv grps"
  shows "hoare (\<lambda>w. grps w = G) (add_group sv n a r c) (\<lambda>(g, h) w. h \<notin> G \<and> grps w = insert h G)
    (\<lambda>_. leaked_at_most_one grps G)"
proof -
  have "hoare (\<lambda>w. grps w = G) (os_AddGroup sv n a r c) (\<lambda>(g, h) w. h \<notin> G \<and> grps w = insert h G)
      (\<lambda>_. leaked_at_most_one grps G)"
    using assms unfolding group_server_def by (intro hoareI) fastforce+
  then show ?thesis
    unfolding add_group_def
    by (rule hoare_bindp[rotated]) (auto simp: hoare_def prog_defs split: option.splits sum.splits)
qed

lemma hoare_group_call:
  assumes "keeps grps m"
  shows "hoare (\<lambda>w. h \<notin> G \<and> grps w = insert h G) m (\<lambda>_ w. h \<notin> G \<and> grps w = insert h G)
    (\<lambda>_. leaked_at_most_one grps G)"
  using assms by (intro hoareI) (auto simp: keeps_def)

lemma group_calls_keep:
  assumes "group_server sv grps"
  shows "keeps grps (add_items sv g items)" and "keeps grps (read_items sv g s hs)"
    and "keeps grps (write_items sv g hs vs)"
  using assms
  by (auto simp: group_server_def keeps_def add_items_def read_items_def write_items_def prog_defs
      split: option.splits sum.splits prod.splits if_splits)

lemma hoare_discard_group:
  assumes "group_server sv grps" and "removals_succeed sv"
    and "\<And>w. P w \<Longrightarrow> h \<notin> G \<and> grps w = insert h G" and "\<And>w. grps w = G \<Longrightarrow> Q w"
  shows "hoare P (discard_group sv h) (\<lambda>_. Q) E"
proof (rule hoareI)
  fix s x t
  assume "P s" and run: "discard_group sv h s = Some (Inr x, t)"
  then obtain r where "os_RemoveGroup sv h True s = Some (r, t)"
    by (auto simp: discard_group_def remove_group_def prog_defs split: option.splits)
  with assms(1,2) have "grps t = grps s - {h}" unfolding group_server_def removals_succeed_def by fastforce
  with assms(3)[OF \<open>P s\<close>] assms(4) show "Q t" by auto
qed (auto simp: discard_group_def prog_defs split: option.splits)

text \<open>After the group exists, a step fails with the group still there, or goes on.\<close>

lemma hoare_lift_in_group:
  "hoare (\<lambda>w. h \<notin> G \<and> grps w = insert h G) (lift_result r) (\<lambda>_ w. h \<notin> G \<and> grps w = insert h G)
    (\<lambda>_. leaked_at_most_one grps G)"
  by (auto simp: hoare_def lift_result_def split: sum.splits)

lemma hoare_end_group:
  assumes "group_server sv grps" and "removals_succeed sv"
  shows "hoare (\<lambda>w. h \<notin> G \<and> grps w = insert h G) (seqp (discard_group sv h) (ret x)) (\<lambda>_ w. grps w = G)
      (\<lambda>_. leaked_at_most_one grps G)"
    and "hoare (\<lambda>w. h \<notin> G \<and> grps w = insert h G) (seqp (discard_group sv h) (throw e)) (\<lambda>_ w. grps w = G)
      (\<lambda>_. leaked_at_most_one grps G)"
proof -
  have d: "hoare (\<lambda>w. h \<notin> G \<and> grps w = insert h G) (discard_group sv h) (\<lambda>_ w. grps w = G)
      (\<lambda>_. leaked_at_most_one grps G)"
    by (rule hoare_discard_group[OF assms]) simp_all
  show "hoare (\<lambda>w. h \<notin> G \<and> grps w = insert h G) (seqp (discard_group sv h) (ret x)) (\<lambda>_ w. grps w = G)
      (\<lambda>_. leaked_at_most_one grps G)"
    by (rule hoare_seqp[OF _ d], rule hoare_pre[OF hoare_ret])
  show "hoare (\<lambda>w. h \<notin> G \<and> grps w = insert h G) (seqp (discard_group sv h) (throw e)) (\<lambda>_ w. grps w = G)
      (\<lambda>_. leaked_at_most_one grps G)"
    by (rule hoare_seqp[OF _ d], rule hoare_pre[OF hoare_throw]) simp
qed

lemma read_in_group_releases:
  assumes sv: "group_server sv grps"
    and rm: "removals_succeed sv"
  shows "hoare (\<lambda>w. h \<notin> G \<and> grps w = insert h G) (read_in_group pf tags p sv g h) (\<lambda>_ w. grps w = G)
    (\<lambda>_. leaked_at_most_one grps G)"
  unfolding read_in_group_def
  apply (rule hoare_bindp[OF _ hoare_group_call[OF group_calls_keep(1)[OF sv]]])
  apply (clarsimp simp: hoare_end_group[OF sv rm] split: prod.split)
  apply (rule hoare_bindp[OF _ hoare_group_call[OF group_calls_keep(2)[OF sv]]])
  apply (auto simp: hoare_end_group[OF sv rm] hoare_diverge[THEN hoare_pre] split: option.split)
  done

lemma write_in_group_releases:
  assumes sv: "group_server sv grps"
    and rm: "removals_succeed sv"
  shows "hoare (\<lambda>w. h \<notin> G \<and> grps w = insert h G) (write_in_group tag v sv g h) (\<lambda>_ w. grps w = G)
    (\<lambda>_. leaked_at_most_one grps G)"
  unfolding write_in_group_def
  apply (rule hoare_bindp[OF _ hoare_group_call[OF group_calls_keep(1)[OF sv]]], clarify)
  apply (rule hoare_bindp[OF _ hoare_lift_in_group])+
  apply (split if_split, rule conjI; rule impI)
   apply (rule hoare_end_group[OF sv rm])
  apply (rule hoare_bindp[OF _ hoare_group_call[OF group_calls_keep(3)[OF sv]]])
  apply (rule hoare_bindp[OF _ hoare_lift_in_group])
  apply (rule hoare_end_group[OF sv rm])
  done

lemma handlers_release_groups:
  assumes sv: "group_server sv grps"
    and rm: "removals_succeed sv"
  shows "hoare (\<lambda>w. grps w = G) (handle_read pf tags p sv) (\<lambda>_ w. grps w = G) (\<lambda>_. leaked_at_most_one grps G)"
    and "hoare (\<lambda>w. grps w = G) (handle_write tag v sv) (\<lambda>_ w. grps w = G) (\<lambda>_. leaked_at_most_one grps G)"
  unfolding handle_read_def handle_write_def
  by (rule hoare_bindp[OF _ hoare_add_group[OF sv]],
      clarsimp simp: read_in_group_releases[OF sv rm] write_in_group_releases[OF sv rm])+

section \<open>A write that returned\<close>

lemma write_items_returned:
  "write_items sv g hs vs w = Some (Inr arr, w') \<Longrightarrow> os_Write sv g hs vs w = Some (Inr (ra_pointer arr), w')"
  by (auto simp: write_items_def prog_defs split: if_splits option.splits sum.splits)

lemma first_or_Inr: "first_or m (ra_as_slice r) = Inr y \<Longrightarrow> \<exists>xs. ra_pointer r = Some (y # xs)"
  by (cases "ra_pointer r"; cases "the (ra_pointer r)"; cases "unat (ra_len r)")
    (auto simp: first_or_def ra_as_slice_def split: if_splits)

lemma write_in_group_returned:
  assumes "write_in_group tag v sv g h w = Some (Inr res, w')"
  shows "wr_tag_id res = tag \<and> (wr_error res = None \<longleftrightarrow> wr_success res) \<and>
    (wr_success res \<longrightarrow> (\<exists>ih u u' errors. os_Write sv g [ih] [opc_value_to_variant v] u
        = Some (Inr (Some errors), u') \<and> errors \<noteq> [] \<and> hresult_is_ok (hd errors)))"
proof -
  from assms obtain ih ie u where run: "(if \<not> hresult_is_ok ie then
       seqp (discard_group sv h) (ret \<lparr>wr_tag_id = tag, wr_success = False,
               wr_error = Some (''Failed to add tag: '' @ format_hresult ie)\<rparr>)
     else
       bindp (write_items sv g [ih] [opc_value_to_variant v]) (\<lambda>arr.
       bindp (lift_result (first_or ''Server returned empty write errors'' (ra_as_slice arr))) (\<lambda>we.
       seqp (discard_group sv h)
         (ret (if hresult_is_ok we then \<lparr>wr_tag_id = tag, wr_success = True, wr_error = None\<rparr>
               else \<lparr>wr_tag_id = tag, wr_success = False, wr_error = Some (format_hresult we)\<rparr>))))) u
     = Some (Inr res, w')"
    unfolding write_in_group_def by (auto simp: bindp_eq_Inr lift_result_def simp del: not_not)
  show ?thesis
  proof (cases "hresult_is_ok ie")
    case False
    with run show ?thesis by (auto simp: seqp_def bindp_eq_Inr ret_def)
  next
    case True
    with run obtain arr u' we where w: "write_items sv g [ih] [opc_value_to_variant v] u = Some (Inr arr, u')"
      and f: "first_or ''Server returned empty write errors'' (ra_as_slice arr) = Inr we"
      and res: "res = (if hresult_is_ok we then \<lparr>wr_tag_id = tag, wr_success = True, wr_error = None\<rparr>
         else \<lparr>wr_tag_id = tag, wr_success = False, wr_error = Some (format_hresult we)\<rparr>)"
      by (auto simp: seqp_def bindp_eq_Inr ret_def lift_result_def)
    from first_or_Inr[OF f] obtain es where "ra_pointer arr = Some (we # es)" by blast
    with write_items_returned[OF w]
    have "os_Write sv g [ih] [opc_value_to_variant v] u = Some (Inr (Some (we # es)), u')" by simp
    then have "wr_success res \<longrightarrow> (\<exists>ih u u' errors. os_Write sv g [ih] [opc_value_to_variant v] u
        = Some (Inr (Some errors), u') \<and> errors \<noteq> [] \<and> hresult_is_ok (hd errors))"
      using res by (metis list.distinct(1) list.sel(1) write_result.select_convs(2))
    with res show ?thesis by simp
  qed
qed

section \<open>A server with one rack of groups\<close>

text \<open>
  It accepts one group at a time, with handle 7; it rejects the items named \<open>Bad\<close>, refuses
  every \<open>AddItems\<close> when its switch is on, reads 42 from every item and accepts every write.
\<close>

record rack =
  rk_groups :: "u32 set"
  rk_refusing :: bool

definition rack_server :: "(rack, nat, u32) opc_server" where
  "rack_server =
     \<lparr>cs_da2 = False, cs_da3 = False, cs_query_organization = throw (NotImplemented []),
      cs_change_position = (\<lambda>d n. throw (NotImplemented [])),
      cs_browse_item_ids = (\<lambda>ty f d a. throw (NotImplemented [])),
      cs_get_item_id = (\<lambda>name. throw (NotImplemented [])),
      cs_browse = (\<lambda>i c m f. throw (NotImplemented [])), cs_enum_next = (\<lambda>h w. (empty_batch, w)),
      os_AddGroup = (\<lambda>n a r c w.
        if rk_groups w = {} then Some (Inr (Some (Inr 7), 7), w\<lparr>rk_groups := {7}\<rparr>)
        else Some (Inl (Com 0x80004005 ''full''), w)),
      os_RemoveGroup = (\<lambda>h f w. Some (Inr (), w\<lparr>rk_groups := rk_groups w - {h}\<rparr>)),
      os_AddItems = (\<lambda>g items w.
        if rk_refusing w then Some (Inl (Com 0x800706BA ''gone''), w)
        else Some (Inr (Some (map (\<lambda>i. id_client i + 100) items),
               Some (map (\<lambda>i. if id_item_id i = ''Bad'' then 0xC0040007 else 0) items)), w)),
      os_Read = (\<lambda>g s hs w.
        Some (Inr (Some (map (\<lambda>h. \<lparr>is_value = Variant 3 (Bits 42), is_quality = 0xC0,
            is_time = \<lparr>ft_high = 0, ft_low = 0\<rparr>\<rparr>) hs), Some (map (\<lambda>h. 0) hs)), w)),
      os_Write = (\<lambda>g hs vs w. Some (Inr (Some (map (\<lambda>h. 0) hs)), w))\<rparr>"

lemma rack_server_groups: "group_server rack_server rk_groups"
  by (auto simp: group_server_def rack_server_def keeps_def split: if_splits)

lemma rack_server_removes: "removals_succeed rack_server"
  by (auto simp: removals_succeed_def rack_server_def)

definition utc_platform :: platform where
  "utc_platform = \<lparr>pf_local_time = (\<lambda>secs nanos. None), pf_debug_vt = (\<lambda>vt. [])\<rparr>"

section \<open>Properties\<close>

text \<open>
  C2. When the server's calls succeed and return arrays of the promised length, a read returns
  one value per tag, in the order of the tags: a rejected tag with the reason, an accepted one
  with the state and error that belong to its own handle.
\<close>

theorem read_matches_specification:
  assumes add: "os_AddGroup sv ''opc-da-client-read'' True 1000 0 w = Some (Inr (Some (Inr g), h), w1)"
    and items: "os_AddItems sv g (item_defs tags) w1 = Some (Inr (Some hs, Some es), w2)"
    and lens: "length hs = length tags" "length es = length tags" "length tags < 2 ^ 32"
    and some: "accepted_handles hs es \<noteq> []"
    and read: "os_Read sv g OPC_DS_DEVICE (accepted_handles hs es) w2 = Some (Inr (Some sts, Some rs), w3)"
    and full: "length sts = length (accepted_handles hs es)" "length rs = length (accepted_handles hs es)"
    and remove: "os_RemoveGroup sv h True w3 = Some (x, w4)"
  shows "handle_read pf tags presentation sv w = Some (Inr (read_spec pf presentation tags es sts rs), w4)
    \<and> map tv_tag_id (read_spec pf presentation tags es sts rs) = tags"
proof -
  have "length (accepted_handles hs es) \<le> length tags"
    using accepted_le[of hs es] lens by simp
  then have small: "length (accepted_handles hs es) < 2 ^ 32" using lens(3) by simp
  have nonempty: "tags \<noteq> []" using some lens by auto
  have len: "u32_len (item_defs tags) = Inr (of_nat (length tags))"
    using lens(3) u32_len_ok[of "item_defs tags"] by (simp add: length_item_defs)
  have sorted: "sort_added 0 (zip hs es) (map unread_value tags)
      = (accepted_handles hs es, accepted_indices 0 es, after_adding tags es)"
    using sort_added_spec[OF trans[OF lens(1) lens(2)[symmetric]] lens(2)[symmetric], of "[]" 0] by simp
  have stored: "store_read pf presentation tags sts rs 0 (accepted_indices 0 es) (after_adding tags es)
      = Some (read_spec pf presentation tags es sts rs)"
    using store_read_spec[OF lens(2)[symmetric], of "[]" 0 "[]" 0 sts rs pf presentation] full
      accepted_lengths[OF trans[OF lens(1) lens(2)[symmetric]], of 0]
    by simp
  have "add_group sv ''opc-da-client-read'' True 1000 0 w = Some (Inr (g, h), w1)"
    using add by (simp add: add_group_def prog_defs)
  moreover have "add_items sv g (item_defs tags) w1
      = Some (Inr (\<lparr>ra_pointer = Some hs, ra_len = of_nat (length tags)\<rparr>,
                  \<lparr>ra_pointer = Some es, ra_len = of_nat (length tags)\<rparr>), w2)"
    using items nonempty len length_item_defs[of tags] by (auto simp: add_items_def prog_defs)
  moreover have "read_items sv g OPC_DS_DEVICE (accepted_handles hs es) w2
      = Some (Inr (\<lparr>ra_pointer = Some sts, ra_len = of_nat (length (accepted_handles hs es))\<rparr>,
                  \<lparr>ra_pointer = Some rs, ra_len = of_nat (length (accepted_handles hs es))\<rparr>), w3)"
    using read some small by (simp add: read_items_def prog_defs u32_len_ok)
  moreover have "discard_group sv h w3 = Some (Inr (), w4)"
    using remove by (simp add: discard_group_def remove_group_def prog_defs)
  ultimately have "handle_read pf tags presentation sv w = Some (Inr (read_spec pf presentation tags es sts rs), w4)"
    using some
    by (simp add: handle_read_def read_in_group_def bindp_def seqp_def ret_def ra_count_def ra_full
        lens full unat_length[OF small] unat_length[OF lens(3)] sorted stored)
  then show ?thesis using lens by (simp add: read_spec_tags)
qed

theorem read_matches_specification_witness:
  "handle_read utc_platform [''Flow'', ''Bad''] Semantic rack_server \<lparr>rk_groups = {}, rk_refusing = False\<rparr>
     = Some (Inr (read_spec utc_platform Semantic [''Flow'', ''Bad''] [0, 0xC0040007]
         [\<lparr>is_value = Variant 3 (Bits 42), is_quality = 0xC0, is_time = \<lparr>ft_high = 0, ft_low = 0\<rparr>\<rparr>] [0]),
       \<lparr>rk_groups = {}, rk_refusing = False\<rparr>)
   \<and> map tv_tag_id (read_spec utc_platform Semantic [''Flow'', ''Bad''] [0, 0xC0040007]
         [\<lparr>is_value = Variant 3 (Bits 42), is_quality = 0xC0, is_time = \<lparr>ft_high = 0, ft_low = 0\<rparr>\<rparr>] [0])
     = [''Flow'', ''Bad'']"
  by (rule read_matches_specification[where g = 7 and h = 7 and hs = "[100, 101]"
        and ?w1.0 = "\<lparr>rk_groups = {7}, rk_refusing = False\<rparr>" and ?w2.0 = "\<lparr>rk_groups = {7}, rk_refusing = False\<rparr>"
        and ?w3.0 = "\<lparr>rk_groups = {7}, rk_refusing = False\<rparr>" and x = "Inr ()"])
    (simp_all add: rack_server_def item_defs_def hresult_is_ok_def)







end
