(* ===== verification/TagBrowse.thy ===== *)
theory TagBrowse
  imports Connector
begin

text \<open>
  The recursive browse of all tags, \<open>com_worker/browse.rs\<close>. A run works on the world of the
  servers, its own list of tags, and what it shares with the caller: the sink of tag names
  (\<open>None\<close> when its mutex is poisoned, so that pushing is skipped) and the progress counter, a
  \<open>usize\<close> that \<open>fetch_add\<close> wraps.

  The loop over the branch names skips the errors of the enumerator and keeps every name, so
  it may not end (\<open>repeat_turns\<close>). The loops over leaves end with the tag limit, the
  recursion with the depth limit.
\<close>

record 'w browse_ctx =
  bc_world :: 'w
  bc_tags :: "string list"
  bc_sink :: "string list option"
  bc_progress :: u64

definition in_world :: "('w, 'e, 'a) prog \<Rightarrow> ('w browse_ctx, 'e, 'a) prog" where
  "in_world m = zoom bc_world (\<lambda>w s. s\<lparr>bc_world := w\<rparr>) m"

text \<open>\<open>tags.push\<close>, \<open>sink.push\<close> and \<open>progress.fetch_add(1)\<close>.\<close>

definition push_tag :: "string \<Rightarrow> ('w browse_ctx, 'e, unit) prog" where
  "push_tag tag = modifyp (\<lambda>s. s\<lparr>bc_tags := bc_tags s @ [tag],
     bc_sink := map_option (\<lambda>sink. sink @ [tag]) (bc_sink s), bc_progress := bc_progress s + 1\<rparr>)"

text \<open>\<open>next_string\<close> of the guarded enumerator.\<close>

definition next_name ::
  "('w, 'h, 'z) com_server_scheme \<Rightarrow> 'h native_names
     \<Rightarrow> ('w browse_ctx, 'e, next_result \<times> 'h native_names) prog" where
  "next_name sv it = in_world (effect (\<lambda>w.
     case names_next (ungated_host (cs_enum_next sv)) it w of (r, it, w) \<Rightarrow> ((r, it), w)))"

definition begin_names ::
  "('w, 'h, 'z) com_server_scheme \<Rightarrow> u32 \<Rightarrow> string \<Rightarrow> string list
     \<Rightarrow> ('w browse_ctx, opc_error, 'h native_names) prog" where
  "begin_names sv browse_type iterator_type browse_path =
     bindp (in_world (begin_da2_browse sv browse_type (Some []) 0 0)) (\<lambda>h.
     ret (guard_browse_iterator (h, string_iterator_new) iterator_type browse_path))"

section \<open>Leaves\<close>

text \<open>
  One turn of a \<open>while let Some(tag_res)\<close> loop over leaves: it ends the loop, or goes on with
  the enumerator. \<open>resolve\<close> is what the loop makes of a name.
\<close>

definition leaf_turn ::
  "('w, 'h, 'z) com_server_scheme \<Rightarrow> nat \<Rightarrow> (string \<Rightarrow> ('w browse_ctx, opc_error, string) prog)
     \<Rightarrow> 'h native_names \<Rightarrow> ('w browse_ctx, opc_error, 'h native_names + unit) prog" where
  "leaf_turn sv max_tags resolve it =
     bindp (next_name sv it) (\<lambda>(r, it).
     case r of
       None \<Rightarrow> ret (Inr ())
     | Some tag_res \<Rightarrow>
         bindp (gets bc_tags) (\<lambda>tags.
         if max_tags \<le> length tags then ret (Inr ())
         else bindp (lift_result tag_res) (\<lambda>name.
              bindp (resolve name) (\<lambda>tag.
              seqp (push_tag tag) (ret (Inl it))))))"

definition browse_leaves ::
  "('w, 'h, 'z) com_server_scheme \<Rightarrow> nat \<Rightarrow> (string \<Rightarrow> ('w browse_ctx, opc_error, string) prog)
     \<Rightarrow> 'h native_names \<Rightarrow> ('w browse_ctx, opc_error, unit) prog" where
  "browse_leaves sv max_tags resolve it = repeat_turns (leaf_turn sv max_tags resolve) it"

definition flat_tag :: "string \<Rightarrow> ('w browse_ctx, opc_error, string) prog" where
  "flat_tag name = ret name"

definition leaf_tag ::
  "('w, 'h, 'z) com_server_scheme \<Rightarrow> string \<Rightarrow> ('w browse_ctx, opc_error, string) prog" where
  "leaf_tag sv browse_name =
     bindp (attempt (in_world (get_item_id sv browse_name))) (\<lambda>r.
     case r of Inr item_id \<Rightarrow> ret item_id | Inl e \<Rightarrow> ret browse_name)"

section \<open>Branches\<close>

definition branch_turn ::
  "('w, 'h, 'z) com_server_scheme \<Rightarrow> string list \<Rightarrow> string list \<times> 'h native_names
     \<Rightarrow> ('w browse_ctx, opc_error, string list \<times> 'h native_names + string list) prog" where
  "branch_turn sv browse_path = (\<lambda>(branches, it).
     bindp (next_name sv it) (\<lambda>(r, it).
       case r of
         None \<Rightarrow> ret (Inr branches)
       | Some result \<Rightarrow>
           (case result of
              Inr name \<Rightarrow> ret (Inl (branches @ [name], it))
            | Inl error \<Rightarrow>
                if is_non_progress_browse_error error then
                  throw (contextual_browse_error error ''browse_recursive(branches)'' browse_path None)
                else ret (Inl (branches, it)))))"

definition collect_branches ::
  "('w, 'h, 'z) com_server_scheme \<Rightarrow> string list \<Rightarrow> 'h native_names
     \<Rightarrow> ('w browse_ctx, opc_error, string list) prog" where
  "collect_branches sv browse_path it = repeat_turns (branch_turn sv browse_path) ([], it)"

text \<open>\<open>for branch in branches\<close>; \<open>recurse\<close> is the recursive call for a branch.\<close>

fun for_branches ::
  "('w, 'h, 'z) com_server_scheme \<Rightarrow> nat \<Rightarrow> (string \<Rightarrow> ('w browse_ctx, opc_error, unit) prog) \<Rightarrow> string list
     \<Rightarrow> ('w browse_ctx, opc_error, unit) prog" where
  "for_branches sv max_tags recurse [] = ret ()"
| "for_branches sv max_tags recurse (branch # branches) =
     bindp (gets bc_tags) (\<lambda>tags.
     if max_tags \<le> length tags then ret ()
     else
       bindp (attempt (in_world (change_browse_position sv OPC_BROWSE_DOWN branch))) (\<lambda>down.
       case down of
         Inl e \<Rightarrow> for_branches sv max_tags recurse branches
       | Inr _ \<Rightarrow>
           bindp (attempt (recurse branch)) (\<lambda>recurse_result.
           bindp (attempt (in_world (change_browse_position sv OPC_BROWSE_UP []))) (\<lambda>up_result.
           case recurse_result of
             Inl e \<Rightarrow>
               if is_non_progress_browse_error e then throw e
               else (case up_result of
                       Inl _ \<Rightarrow> ret ()
                     | Inr _ \<Rightarrow> for_branches sv max_tags recurse branches)
           | Inr _ \<Rightarrow>
               (case up_result of
                  Inl _ \<Rightarrow> ret ()
                | Inr _ \<Rightarrow> for_branches sv max_tags recurse branches)))))"

section \<open>The recursion\<close>

definition MAX_DEPTH :: nat where "MAX_DEPTH = 50"

function browse_recursive ::
  "('w, 'h, 'z) com_server_scheme \<Rightarrow> nat \<Rightarrow> string list \<Rightarrow> nat \<Rightarrow> ('w browse_ctx, opc_error, unit) prog" where
  "browse_recursive sv max_tags browse_path depth =
     (if MAX_DEPTH < depth then ret ()
      else bindp (gets bc_tags) (\<lambda>tags.
        if max_tags \<le> length tags then ret ()
        else
          bindp (begin_names sv OPC_BRANCH ''recursive branch iterator'' browse_path) (\<lambda>branch_enum.
          bindp (collect_branches sv browse_path branch_enum) (\<lambda>branches.
          bindp (begin_names sv OPC_LEAF ''recursive leaf iterator'' browse_path) (\<lambda>leaf_enum.
          seqp (browse_leaves sv max_tags (leaf_tag sv) leaf_enum)
            (for_branches sv max_tags (\<lambda>branch. browse_recursive sv max_tags (browse_path @ [branch]) (depth + 1))
               branches))))))"
  by pat_completeness auto

termination browse_recursive
  by (relation "measure (\<lambda>(sv, max_tags, browse_path, depth). Suc MAX_DEPTH - depth)") (auto simp: MAX_DEPTH_def)

declare browse_recursive.simps [simp del]

text \<open>\<open>handle_browse\<close> starts with no tags of its own; it returns the tags.\<close>

definition handle_browse ::
  "nat \<Rightarrow> ('w, 'h, 'z) com_server_scheme \<Rightarrow> ('w browse_ctx, opc_error, string list) prog" where
  "handle_browse max_tags sv =
     bindp (in_world (query_organization sv)) (\<lambda>org.
     seqp (modifyp (\<lambda>s. s\<lparr>bc_tags := []\<rparr>))
       (seqp (if org = OPC_NS_FLAT then
                bindp (begin_names sv OPC_LEAF ''recursive flat iterator'' []) (\<lambda>string_iter.
                browse_leaves sv max_tags flat_tag string_iter)
              else browse_recursive sv max_tags [] 0)
         (gets bc_tags)))"

section \<open>What the caller sees: the tags, the sink and the counter\<close>

abbreviation shared :: "'w browse_ctx \<Rightarrow> string list \<times> string list option \<times> u64" where
  "shared s \<equiv> (bc_tags s, bc_sink s, bc_progress s)"

definition shared_ok :: "nat \<Rightarrow> string list option \<Rightarrow> u64 \<Rightarrow> string list \<times> string list option \<times> u64 \<Rightarrow> bool" where
  "shared_ok max_tags sink0 progress0 = (\<lambda>(tags, sink, progress).
     length tags \<le> max_tags \<and> sink = map_option (\<lambda>k. k @ tags) sink0 \<and>
     progress = progress0 + of_nat (length tags))"

lemma preserves_in_world: "preserves (in_world m) (\<lambda>s. P (shared s))"
  by (rule preservesI) (auto simp: in_world_def zoom_def split: option.splits prod.splits)

lemma preserves_next_name: "preserves (next_name sv it) (\<lambda>s. P (shared s))"
  unfolding next_name_def by (rule preserves_in_world)

lemma preserves_begin_names: "preserves (begin_names sv ty n p) (\<lambda>s. P (shared s))"
  unfolding begin_names_def by (intro preserves_rules preserves_in_world)

lemma preserves_leaf_tag: "preserves (leaf_tag sv name) (\<lambda>s. P (shared s))"
  unfolding leaf_tag_def by (intro preserves_rules preserves_in_world)

lemma preserves_flat_tag: "preserves (flat_tag name) (\<lambda>s. P (shared s))"
  unfolding flat_tag_def by (intro preserves_rules)

lemma preserves_branch_turn: "preserves (branch_turn sv p x) (\<lambda>s. P (shared s))"
  unfolding branch_turn_def by (intro preserves_rules preserves_next_name)

lemma preserves_collect_branches: "preserves (collect_branches sv p it) (\<lambda>s. P (shared s))"
  unfolding collect_branches_def by (intro preserves_repeat_turns preserves_branch_turn)

lemma preserves_gets_bindp:
  "(\<And>x. hoare (\<lambda>s. I s \<and> f s = x) (k x) (\<lambda>_. I) (\<lambda>_. I)) \<Longrightarrow> preserves (bindp (gets f) k) I"
  unfolding preserves_def by (rule hoare_bindp) (auto simp: hoare_def gets_def)

lemma push_below_limit:
  "hoare (\<lambda>s. shared_ok max_tags k p (shared s) \<and> bc_tags s = tags \<and> length tags < max_tags)
     (seqp (push_tag tag) (ret x)) (\<lambda>_ s. shared_ok max_tags k p (shared s)) E"
  by (auto simp: hoare_def prog_defs push_tag_def shared_ok_def option.map_comp o_def)

lemma hoare_preserved:
  "preserves m I \<Longrightarrow> (\<And>s. I s \<Longrightarrow> J s) \<Longrightarrow> hoare I m (\<lambda>_. I) (\<lambda>_. J)"
  unfolding preserves_def by (erule hoare_cons) simp_all

lemma preserves_leaf_turn:
  assumes "\<And>name P. preserves (resolve name) (\<lambda>s. P (shared s))"
  shows "preserves (leaf_turn sv max_tags resolve it) (\<lambda>s. shared_ok max_tags k p (shared s))"
proof -
  have resolve: "hoare (\<lambda>s. shared_ok max_tags k p (shared s) \<and> bc_tags s = tags \<and> length tags < max_tags)
      (resolve name) (\<lambda>_ s. shared_ok max_tags k p (shared s) \<and> bc_tags s = tags \<and> length tags < max_tags)
      (\<lambda>_ s. shared_ok max_tags k p (shared s))" for name tags
  proof (rule hoare_preserved)
    show "preserves (resolve name) (\<lambda>s. shared_ok max_tags k p (shared s) \<and> bc_tags s = tags \<and> length tags < max_tags)"
      using assms[of name "\<lambda>q. shared_ok max_tags k p q \<and> fst q = tags \<and> length tags < max_tags"] by simp
  qed auto
  have go_on: "hoare (\<lambda>s. shared_ok max_tags k p (shared s) \<and> bc_tags s = tags)
      (if max_tags \<le> length tags then ret (Inr ())
       else bindp (lift_result tag_res) (\<lambda>name. bindp (resolve name) (\<lambda>tag. seqp (push_tag tag) (ret (Inl it')))))
      (\<lambda>_ s. shared_ok max_tags k p (shared s)) (\<lambda>_ s. shared_ok max_tags k p (shared s))" for tags tag_res it'
  proof (cases "max_tags \<le> length tags")
    case False
    have "hoare (\<lambda>s. shared_ok max_tags k p (shared s) \<and> bc_tags s = tags \<and> length tags < max_tags)
       (bindp (lift_result tag_res) (\<lambda>name. bindp (resolve name) (\<lambda>tag. seqp (push_tag tag) (ret (Inl it')))))
       (\<lambda>_ s. shared_ok max_tags k p (shared s)) (\<lambda>_ s. shared_ok max_tags k p (shared s))"
      by (rule hoare_bindp, rule hoare_bindp[OF push_below_limit[where tags = tags] resolve[where tags = tags]])
        (auto simp: hoare_def lift_result_def split: sum.split)
    with False show ?thesis by simp
  qed (auto simp: hoare_def ret_def)
  show ?thesis
    unfolding leaf_turn_def
    by (intro preserves_rules preserves_next_name preserves_gets_bindp go_on)
qed

lemma preserves_for_branches:
  "(\<And>b. preserves (recurse b) (\<lambda>s. P (shared s))) \<Longrightarrow>
   preserves (for_branches sv max_tags recurse bs) (\<lambda>s. P (shared s))"
  by (induction bs) (auto intro!: preserves_rules preserves_in_world)

lemma preserves_browse_leaves:
  "(\<And>name P. preserves (resolve name) (\<lambda>s. P (shared s))) \<Longrightarrow>
   preserves (browse_leaves sv max_tags resolve it) (\<lambda>s. shared_ok max_tags k p (shared s))"
  unfolding browse_leaves_def by (intro preserves_repeat_turns preserves_leaf_turn)

lemma preserves_browse_recursive:
  "preserves (browse_recursive sv max_tags path depth) (\<lambda>s. shared_ok max_tags k p (shared s))"
proof (induction sv max_tags path depth rule: browse_recursive.induct)
  case (1 sv max_tags path depth)
  show ?case
  proof (cases "MAX_DEPTH < depth")
    case True
    then show ?thesis by (subst browse_recursive.simps) (simp add: preserves_rules)
  next
    case False
    show ?thesis
      by (subst browse_recursive.simps, simp only: False if_False)
        (intro preserves_rules preserves_begin_names preserves_collect_branches preserves_browse_leaves
          preserves_leaf_tag preserves_for_branches 1[OF False])
  qed
qed

lemma handle_browse_shared:
  "hoare (\<lambda>s. bc_sink s = k \<and> bc_progress s = p) (handle_browse max_tags sv)
    (\<lambda>found s. shared_ok max_tags k p (found, bc_sink s, bc_progress s))
    (\<lambda>_ s. \<exists>tags. shared_ok max_tags k p (tags, bc_sink s, bc_progress s))"
proof -
  let ?ok = "\<lambda>s. shared_ok max_tags k p (shared s)"
  have body: "preserves (if org = OPC_NS_FLAT then
      bindp (begin_names sv OPC_LEAF ''recursive flat iterator'' []) (\<lambda>string_iter.
        browse_leaves sv max_tags flat_tag string_iter)
      else browse_recursive sv max_tags [] 0) ?ok" for org
    by (intro preserves_rules preserves_begin_names preserves_browse_leaves preserves_flat_tag
        preserves_browse_recursive)
  have query: "hoare (\<lambda>s. bc_sink s = k \<and> bc_progress s = p) (in_world (query_organization sv))
      (\<lambda>_ s. bc_sink s = k \<and> bc_progress s = p) (\<lambda>_ s. \<exists>tags. shared_ok max_tags k p (tags, bc_sink s, bc_progress s))"
  proof (rule hoare_preserved)
    show "preserves (in_world (query_organization sv)) (\<lambda>s. bc_sink s = k \<and> bc_progress s = p)"
      using preserves_in_world[of "query_organization sv" "\<lambda>q. snd q = (k, p)"] by simp
  qed (auto simp: shared_ok_def option.map_ident intro!: exI[where x = "[]"])
  show ?thesis
    unfolding handle_browse_def
    by (rule hoare_bindp[OF _ query], rule hoare_seqp[where R = ?ok],
        rule hoare_seqp[OF _ hoare_preserved[OF body]])
      (auto simp: hoare_def gets_def modifyp_def shared_ok_def option.map_ident)
qed

section \<open>The server's cursor\<close>

text \<open>Moving up from below the root succeeds: documented for every hierarchical server.\<close>

definition ups_succeed :: "('w, 'h, 'z) com_server_scheme \<Rightarrow> ('w \<Rightarrow> string list) \<Rightarrow> bool" where
  "ups_succeed sv pos \<longleftrightarrow> (\<forall>w x w'. pos w \<noteq> [] \<longrightarrow>
     cs_change_position sv OPC_BROWSE_UP [] w = Some (x, w') \<longrightarrow> x = Inr ())"

abbreviation at :: "('w \<Rightarrow> string list) \<Rightarrow> string list \<Rightarrow> 'w browse_ctx \<Rightarrow> bool" where
  "at pos p s \<equiv> pos (bc_world s) = p"

lemma hoare_in_world:
  "hoare P m Q E \<Longrightarrow> hoare (\<lambda>s. P (bc_world s)) (in_world m) (\<lambda>x s. Q x (bc_world s)) (\<lambda>e s. E e (bc_world s))"
  by (rule hoareI) (auto simp: in_world_def zoom_def split: option.splits prod.splits
      dest: hoareD_Inr hoareD_Inl)

lemma keeps_at: "keeps pos m \<Longrightarrow> preserves (in_world m) (at pos p)"
  unfolding preserves_def by (rule hoare_in_world) (rule keeps_hoare)

lemma keeps_effect: "(\<And>w. f (snd (g w)) = f w) \<Longrightarrow> keeps f (effect g)"
  by (auto simp: keeps_def effect_def split: prod.splits) (metis snd_conv)

lemma next_with_gate_world:
  assumes "\<And>w. pos (snd (enum_next h w)) = pos w"
    and "next_with_gate (ungated_host enum_next h) it w = (r, it', w')"
  shows "pos w' = pos w"
proof -
  let ?host = "ungated_host enum_next h"
  have refill: "pos w' = pos w" if "ensure_cached ?host it w = (r, it', w')" for it w r it' w'
    using that assms(1)[of w]
    by (auto simp: ensure_cached_def refill_cache_def ungated_host_def Let_def split: prod.splits if_splits)
  have "pos (snd (snd (next_with_gate ?host it w))) = pos w"
    by (induction it w rule: next_with_gate_induct[where host = ?host])
      (auto simp: ungated_host_def dest!: refill[unfolded ungated_host_def])
  with assms(2) show ?thesis by simp
qed

lemma names_next_world:
  assumes "\<And>h w. pos (snd (enum_next h w)) = pos w"
    and "names_next (ungated_host enum_next) it w = (r, it', w')"
  shows "pos w' = pos w"
proof (cases "gd_done it")
  case True
  with assms(2) show ?thesis by (simp add: names_next_def guarded_next_def)
next
  case False
  obtain h i where inner: "gd_inner it = (h, i)" by (cases "gd_inner it")
  obtain out i' v where run: "next_with_gate (ungated_host enum_next h) i w = (out, i', v)"
    by (cases "next_with_gate (ungated_host enum_next h) i w")
  have "pos v = pos w" using next_with_gate_world[of pos enum_next h i w] assms(1) run by blast
  moreover have "v = w'"
    using assms(2) False inner run
    by (auto simp: names_next_def guarded_next_def Let_def split: option.splits prod.splits)
  ultimately show ?thesis by simp
qed

lemma next_name_at: "cursor_server sv pos home \<Longrightarrow> preserves (next_name sv it) (at pos p)"
  unfolding next_name_def
  by (intro keeps_at keeps_effect)
    (auto simp: cursor_server_def split: prod.splits dest!: names_next_world[of pos "cs_enum_next sv", rotated])

lemma browse_calls_at:
  assumes "cursor_server sv pos home"
  shows "preserves (begin_names sv ty n q) (at pos p)" and "preserves (leaf_tag sv name) (at pos p)"
    and "preserves (browse_leaves sv m (leaf_tag sv) it) (at pos p)" and "preserves (flat_tag name) (at pos p)"
    and "preserves (browse_leaves sv m flat_tag it) (at pos p)" and "preserves (collect_branches sv q it) (at pos p)"
proof -
  show "preserves (begin_names sv ty n q) (at pos p)"
    unfolding begin_names_def by (intro preserves_rules keeps_at cursor_stays[OF assms])
  show tag: "preserves (leaf_tag sv name) (at pos p)" for name
    unfolding leaf_tag_def by (intro preserves_rules keeps_at cursor_stays[OF assms])
  show flat: "preserves (flat_tag name) (at pos p)" for name
    unfolding flat_tag_def by (intro preserves_rules)
  show "preserves (browse_leaves sv m (leaf_tag sv) it) (at pos p)"
    unfolding browse_leaves_def leaf_turn_def push_tag_def
    by (intro preserves_rules next_name_at[OF assms] tag) simp
  show "preserves (browse_leaves sv m flat_tag it) (at pos p)"
    unfolding browse_leaves_def leaf_turn_def push_tag_def
    by (intro preserves_rules next_name_at[OF assms] flat) simp
  show "preserves (collect_branches sv q it) (at pos p)"
    unfolding collect_branches_def branch_turn_def
    by (intro preserves_rules next_name_at[OF assms])
qed

lemma in_world_up:
  assumes "cursor_server sv pos home" and "ups_succeed sv pos" and "cs_da2 sv"
  shows "hoare (at pos (p @ [b])) (attempt (in_world (change_browse_position sv OPC_BROWSE_UP [])))
    (\<lambda>_. at pos p) (\<lambda>_. at pos p)"
proof (rule hoareI)
  fix s x t
  assume "at pos (p @ [b]) s"
    and "attempt (in_world (change_browse_position sv OPC_BROWSE_UP [])) s = Some (Inr x, t)"
  then have run: "cs_change_position sv OPC_BROWSE_UP [] (bc_world s) = Some (x, bc_world t)"
    using assms(3)
    by (auto simp: attempt_def in_world_def zoom_def change_browse_position_def da2_interface_def split: option.splits)
  with assms(2) \<open>at pos (p @ [b]) s\<close> have "x = Inr ()" unfolding ups_succeed_def by (metis append_is_Nil_conv not_Cons_self2)
  with run assms(1) \<open>at pos (p @ [b]) s\<close> show "at pos p t"
    unfolding cursor_server_def moves_def by fastforce
qed (auto simp: attempt_def split: option.splits)

lemma preserves_hoare_any: "preserves m I \<Longrightarrow> hoare I m (\<lambda>_. I) (\<lambda>_. I)"
  by (simp add: preserves_def)

lemma for_branches_at:
  assumes sv: "cursor_server sv pos home" "ups_succeed sv pos"
    and rec: "\<And>b p. preserves (recurse b) (at pos p)"
  shows "preserves (for_branches sv m recurse bs) (at pos p)"
proof (induction bs)
  case Nil
  show ?case by (simp add: preserves_rules)
next
  case (Cons b bs)
  note go_on = preserves_hoare_any[OF Cons.IH]
  have down: "hoare (at pos p) (attempt (in_world (change_browse_position sv OPC_BROWSE_DOWN b)))
      (\<lambda>r. case r of Inr _ \<Rightarrow> at pos (p @ [b]) | Inl _ \<Rightarrow> at pos p) (\<lambda>_. at pos p)"
    by (rule hoare_attempt, rule hoare_cons[OF hoare_in_world[OF cursor_down[OF sv(1)]]]) auto
  have inside: "hoare (at pos (p @ [b])) (attempt (recurse b)) (\<lambda>_. at pos (p @ [b])) (\<lambda>_. at pos p)"
    by (rule hoare_attempt, rule hoare_cons[OF preserves_hoare_any[OF rec]]) auto
  show ?case
  proof (cases "cs_da2 sv")
    case False
    then have refused: "hoare (at pos p) (attempt (in_world (change_browse_position sv OPC_BROWSE_DOWN b)))
        (\<lambda>r s. (\<exists>e. r = Inl e) \<and> at pos p s) (\<lambda>_. at pos p)"
      by (auto simp: hoare_def attempt_def in_world_def zoom_def change_browse_position_def da2_interface_def throw_def)
    have "hoare (at pos p) (bindp (attempt (in_world (change_browse_position sv OPC_BROWSE_DOWN b))) (\<lambda>down.
       case down of Inl e \<Rightarrow> for_branches sv m recurse bs | Inr u \<Rightarrow> k u)) (\<lambda>_. at pos p) (\<lambda>_. at pos p)" for k
      by (rule hoare_bindp[OF _ refused]) (auto simp: go_on hoare_def[of "\<lambda>_. False"] split: sum.split)
    then show ?thesis by (simp add: preserves_def[symmetric] preserves_rules)
  next
    case True
    have after: "hoare (at pos p) (case rr of Inl e \<Rightarrow> if is_non_progress_browse_error e then throw e
               else (case ur of Inl _ \<Rightarrow> ret () | Inr _ \<Rightarrow> for_branches sv m recurse bs)
           | Inr _ \<Rightarrow> (case ur of Inl _ \<Rightarrow> ret () | Inr _ \<Rightarrow> for_branches sv m recurse bs))
        (\<lambda>_. at pos p) (\<lambda>_. at pos p)" for rr ur
      using Cons.IH by (auto intro!: preserves_hoare_any preserves_rules split: sum.split)
    have "hoare (at pos p) (bindp (attempt (in_world (change_browse_position sv OPC_BROWSE_DOWN b))) (\<lambda>down.
       case down of
         Inl e \<Rightarrow> for_branches sv m recurse bs
       | Inr _ \<Rightarrow>
           bindp (attempt (recurse b)) (\<lambda>rr.
           bindp (attempt (in_world (change_browse_position sv OPC_BROWSE_UP []))) (\<lambda>ur.
           case rr of Inl e \<Rightarrow> if is_non_progress_browse_error e then throw e
               else (case ur of Inl _ \<Rightarrow> ret () | Inr _ \<Rightarrow> for_branches sv m recurse bs)
           | Inr _ \<Rightarrow> (case ur of Inl _ \<Rightarrow> ret () | Inr _ \<Rightarrow> for_branches sv m recurse bs)))))
      (\<lambda>_. at pos p) (\<lambda>_. at pos p)"
      by (rule hoare_bindp[OF _ down]) (auto split: sum.split
          intro!: go_on hoare_bindp[OF hoare_bindp[OF after in_world_up[OF sv True]] inside])
    then show ?thesis by (simp add: preserves_def[symmetric] preserves_rules)
  qed
qed

lemma browse_recursive_at:
  assumes "cursor_server sv pos home" and "ups_succeed sv pos"
  shows "preserves (browse_recursive sv max_tags path depth) (at pos p)"
  using assms
proof (induction sv max_tags path depth arbitrary: p rule: browse_recursive.induct)
  case (1 sv max_tags path depth)
  show ?case
  proof (cases "MAX_DEPTH < depth")
    case True
    then show ?thesis by (subst browse_recursive.simps) (simp add: preserves_rules)
  next
    case False
    note calls = browse_calls_at[OF 1(2)]
    show ?thesis
      by (subst browse_recursive.simps, simp only: False if_False)
        (intro preserves_rules calls for_branches_at[OF 1(2,3)] 1(1)[OF False _ 1(2,3)])
  qed
qed

section \<open>The browse ends\<close>

text \<open>
  A server whose calls all return, and whose enumerators are finite: every batch they deliver
  takes from a supply \<open>left\<close>.
\<close>

definition calls_return :: "('w, 'h, 'z) com_server_scheme \<Rightarrow> bool" where
  "calls_return sv \<longleftrightarrow> (\<forall>w. cs_query_organization sv w \<noteq> None) \<and>
     (\<forall>d n w. cs_change_position sv d n w \<noteq> None) \<and>
     (\<forall>ty f d a w. cs_browse_item_ids sv ty f d a w \<noteq> None) \<and>
     (\<forall>n w. cs_get_item_id sv n w \<noteq> None)"

definition finite_enumerators :: "('w, 'h, 'z) com_server_scheme \<Rightarrow> ('h \<Rightarrow> 'w \<Rightarrow> nat) \<Rightarrow> bool" where
  "finite_enumerators sv left \<longleftrightarrow> (\<forall>h w r w'. cs_enum_next sv h w = (r, w') \<longrightarrow>
     hresult_is_ok (rf_code r) \<longrightarrow> rf_count r \<noteq> 0 \<longrightarrow> left h w' < left h w)"

definition slots_left :: "string_iterator \<Rightarrow> nat" where
  "slots_left it = si_count it - si_index it"

definition stock :: "('h \<Rightarrow> 'w \<Rightarrow> nat) \<Rightarrow> 'h \<Rightarrow> string_iterator \<times> 'w \<Rightarrow> nat \<times> nat" where
  "stock left h = (\<lambda>(it, w). (left h w, slots_left it))"

abbreviation shrinks :: "nat \<times> nat \<Rightarrow> nat \<times> nat \<Rightarrow> bool" where
  "shrinks a b \<equiv> (a, b) \<in> less_than <*lex*> less_than"

lemma refill_accepted:
  "accept_refill r (fill_cache r it) = (Inr u, it') \<Longrightarrow> hresult_is_ok (rf_code r) \<and> rf_count r \<noteq> 0"
  by (auto simp: accept_refill_def Let_def fill_cache_def unat_eq_0 split: if_splits sum.splits)

lemma slot_taken_shrinks:
  assumes "finite_enumerators sv left"
    and "ensure_cached (ungated_host (cs_enum_next sv) h) it w = (Inr (), it1, w1)"
    and "take_slot it1 = (p, it2)"
  shows "shrinks (stock left h (it2, w1)) (stock left h (it, w))"
proof (cases "si_count it \<le> si_index it")
  case True
  obtain r v where next_batch: "cs_enum_next sv h w = (r, v)" by (cases "cs_enum_next sv h w")
  with assms(2) True have "accept_refill r (fill_cache r it) = (Inr (), it1)" and "w1 = v"
    by (auto simp: ensure_cached_def refill_cache_def ungated_host_def Let_def split: prod.splits)
  with assms(1) next_batch refill_accepted[of r it "()" it1] show ?thesis
    by (simp add: finite_enumerators_def stock_def)
next
  case False
  with assms(2,3) show ?thesis
    by (auto simp: ensure_cached_def stock_def slots_left_def take_slot_def)
qed

lemma yield_keeps_slots: "yield_value v it = (out, it') \<Longrightarrow> slots_left it' = slots_left it"
  by (auto simp: yield_value_def slots_left_def Let_def split: if_splits)

lemma string_stock_shrinks:
  assumes fin: "finite_enumerators sv left"
    and "next_with_gate (ungated_host (cs_enum_next sv) h) it w = (Some res, it', w')"
  shows "si_done it' \<or> shrinks (stock left h (it', w')) (stock left h (it, w))"
proof -
  let ?host = "ungated_host (cs_enum_next sv) h"
  have "\<forall>res it' w'. out = (Some res, it', w') \<longrightarrow>
      si_done it' \<or> shrinks (stock left h (it', w')) (stock left h (it, w))"
    if "out = next_with_gate ?host it w" for out
    unfolding that
  proof (induction it w rule: next_with_gate_induct[where host = ?host])
    case (returned it s s1 out it1 s2)
    then show ?case by (auto dest: ensure_cached_returns_done)
  next
    case (bad it s s1 it1 s2 it2 code t)
    moreover from bad have "s1 = s" by (simp add: ungated_host_def)
    ultimately show ?case using slot_taken_shrinks[OF fin] by blast
  next
    case (found it s s1 it1 s2 it2 val out it3)
    moreover from found have "s1 = s" by (simp add: ungated_host_def)
    ultimately show ?case
      using slot_taken_shrinks[OF fin, of h it s it1 s2 "PText val" it2] yield_keeps_slots[of val it2 out it3]
      by (simp add: stock_def)
  next
    case (null it s s1 it1 s2 it2)
    moreover from null have "s1 = s" by (simp add: ungated_host_def)
    ultimately show ?case
      using slot_taken_shrinks[OF fin, of h it s it1 s2 PNull it2]
      by (meson trans_less_than trans_lex_prod transD)
  qed auto
  with assms(2) show ?thesis by blast
qed

definition names_order :: "('h \<Rightarrow> 'w \<Rightarrow> nat) \<Rightarrow> (('h native_names \<times> 'w) \<times> ('h native_names \<times> 'w)) set" where
  "names_order left = inv_image (less_than <*lex*> less_than <*lex*> less_than)
     (\<lambda>(it, w). (if gd_done it \<or> si_done (snd (gd_inner it)) then 0 else 1,
                 stock left (fst (gd_inner it)) (snd (gd_inner it), w)))"

lemma wf_names_order: "wf (names_order left)"
  by (auto simp: names_order_def)

lemma guard_result_inner: "guard_result r g = (out, g') \<Longrightarrow> gd_inner g' = gd_inner g"
  by (auto simp: guard_result_def Let_def split: sum.splits opc_error.splits if_splits)

lemma names_shrink:
  assumes fin: "finite_enumerators sv left"
    and run: "names_next (ungated_host (cs_enum_next sv)) it w = (Some res, it', w')"
  shows "((it', w'), (it, w)) \<in> names_order left"
proof -
  obtain h i where inner: "gd_inner it = (h, i)" by (cases "gd_inner it")
  from run obtain r j where alive: "\<not> gd_done it"
    and step: "next_with_gate (ungated_host (cs_enum_next sv) h) i w = (Some r, snd j, w')" "fst j = h"
    and out: "guard_result r (it\<lparr>gd_inner := j\<rparr>) = (Some res, it')"
    unfolding names_next_def by (rule guarded_next_cases) (auto simp: inner split: prod.splits)
  have "\<not> si_done i" using step(1) by (cases "si_done i") (simp_all add: next_with_gate_done)
  moreover have "gd_inner it' = j" using guard_result_inner[OF out] by simp
  ultimately show ?thesis
    using alive inner step(2) string_stock_shrinks[OF fin step(1)]
    by (cases j) (auto simp: names_order_def)
qed

text \<open>A program that returns from every state.\<close>

definition total :: "('s, 'e, 'a) prog \<Rightarrow> bool" where
  "total m \<longleftrightarrow> (\<forall>s. m s \<noteq> None)"

named_theorems total_rules \<open>a compound program returns when its parts do\<close>

lemma total_basic [total_rules]:
  "total (ret x)" "total (throw e)" "total (gets f)" "total (modifyp g)" "total (lift_result r)" "total (effect h)"
  by (auto simp: total_def prog_defs split: prod.splits)

lemma total_bindp [total_rules]: "total m \<Longrightarrow> (\<And>x. total (k x)) \<Longrightarrow> total (bindp m k)"
  by (simp add: total_def bindp_def split: option.split prod.split sum.split)

lemma total_seqp [total_rules]: "total m \<Longrightarrow> total k \<Longrightarrow> total (seqp m k)"
  unfolding seqp_def by (rule total_bindp)

lemma total_attempt [total_rules]: "total m \<Longrightarrow> total (attempt m)"
  by (simp add: total_def attempt_def split: option.split prod.split)

lemma total_in_world [total_rules]: "total m \<Longrightarrow> total (in_world m)"
  by (simp add: total_def in_world_def zoom_def split: option.split prod.split)

lemma total_if [total_rules]: "(b \<Longrightarrow> total m) \<Longrightarrow> (\<not> b \<Longrightarrow> total n) \<Longrightarrow> total (if b then m else n)"
  by simp

lemma total_case_option [total_rules]:
  "total m \<Longrightarrow> (\<And>y. total (k y)) \<Longrightarrow> total (case x of None \<Rightarrow> m | Some y \<Rightarrow> k y)"
  by (cases x) simp_all

lemma total_case_sum [total_rules]:
  "(\<And>y. total (h y)) \<Longrightarrow> (\<And>y. total (k y)) \<Longrightarrow> total (case x of Inl y \<Rightarrow> h y | Inr y \<Rightarrow> k y)"
  by (cases x) simp_all

lemma total_case_prod [total_rules]: "(\<And>y z. total (k y z)) \<Longrightarrow> total (case x of (y, z) \<Rightarrow> k y z)"
  by (cases x) simp_all

lemma total_calls:
  assumes "calls_return sv"
  shows "total (query_organization sv)" "total (change_browse_position sv d n)"
    "total (begin_da2_browse sv ty f dt ar)" "total (get_item_id sv n)"
  using assms
  by (auto simp: total_def calls_return_def query_organization_def change_browse_position_def begin_da2_browse_def
      get_item_id_def da2_interface_def throw_def)

lemma next_name_run:
  "next_name sv it s = Some (Inr (r, it'), s') \<longleftrightarrow>
     names_next (ungated_host (cs_enum_next sv)) it (bc_world s) = (r, it', bc_world s') \<and>
     s' = s\<lparr>bc_world := bc_world s'\<rparr>"
  by (auto simp: next_name_def in_world_def zoom_def effect_def split: prod.splits)

lemma total_next_name [total_rules]: "total (next_name sv it)"
  unfolding next_name_def by (intro total_rules)

lemma collect_branches_total:
  assumes "finite_enumerators sv left"
  shows "total (collect_branches sv path it)"
  unfolding collect_branches_def total_def
proof (intro allI repeat_turns_returns)
  let ?R = "inv_image (names_order left) (\<lambda>((branches :: string list, it), s). (it, bc_world s))"
  show "wf ?R" by (simp add: wf_names_order)
  have "total (branch_turn sv path x)" for x
    unfolding branch_turn_def by (intro total_rules)
  then show "branch_turn sv path x s \<noteq> None" for x s by (simp add: total_def)
  fix x s x' s'
  assume turn: "branch_turn sv path x s = Some (Inr (Inl x'), s')"
  obtain branches it where x: "x = (branches, it)" by (cases x)
  from turn obtain r it' s1 where run: "next_name sv it s = Some (Inr (r, it') :: opc_error + _, s1)"
    and rest: "(case r of None \<Rightarrow> ret (Inr branches)
       | Some (Inr name) \<Rightarrow> ret (Inl (branches @ [name], it'))
       | Some (Inl error) \<Rightarrow>
           if is_non_progress_browse_error error then
             throw (contextual_browse_error error ''browse_recursive(branches)'' path None)
           else ret (Inl (branches, it'))) s1 = Some (Inr (Inl x'), s')"
    by (auto simp: branch_turn_def x bindp_eq_Inr)
  from rest have "r \<noteq> None" and "snd x' = it'" and "s1 = s'"
    by (auto simp: ret_def throw_def split: option.splits sum.splits if_splits)
  with run names_shrink[OF assms] show "((x', s'), (x, s)) \<in> ?R"
    by (auto simp: next_name_run x split: prod.splits)
qed

lemma leaf_turn_pushes:
  assumes turn: "leaf_turn sv max_tags resolve it s = Some (Inr (Inl it'), s')"
    and keep: "\<And>name P. preserves (resolve name) (\<lambda>s. P (shared s))"
  shows "length (bc_tags s) < max_tags \<and> length (bc_tags s') = Suc (length (bc_tags s))"
proof -
  from turn obtain r it1 s1 where next_r: "next_name sv it s = Some (Inr (r, it1) :: opc_error + _, s1)"
    and rest: "(case r of None \<Rightarrow> ret (Inr ()) | Some tag_res \<Rightarrow>
         bindp (gets bc_tags) (\<lambda>tags. if max_tags \<le> length tags then ret (Inr ())
         else bindp (lift_result tag_res) (\<lambda>name. bindp (resolve name) (\<lambda>tag.
              seqp (push_tag tag) (ret (Inl it1)))))) s1 = Some (Inr (Inl it'), s')"
    by (auto simp: leaf_turn_def bindp_eq_Inr)
  from next_r have same: "bc_tags s1 = bc_tags s"
    using preservesD[OF preserves_next_name[of sv it "\<lambda>q. fst q = bc_tags s"] _ next_r] by simp
  from rest obtain name tag s2 where limit: "length (bc_tags s1) < max_tags"
    and tagged: "resolve name s1 = Some (Inr tag, s2)" and pushed: "bc_tags s' = bc_tags s2 @ [tag]"
    by (cases r) (auto simp: push_tag_def seqp_def bindp_eq_Inr prog_defs split: if_splits sum.splits option.splits prod.splits)
  have "bc_tags s2 = bc_tags s1"
    using preservesD[OF keep[of name "\<lambda>q. fst q = bc_tags s1"] _ tagged] by simp
  with same limit pushed show ?thesis by simp
qed

lemma browse_leaves_total:
  assumes tag: "\<And>name. total (resolve name)" and keep: "\<And>name P. preserves (resolve name) (\<lambda>s. P (shared s))"
  shows "total (browse_leaves sv max_tags resolve it)"
  unfolding browse_leaves_def total_def
proof (intro allI repeat_turns_returns)
  let ?R = "measure (\<lambda>(it, s). max_tags - length (bc_tags s))"
  show "wf ?R" by simp
  have "total (leaf_turn sv max_tags resolve it)" for it
    unfolding leaf_turn_def push_tag_def by (intro total_rules tag)
  then show "leaf_turn sv max_tags resolve it s \<noteq> None" for it s by (simp add: total_def)
  fix it s it' s'
  assume "leaf_turn sv max_tags resolve it s = Some (Inr (Inl it'), s')"
  from leaf_turn_pushes[OF this keep] show "((it', s'), (it, s)) \<in> ?R" by auto
qed

lemma for_branches_total:
  "calls_return sv \<Longrightarrow> (\<And>b. total (recurse b)) \<Longrightarrow> total (for_branches sv max_tags recurse bs)"
  by (induction bs) (auto intro!: total_rules total_calls)

lemma begin_names_total: "calls_return sv \<Longrightarrow> total (begin_names sv ty n p)"
  unfolding begin_names_def by (intro total_rules total_calls)

lemma leaf_tag_total: "calls_return sv \<Longrightarrow> total (leaf_tag sv name)"
  unfolding leaf_tag_def by (intro total_rules total_calls)

lemma browse_recursive_total:
  assumes "calls_return sv" and "finite_enumerators sv left"
  shows "total (browse_recursive sv max_tags path depth)"
  using assms
proof (induction sv max_tags path depth rule: browse_recursive.induct)
  case (1 sv max_tags path depth)
  show ?case
  proof (cases "MAX_DEPTH < depth")
    case True
    then show ?thesis by (subst browse_recursive.simps) (simp add: total_rules)
  next
    case False
    show ?thesis
      by (subst browse_recursive.simps, simp only: False if_False)
        (intro total_rules begin_names_total[OF 1(2)] collect_branches_total[OF 1(3)] browse_leaves_total
          leaf_tag_total[OF 1(2)] preserves_leaf_tag for_branches_total[OF 1(2)] 1(1)[OF False _ 1(2,3)])
  qed
qed

lemma handle_browse_total:
  assumes "calls_return sv" and "finite_enumerators sv left"
  shows "total (handle_browse max_tags sv)"
  unfolding handle_browse_def
  by (intro total_rules total_calls[OF assms(1)] begin_names_total[OF assms(1)] browse_leaves_total
      preserves_flat_tag browse_recursive_total[OF assms]) (simp add: flat_tag_def total_rules)

section \<open>A namespace without end\<close>

text \<open>Below every branch is the branch \<open>Loop\<close> again, and no leaf.\<close>

abbreviation endless :: "(tree_world, nat) com_server" where
  "endless \<equiv> tree_server (\<lambda>p. [''Loop'']) (\<lambda>p. [])"

definition batches_left :: "nat \<Rightarrow> tree_world \<Rightarrow> nat" where
  "batches_left h w = (if h < length (tw_batches w) then length (tw_batches w ! h) else 0)"

lemma tree_server_returns: "calls_return (tree_server branches leaves)"
  by (auto simp: calls_return_def tree_server_def tree_change_position_def ret_def Let_def)

lemma tree_server_finite: "finite_enumerators (tree_server branches leaves) batches_left"
  by (auto simp: finite_enumerators_def tree_server_def batches_left_def empty_batch_def split: if_splits list.splits)

lemma tree_server_ups: "ups_succeed (tree_server branches leaves) tw_pos"
  by (auto simp: ups_succeed_def tree_server_def tree_change_position_def OPC_BROWSE_UP_def OPC_BROWSE_DOWN_def
      split: if_splits)

definition start_ctx :: "'w \<Rightarrow> 'w browse_ctx" where
  "start_ctx w = \<lparr>bc_world = w, bc_tags = [], bc_sink = Some [], bc_progress = 0\<rparr>"

lemma plant_run:
  "map_option fst (handle_browse 10 plant (start_ctx \<lparr>tw_pos = [], tw_batches = []\<rparr>))
     = Some (Inr [''Clock'', ''Area.Flow'', ''Area.Tank.Level''])"
  by code_simp

lemma plant_run_obtain:
  obtains s' where "handle_browse 10 plant (start_ctx \<lparr>tw_pos = [], tw_batches = []\<rparr>)
     = Some (Inr [''Clock'', ''Area.Flow'', ''Area.Tank.Level''], s')"
  using plant_run by (cases "handle_browse 10 plant (start_ctx \<lparr>tw_pos = [], tw_batches = []\<rparr>)") auto

section \<open>Properties\<close>

text \<open>
  However a browse of all tags ends, it found at most the requested number of tags; it
  added exactly these to the caller's sink, in order, and their number to the progress
  counter; when it succeeds it returns exactly these.
\<close>

theorem browse_tags_bounded:
  assumes "handle_browse max_tags sv s = Some (r, s')"
  shows "\<exists>tags. length tags \<le> max_tags
    \<and> bc_sink s' = map_option (\<lambda>sink. sink @ tags) (bc_sink s)
    \<and> bc_progress s' = bc_progress s + of_nat (length tags)
    \<and> (\<forall>found. r = Inr found \<longrightarrow> found = tags)"
proof -
  have "case r of Inr found \<Rightarrow> shared_ok max_tags (bc_sink s) (bc_progress s) (found, bc_sink s', bc_progress s')
      | Inl e \<Rightarrow> \<exists>tags. shared_ok max_tags (bc_sink s) (bc_progress s) (tags, bc_sink s', bc_progress s')"
    by (rule hoare_outcome[OF handle_browse_shared _ assms]) simp
  then show ?thesis by (auto simp: shared_ok_def split: sum.splits)
qed

theorem browse_tags_bounded_witness:
  "\<exists>s'. handle_browse 10 plant (start_ctx \<lparr>tw_pos = [], tw_batches = []\<rparr>)
      = Some (Inr [''Clock'', ''Area.Flow'', ''Area.Tank.Level''], s')
    \<and> bc_sink s' = Some [''Clock'', ''Area.Flow'', ''Area.Tank.Level''] \<and> bc_progress s' = 3"
proof -
  obtain s' where run: "handle_browse 10 plant (start_ctx \<lparr>tw_pos = [], tw_batches = []\<rparr>)
      = Some (Inr [''Clock'', ''Area.Flow'', ''Area.Tank.Level''], s')" by (rule plant_run_obtain)
  from browse_tags_bounded[OF run] run show ?thesis by (auto simp: start_ctx_def)
qed

text \<open>
  C10. A browse of all tags leaves the server's cursor where it found it, whether it succeeds or
  fails, on a server whose moves up from below the root succeed.
\<close>

theorem browse_restores_cursor:
  assumes "cursor_server sv pos home" and "ups_succeed sv pos"
    and "handle_browse max_tags sv s = Some (r, s')"
  shows "pos (bc_world s') = pos (bc_world s)"
proof -
  note calls = browse_calls_at[OF assms(1)]
  have "preserves (handle_browse max_tags sv) (at pos p)" for p
    unfolding handle_browse_def
    by (intro preserves_rules calls browse_recursive_at[OF assms(1,2)] keeps_at cursor_stays[OF assms(1)]) simp
  from preservesD[OF this refl assms(3)] show ?thesis .
qed

theorem browse_restores_cursor_witness:
  "\<exists>s'. handle_browse 10 plant (start_ctx \<lparr>tw_pos = [], tw_batches = []\<rparr>)
      = Some (Inr [''Clock'', ''Area.Flow'', ''Area.Tank.Level''], s') \<and> tw_pos (bc_world s') = []"
proof -
  obtain s' where run: "handle_browse 10 plant (start_ctx \<lparr>tw_pos = [], tw_batches = []\<rparr>)
      = Some (Inr [''Clock'', ''Area.Flow'', ''Area.Tank.Level''], s')" by (rule plant_run_obtain)
  from browse_restores_cursor[OF tree_server_cursor tree_server_ups run] run
  show ?thesis by (auto simp: start_ctx_def)
qed

text \<open>
  C19. A browse of all tags ends on every server whose calls return and whose enumerators are
  finite, even when its namespace is not: the depth limit ends the recursion and the tag
  limit ends the loops over the leaves.
\<close>

theorem browse_of_all_tags_ends:
  assumes "calls_return sv" and "finite_enumerators sv left"
  shows "handle_browse max_tags sv s \<noteq> None"
  using handle_browse_total[OF assms] by (simp add: total_def)

theorem browse_of_all_tags_ends_witness:
  "handle_browse 10000 endless (start_ctx \<lparr>tw_pos = [], tw_batches = []\<rparr>) \<noteq> None"
  by (rule browse_of_all_tags_ends[OF tree_server_returns tree_server_finite])

end
