(* ===== verification/Worker.thy ===== *)
theory Worker
  imports NativeBrowse ReadWrite TagBrowse
begin

text \<open>
  The COM worker: \<open>com_worker.rs\<close>, \<open>com_worker/connection.rs\<close> and \<open>com_worker/request.rs\<close>.
  One thread takes requests from a bounded channel, in order; it keeps a pool of connections
  by server name, which read, write and browse requests share, and the browse sessions, which
  own a connection each.

  What the thread finds when it handles a request is its \<open>turn\<close>: the clock readings, whether
  the reply channel was closed when it looked (\<open>is_closed\<close>), and whether it was closed when it
  sent the answer. A step that yields \<open>None\<close> is one in which the thread panicked or does
  not come back; it answers no later request.
\<close>

section \<open>Connections\<close>

record ('w, 'h, 'g) server_connector =
  cn_enumerate :: "('w, opc_error, string list) prog"
  cn_connect :: "string \<Rightarrow> ('w, opc_error, ('w, 'h, 'g) opc_server) prog"

text \<open>
  \<open>ComConnector\<close>: the interfaces a server must have, then those it may lack. \<open>facade\<close> is the
  COM object behind its interfaces, \<open>query_interface\<close> the cast of the \<open>windows\<close> crate.
\<close>

datatype interface_id =
    IUnknown | IOPCCommon | IConnectionPointContainer | IOPCItemProperties
  | IOPCServerPublicGroups | IOPCBrowseServerAddressSpace | IOPCBrowse

definition com_server_of ::
  "('o \<Rightarrow> interface_id \<Rightarrow> opc_error + unit) \<Rightarrow> ('o \<Rightarrow> ('w, 'h, 'g) opc_server) \<Rightarrow> 'o
     \<Rightarrow> ('w, opc_error, ('w, 'h, 'g) opc_server) prog" where
  "com_server_of query_interface facade obj =
     bindp (for_each [IUnknown, IOPCCommon, IConnectionPointContainer, IOPCItemProperties]
              (\<lambda>i. lift_result (query_interface obj i))) (\<lambda>_.
     ret ((facade obj)\<lparr>cs_da2 := (query_interface obj IOPCBrowseServerAddressSpace = Inr ()),
                       cs_da3 := (query_interface obj IOPCBrowse = Inr ())\<rparr>))"

definition com_connector ::
  "'c \<Rightarrow> ('c \<Rightarrow> string + pwstr) \<Rightarrow> ('w, opc_error, (opc_error + 'c) list) prog
     \<Rightarrow> (string \<Rightarrow> string + 'c) \<Rightarrow> ('c \<Rightarrow> ('w, opc_error, 'o) prog)
     \<Rightarrow> ('o \<Rightarrow> interface_id \<Rightarrow> opc_error + unit) \<Rightarrow> ('o \<Rightarrow> ('w, 'h, 'g) opc_server)
     \<Rightarrow> ('w, 'h, 'g) server_connector" where
  "com_connector zeroed progid_from_clsid get_servers clsid_from_progid create_server query_interface facade =
     \<lparr>cn_enumerate = bindp (map_errp (\<lambda>_. Internal ''Failed to enumerate OPC DA servers from registry'') get_servers) (\<lambda>guids.
        ret (enumerate_servers zeroed (guid_to_progid progid_from_clsid) guids)),
      cn_connect = (\<lambda>server_name.
        bindp (connect_server clsid_from_progid create_server server_name) (com_server_of query_interface facade))\<rparr>"

definition is_connection_error :: "opc_error \<Rightarrow> bool" where
  "is_connection_error err =
     (case com_hresult err of
        Some code \<Rightarrow> code = 0x800706BA \<or> code = 0x800706BF \<or> code = 0x800706BE \<or> code = 0x80080005
      | None \<Rightarrow> False)"

text \<open>The pool is the second part of the state; connecting and operating work on the first.\<close>

definition on_first :: "('s, 'e, 'a) prog \<Rightarrow> ('s \<times> 'c, 'e, 'a) prog" where
  "on_first m = zoom fst (\<lambda>s p. (s, snd p)) m"

definition update_pool :: "('c \<Rightarrow> 'c) \<Rightarrow> ('s \<times> 'c, 'e, unit) prog" where
  "update_pool f = modifyp (\<lambda>p. (fst p, f (snd p)))"

definition dispatch_with_retry ::
  "(string \<Rightarrow> ('s, opc_error, 'v) prog) \<Rightarrow> string \<Rightarrow> ('v \<Rightarrow> ('s, opc_error, 'r) prog)
     \<Rightarrow> ('s \<times> (string, 'v) hmap, opc_error, 'r) prog" where
  "dispatch_with_retry connect server_name operation =
     bindp (gets snd) (\<lambda>cache.
     bindp (case hm_get cache server_name of
              Some srv \<Rightarrow> ret srv
            | None \<Rightarrow> bindp (on_first (connect server_name)) (\<lambda>srv.
                seqp (update_pool (hm_insert server_name srv)) (ret srv))) (\<lambda>server_ref.
     bindp (attempt (on_first (operation server_ref))) (\<lambda>r.
     case r of
       Inr x \<Rightarrow> ret x
     | Inl e \<Rightarrow>
         if is_connection_error e then
           seqp (update_pool (hm_remove server_name))
             (bindp (on_first (connect server_name)) (\<lambda>fresh_srv.
              bindp (attempt (on_first (operation fresh_srv))) (\<lambda>result.
              seqp (update_pool (hm_insert server_name fresh_srv)) (lift_result result))))
         else throw e)))"

section \<open>Requests\<close>

text \<open>
  The requests without their reply channels. The sink and the progress counter of \<open>BrowseTags\<close>
  are shared with the caller: the request carries them as they are when it is handled, the
  answer as the worker leaves them.
\<close>

datatype com_request =
    ListServers string
  | ReadTagValues string "string list" read_presentation
  | WriteTagValue string string opc_value
  | BrowseTags string nat u64 "string list option"
  | BrowseCapabilities string
  | OpenBrowseSession string
  | BrowsePage token browse_page_request
  | CloseBrowseSession token

datatype com_reply =
    ServersListed "opc_error + string list"
  | ValuesRead "opc_error + tag_value list"
  | ValueWritten "opc_error + write_result"
  | TagsBrowsed "opc_error + string list" u64 "string list option"
  | CapabilitiesProbed "opc_error + browse_capabilities"
  | SessionOpened "opc_error + token"
  | PageBrowsed "opc_error + browse_page"
  | SessionClosed "opc_error + unit"

record turn =
  tn_cleanup :: nat
  tn_now :: nat
  tn_later :: nat
  tn_close :: nat
  tn_closed :: bool
  tn_undelivered :: bool

record ('w, 'h, 'g) worker =
  wk_cache :: "(string, ('w, 'h, 'g) opc_server) hmap"
  wk_browse :: "('w, 'h) browse_sessions"

definition on_sessions ::
  "(('w, 'h) browse_sessions, 'e, 'a) prog \<Rightarrow> (('w, 'h, 'g) worker, 'e, 'a) prog" where
  "on_sessions m = zoom wk_browse (\<lambda>b k. k\<lparr>wk_browse := b\<rparr>) m"

definition put_world :: "'w \<Rightarrow> ('w, 'h, 'g) worker \<Rightarrow> ('w, 'h, 'g) worker" where
  "put_world w k = k\<lparr>wk_browse := br_world_update (\<lambda>_. w) (wk_browse k)\<rparr>"

definition on_world :: "('w, 'e, 'a) prog \<Rightarrow> (('w, 'h, 'g) worker, 'e, 'a) prog" where
  "on_world m = zoom (\<lambda>k. br_world (wk_browse k)) put_world m"

text \<open>A dispatched operation on the world, and one that shares the sink and the counter.\<close>

definition dispatch ::
  "('w, 'h, 'g) server_connector \<Rightarrow> string \<Rightarrow> (('w, 'h, 'g) opc_server \<Rightarrow> ('w, opc_error, 'r) prog)
     \<Rightarrow> (('w, 'h, 'g) worker, 'e, opc_error + 'r) prog" where
  "dispatch cn server operation =
     attempt (zoom (\<lambda>k. (br_world (wk_browse k), wk_cache k))
       (\<lambda>(w, cache) k. (put_world w k)\<lparr>wk_cache := cache\<rparr>)
       (dispatch_with_retry (cn_connect cn) server operation))"

definition dispatch_browse ::
  "('w, 'h, 'g) server_connector \<Rightarrow> string \<Rightarrow> nat \<Rightarrow> u64 \<Rightarrow> string list option
     \<Rightarrow> (('w, 'h, 'g) worker, 'e, com_reply) prog" where
  "dispatch_browse cn server max_tags progress tags_sink =
     zoom (\<lambda>k. (\<lparr>bc_world = br_world (wk_browse k), bc_tags = [], bc_sink = tags_sink, bc_progress = progress\<rparr>,
                wk_cache k))
       (\<lambda>(c, cache) k. (put_world (bc_world c) k)\<lparr>wk_cache := cache\<rparr>)
       (bindp (attempt (dispatch_with_retry (\<lambda>name. in_world (cn_connect cn name)) server (handle_browse max_tags)))
          (\<lambda>r. gets (\<lambda>(c, cache). TagsBrowsed r (bc_progress c) (bc_sink c))))"

section \<open>The thread\<close>

text \<open>
  One request. The answer is \<open>None\<close> when the request was skipped because its reply channel was
  closed. A page or a new session that cannot be delivered is closed.
\<close>

definition close_quietly :: "nat \<Rightarrow> token \<Rightarrow> (('w, 'h, 'g) worker, 'e, unit) prog" where
  "close_quietly now token = bindp (attempt (on_sessions (close_session now token))) (\<lambda>_. ret ())"

definition open_request ::
  "('w, 'h, 'g) server_connector \<Rightarrow> turn \<Rightarrow> string \<Rightarrow> (('w, 'h, 'g) worker, opc_error, token) prog" where
  "open_request cn t server =
     bindp (on_world (cn_connect cn server)) (\<lambda>opc_server.
       on_sessions (open_session (tn_now t) (tn_later t) (com_server.truncate opc_server)))"

fun handle_request ::
  "platform \<Rightarrow> ('w, 'h, 'g) server_connector \<Rightarrow> turn \<Rightarrow> com_request
     \<Rightarrow> (('w, 'h, 'g) worker, unit, com_reply option) prog" where
  "handle_request pf cn t (ListServers host) =
     bindp (attempt (on_world (cn_enumerate cn))) (\<lambda>r. ret (Some (ServersListed r)))"
| "handle_request pf cn t (ReadTagValues server tag_ids presentation) =
     bindp (dispatch cn server (handle_read pf tag_ids presentation)) (\<lambda>r. ret (Some (ValuesRead r)))"
| "handle_request pf cn t (WriteTagValue server tag_id val) =
     bindp (dispatch cn server (handle_write tag_id val)) (\<lambda>r. ret (Some (ValueWritten r)))"
| "handle_request pf cn t (BrowseTags server max_tags progress tags_sink) =
     bindp (dispatch_browse cn server max_tags progress tags_sink) (\<lambda>r. ret (Some r))"
| "handle_request pf cn t (BrowseCapabilities server) =
     (if tn_closed t then ret None
      else bindp (dispatch cn server capabilities_for_server) (\<lambda>r. ret (Some (CapabilitiesProbed r))))"
| "handle_request pf cn t (OpenBrowseSession server) =
     (if tn_closed t then ret None
      else bindp (attempt (open_request cn t server)) (\<lambda>result.
           seqp (case result of
                   Inr token \<Rightarrow> if tn_undelivered t then close_quietly (tn_close t) token else ret ()
                 | Inl _ \<Rightarrow> ret ())
             (ret (Some (SessionOpened result)))))"
| "handle_request pf cn t (BrowsePage token request) =
     (if tn_closed t then seqp (close_quietly (tn_now t) token) (ret None)
      else bindp (attempt (on_sessions (page (tn_now t) (tn_later t) token request))) (\<lambda>result.
           seqp (if tn_undelivered t then close_quietly (tn_close t) token else ret ())
             (ret (Some (PageBrowsed result)))))"
| "handle_request pf cn t (CloseBrowseSession token) =
     bindp (attempt (on_sessions (close_session (tn_now t) token))) (\<lambda>result.
       ret (Some (SessionClosed result)))"

text \<open>One turn of the loop of the thread.\<close>

definition worker_step ::
  "platform \<Rightarrow> ('w, 'h, 'g) server_connector \<Rightarrow> turn \<Rightarrow> com_request
     \<Rightarrow> (('w, 'h, 'g) worker, unit, com_reply option) prog" where
  "worker_step pf cn t req = seqp (on_sessions (cleanup_expired (tn_cleanup t))) (handle_request pf cn t req)"

text \<open>
  The loop: the answers to the queued requests, in order, until the channel is empty and
  closed or a request is never finished.
\<close>

fun worker_loop ::
  "platform \<Rightarrow> ('w, 'h, 'g) server_connector \<Rightarrow> (turn \<times> com_request) list \<Rightarrow> ('w, 'h, 'g) worker
     \<Rightarrow> com_reply option list \<times> ('w, 'h, 'g) worker option" where
  "worker_loop pf cn [] k = ([], Some k)"
| "worker_loop pf cn ((t, req) # reqs) k =
     (case worker_step pf cn t req k of
        Some (Inr reply, k') \<Rightarrow>
          (case worker_loop pf cn reqs k' of (replies, out) \<Rightarrow> (reply # replies, out))
      | _ \<Rightarrow> ([], None))"

definition new_worker :: "'w \<Rightarrow> token list \<Rightarrow> ('w, 'h, 'g) worker" where
  "new_worker w draws = \<lparr>wk_cache = [], wk_browse = \<lparr>br_sessions = [], br_world = w, br_draws = draws\<rparr>\<rparr>"

section \<open>Starting the thread and asking it\<close>

text \<open>
  \<open>ComGuard::new\<close> counts the successful initializations of the thread; dropping the guard
  undoes its own. \<open>hr\<close> is what \<open>CoInitializeEx\<close> returns, \<open>text\<close> the error that the \<open>windows\<close>
  crate makes of it.
\<close>

definition com_guard_new :: "u32 \<Rightarrow> string \<Rightarrow> nat \<Rightarrow> (string + unit) \<times> nat" where
  "com_guard_new hr e inits =
     (if hresult_is_ok hr then (Inr (), inits + 1) else (Inl (''CoInitializeEx failed: '' @ e), inits))"

definition com_guard_drop :: "nat \<Rightarrow> nat" where
  "com_guard_drop inits = inits - 1"

text \<open>
  What \<open>ComWorker::start\<close> learns from the thread, \<open>None\<close> when the thread ended before it
  reported.
\<close>

definition worker_start :: "(string + unit) option \<Rightarrow> opc_error + unit" where
  "worker_start init =
     (case init of
        Some (Inr _) \<Rightarrow> Inr ()
      | Some (Inl _) \<Rightarrow> Inl (Internal ''COM init failed on worker'')
      | None \<Rightarrow> Inl (Internal ''COM worker thread panicked during init''))"

text \<open>
  \<open>send_request\<close>: the thread may have finished, its channel may be closed, and it may drop
  the reply channel without an answer (\<open>None\<close>).
\<close>

definition send_request :: "bool \<Rightarrow> bool \<Rightarrow> (opc_error + 'r) option \<Rightarrow> opc_error + 'r" where
  "send_request finished accepted answer =
     (if finished then Inl (Internal ''COM worker thread panicked'')
      else if \<not> accepted then Inl (Internal ''COM worker channel closed (worker stopped)'')
      else case answer of
             None \<Rightarrow> Inl (Internal ''COM worker shut down during request'')
           | Some r \<Rightarrow> r)"

section \<open>Dispatch\<close>

text \<open>An operation that counts its runs.\<close>

definition counted :: "('v \<Rightarrow> ('s, 'e, 'r) prog) \<Rightarrow> 'v \<Rightarrow> ('s \<times> nat, 'e, 'r) prog" where
  "counted operation v = (\<lambda>(s, n). case operation v s of
       None \<Rightarrow> None | Some (r, s') \<Rightarrow> Some (r, (s', n + 1)))"

lemma on_first_run:
  "on_first m (s, c) = (case m s of None \<Rightarrow> None | Some (r, s') \<Rightarrow> Some (r, (s', c)))"
  by (simp add: on_first_def zoom_def split: option.splits prod.splits)

lemma dispatch_miss:
  "hm_get cache name = None \<Longrightarrow>
   dispatch_with_retry connect name operation (s, cache) =
     (case connect name s of
        None \<Rightarrow> None
      | Some (Inl e, s') \<Rightarrow> Some (Inl e, (s', cache))
      | Some (Inr v, s') \<Rightarrow> dispatch_with_retry connect name operation (s', hm_insert name v cache))"
  by (auto simp: dispatch_with_retry_def prog_defs on_first_run update_pool_def hm.get_insert
      split: option.splits sum.splits prod.splits)

lemma dispatch_hit:
  "hm_get cache name = Some v \<Longrightarrow>
   dispatch_with_retry connect name operation (s, cache) =
     (case operation v s of
        None \<Rightarrow> None
      | Some (Inr x, s1) \<Rightarrow> Some (Inr x, (s1, cache))
      | Some (Inl e, s1) \<Rightarrow>
          if \<not> is_connection_error e then Some (Inl e, (s1, cache))
          else (case connect name s1 of
              None \<Rightarrow> None
            | Some (Inl e', s2) \<Rightarrow> Some (Inl e', (s2, hm_remove name cache))
            | Some (Inr v', s2) \<Rightarrow>
                (case operation v' s2 of
                   None \<Rightarrow> None
                 | Some (r, s3) \<Rightarrow> Some (r, (s3, hm_insert name v' (hm_remove name cache))))))"
  by (auto simp: dispatch_with_retry_def prog_defs on_first_run update_pool_def
      split: option.splits sum.splits prod.splits)

text \<open>
  What a dispatch on a pooled connection did: the answer comes from the server that is pooled
  afterwards, or it is the refusal to reconnect.
\<close>

lemma dispatch_hit_outcome:
  assumes "hm_get cache name = Some v"
    and "dispatch_with_retry (\<lambda>k. on_first (connect k)) name (counted operation) ((s, m), cache) = Some (r, ((s', n), cache'))"
  shows "n = m + 1 \<and> cache' = cache \<and> operation v s = Some (r, s')
           \<and> (\<forall>e. r = Inl e \<longrightarrow> \<not> is_connection_error e)
       \<or> (\<exists>e s1 s2. operation v s = Some (Inl e, s1) \<and> is_connection_error e \<and>
            (\<forall>k. k \<noteq> name \<longrightarrow> hm_get cache' k = hm_get cache k) \<and>
            (n = m + 1 \<and> (\<exists>e'. r = Inl e' \<and> connect name s1 = Some (Inl e', s')) \<and> hm_get cache' name = None
             \<or> n = m + 2 \<and> (\<exists>v'. connect name s1 = Some (Inr v', s2) \<and> operation v' s2 = Some (r, s')
                              \<and> hm_get cache' name = Some v')))"
  using assms
  by (auto simp: dispatch_hit counted_def on_first_run hm.get_insert hm.get_remove
      split: option.splits sum.splits prod.splits if_splits)

section \<open>Which sessions a request touches\<close>

text \<open>All sessions but those under the tokens \<open>T\<close> are sessions of \<open>m0\<close>, unchanged.\<close>

definition within :: "token set \<Rightarrow> (token, 'a) hmap \<Rightarrow> (token, 'a) hmap \<Rightarrow> bool" where
  "within T m0 m \<longleftrightarrow> hm_ok m \<and> (\<forall>tok s. hm_get m tok = Some s \<longrightarrow> tok \<in> T \<or> hm_get m0 tok = Some s)"

abbreviation sessions_in :: "token set \<Rightarrow> (token, ('w, 'h) browse_session) hmap \<Rightarrow> ('w, 'h) browse_sessions \<Rightarrow> bool" where
  "sessions_in T m0 b \<equiv> within T m0 (br_sessions b)"

abbreviation worker_in :: "token set \<Rightarrow> (token, ('w, 'h) browse_session) hmap \<Rightarrow> ('w, 'h, 'g) worker \<Rightarrow> bool" where
  "worker_in T m0 k \<equiv> within T m0 (br_sessions (wk_browse k))"

lemma within_refl: "hm_ok m \<Longrightarrow> within {} m m"
  by (simp add: within_def)

lemma within_mono: "within T m0 m \<Longrightarrow> T \<subseteq> T' \<Longrightarrow> within T' m0 m"
  by (auto simp: within_def)

lemma within_retain: "within T m0 m \<Longrightarrow> within T m0 (hm_retain P m)"
  by (auto simp: within_def hm_ok_retain hm_get_retain split: option.splits if_splits)

lemma within_remove: "within T m0 m \<Longrightarrow> within (T - {tok}) m0 (hm_remove tok m)"
  by (auto simp: within_def hm.get_remove hm.ok_remove split: if_splits)

lemma within_insert: "within T m0 m \<Longrightarrow> within (insert tok T) m0 (hm_insert tok s m)"
  by (auto simp: within_def hm.get_insert hm.ok_insert split: if_splits)

lemma within_cleanup: "preserves (cleanup_expired now) (sessions_in T m0)"
  unfolding cleanup_expired_def by (rule preserves_modifyp) (simp add: within_retain)

lemma within_absent: "within T m0 m \<Longrightarrow> hm_get m tok = None \<Longrightarrow> within (T - {tok}) m0 m"
  by (auto simp: within_def)

lemma hoare_cleanup: "hoare (sessions_in T m0) (cleanup_expired now) (\<lambda>_. sessions_in T m0) E"
  using within_cleanup[of now T m0] by (auto simp: preserves_def hoare_def cleanup_expired_def modifyp_def)

lemma hoare_read_sessions: "hoare (sessions_in T m0) (gets br_sessions) (\<lambda>m b. br_sessions b = m \<and> within T m0 m) E"
  by (simp add: hoare_def gets_def)

lemma close_session_within:
  "hoare (sessions_in T m0) (close_session now tok)
     (\<lambda>_ b. sessions_in (T - {tok}) m0 b \<and> hm_get (br_sessions b) tok = None)
     (\<lambda>_ b. sessions_in (T - {tok}) m0 b \<and> hm_get (br_sessions b) tok = None)"
  unfolding close_session_def
  by (rule hoare_seqp[OF hoare_bindp[OF _ hoare_read_sessions] hoare_cleanup])
    (auto simp: hoare_def prog_defs hm.get_remove within_remove within_absent split: option.splits)

lemma open_session_within:
  "hoare (sessions_in {} m0) (open_session now later_now sv) (\<lambda>tok. sessions_in {tok} m0) (\<lambda>_. sessions_in {} m0)"
  unfolding open_session_def
  by (rule hoare_seqp[OF hoare_bindp[OF _ hoare_read_sessions] hoare_cleanup])
    (auto simp: hoare_def prog_defs within_insert split: option.splits sum.splits prod.splits if_splits)

lemma page_within:
  "hoare (sessions_in {} m0) (page now later_now tok rq) (\<lambda>_. sessions_in {tok} m0) (\<lambda>_. sessions_in {tok} m0)"
  unfolding page_def
  apply (rule hoare_seqp[OF _ hoare_cleanup])
  apply (split if_split, intro conjI impI)
   apply (auto simp: hoare_def throw_def intro: within_mono)[1]
  apply (rule hoare_bindp[OF _ hoare_read_sessions])
  apply (auto simp: hoare_def throw_def with_session_def within_insert intro: within_mono
      split: option.splits sum.splits prod.splits)
  done

lemma hoare_on_sessions:
  "hoare P m Q E \<Longrightarrow> hoare (\<lambda>k. P (wk_browse k)) (on_sessions m) (\<lambda>x k. Q x (wk_browse k)) (\<lambda>e k. E e (wk_browse k))"
  by (fastforce simp: hoare_def on_sessions_def zoom_def split: option.splits sum.splits prod.splits)

text \<open>The connections and the world of the servers are not part of the sessions.\<close>

lemma keeps_sessions:
  "preserves (on_world m) (\<lambda>k. P (br_sessions (wk_browse k)))"
  "preserves (dispatch cn server operation) (\<lambda>k. P (br_sessions (wk_browse k)))"
  "preserves (dispatch_browse cn server max_tags progress tags_sink) (\<lambda>k. P (br_sessions (wk_browse k)))"
  unfolding preserves_def hoare_def dispatch_def dispatch_browse_def on_world_def
  by (auto simp: zoom_def put_world_def attempt_def split: option.splits sum.splits prod.splits)

lemma within_subset: "within T m0 m \<Longrightarrow> within (insert t T) m0 m"
  by (auto simp: within_def)

text \<open>The token that a request and its answer concern, when the answer is delivered.\<close>

definition touched :: "turn \<Rightarrow> com_request \<Rightarrow> com_reply option \<Rightarrow> token set" where
  "touched t req reply =
     (if tn_closed t \<or> tn_undelivered t then {}
      else case req of
             OpenBrowseSession server \<Rightarrow> (case reply of Some (SessionOpened (Inr tok)) \<Rightarrow> {tok} | _ \<Rightarrow> {})
           | BrowsePage tok rq \<Rightarrow> {tok}
           | _ \<Rightarrow> {})"

lemma close_quietly_within:
  "hoare (worker_in T m0) (close_quietly now tok)
     (\<lambda>_ k. worker_in (T - {tok}) m0 k \<and> hm_get (br_sessions (wk_browse k)) tok = None) E"
  unfolding close_quietly_def
  by (rule hoare_bindp[OF _ hoare_attempt[OF hoare_on_sessions[OF close_session_within]]]) (simp add: hoare_def ret_def)

lemma open_request_within:
  "hoare (worker_in {} m0) (open_request cn t server) (\<lambda>tok. worker_in {tok} m0) (\<lambda>_. worker_in {} m0)"
  unfolding open_request_def
  by (rule hoare_bindp[OF hoare_on_sessions[OF open_session_within] keeps_sessions(1)[unfolded preserves_def]])

lemma hoare_close_or:
  "hoare (worker_in {tok} m0) (if b then close_quietly now tok else ret ())
     (\<lambda>_ k. worker_in (if b then {} else {tok}) m0 k \<and> (b \<longrightarrow> hm_get (br_sessions (wk_browse k)) tok = None)) E"
  using close_quietly_within[of "{tok}" m0 now tok E] by (cases b) (simp_all add: hoare_def ret_def)

text \<open>The sessions that are gone after the request.\<close>

definition ended :: "turn \<Rightarrow> com_request \<Rightarrow> ('w, 'h, 'g) worker \<Rightarrow> bool" where
  "ended t req k \<longleftrightarrow> (\<forall>tok. (req = CloseBrowseSession tok
       \<or> (tn_closed t \<or> tn_undelivered t) \<and> (\<exists>rq. req = BrowsePage tok rq))
     \<longrightarrow> hm_get (br_sessions (wk_browse k)) tok = None)"

fun about_sessions :: "com_request \<Rightarrow> bool" where
  "about_sessions (OpenBrowseSession server) = True"
| "about_sessions (BrowsePage tok rq) = True"
| "about_sessions (CloseBrowseSession tok) = True"
| "about_sessions req = False"

lemma handle_request_keeps_sessions:
  "\<not> about_sessions req \<Longrightarrow> preserves (handle_request pf cn t req) (\<lambda>k. P (br_sessions (wk_browse k)))"
  by (cases req) (auto intro!: preserves_rules keeps_sessions)

lemma handle_request_within:
  "hoare (worker_in {} m0) (handle_request pf cn t req)
     (\<lambda>reply k. worker_in (touched t req reply) m0 k \<and> ended t req k) (\<lambda>_ _. True)"
proof (cases req)
  case (OpenBrowseSession server)
  have "hoare (worker_in {} m0) (attempt (open_request cn t server))
      (\<lambda>r. worker_in (case r of Inr tok \<Rightarrow> {tok} | Inl _ \<Rightarrow> {}) m0) (\<lambda>_ _. True)"
    by (rule hoare_attempt) (simp add: open_request_within)
  moreover have "hoare (worker_in (case r of Inr tok \<Rightarrow> {tok} | Inl _ \<Rightarrow> {}) m0)
      (case r of Inr tok \<Rightarrow> if tn_undelivered t then close_quietly (tn_close t) tok else ret () | Inl _ \<Rightarrow> ret ())
      (\<lambda>_. worker_in (case r of Inr tok \<Rightarrow> if tn_undelivered t then {} else {tok} | Inl _ \<Rightarrow> {}) m0) (\<lambda>_ _. True)" for r :: "opc_error + token"
    using hoare_close_or[of "case r of Inr tok \<Rightarrow> tok" m0 "tn_undelivered t" "tn_close t" "\<lambda>_ _. True"]
    by (cases r) (auto simp: hoare_def ret_def split: option.splits sum.splits prod.splits if_splits)
  ultimately show ?thesis
    unfolding OpenBrowseSession handle_request.simps
    apply (cases "tn_closed t")
     apply (simp add: hoare_def ret_def touched_def ended_def)
    apply (simp add: touched_def ended_def)
    apply (rule hoare_bindp[rotated], assumption)
    apply (rule hoare_seqp[rotated], blast)
    apply (auto simp: hoare_def ret_def within_subset split: sum.splits)
    done
next
  case (BrowsePage tok rq)
  have "hoare (worker_in {} m0) (attempt (on_sessions (page (tn_now t) (tn_later t) tok rq)))
      (\<lambda>_. worker_in {tok} m0) (\<lambda>_ _. True)"
    by (rule hoare_attempt[OF hoare_on_sessions[OF page_within]])
  moreover have "hoare (worker_in {} m0) (close_quietly (tn_now t) tok)
      (\<lambda>_ k. worker_in {} m0 k \<and> hm_get (br_sessions (wk_browse k)) tok = None) (\<lambda>_ _. True)"
    using close_quietly_within[of "{}"] by simp
  ultimately show ?thesis
    unfolding BrowsePage handle_request.simps
    apply (cases "tn_closed t")
     apply (simp add: touched_def ended_def)
     apply (rule hoare_seqp[rotated], assumption)
     apply (simp add: hoare_def ret_def)
    apply (simp only: if_False)
    apply (rule hoare_bindp[rotated], assumption)
    apply (rule hoare_seqp[rotated], rule hoare_close_or)
    apply (auto simp: hoare_def ret_def touched_def ended_def)
    done
next
  case (CloseBrowseSession tok)
  show ?thesis
    unfolding CloseBrowseSession handle_request.simps
    by (rule hoare_bindp[OF _ hoare_attempt[OF hoare_on_sessions[OF close_session_within[of "{}", simplified]]]])
      (simp add: hoare_def ret_def touched_def ended_def)
qed (use handle_request_keeps_sessions[of req pf cn t "within {} m0", unfolded preserves_def] in
    \<open>auto elim!: hoare_cons simp: touched_def ended_def\<close>)

section \<open>Answers\<close>

text \<open>
  A server that answers: its calls return, its enumerators are finite, and a read that
  succeeds fills arrays of the requested length (OPC DA 2.05, 4.5.6.1).
\<close>

definition responsive :: "('w, 'h, 'g) opc_server \<Rightarrow> bool" where
  "responsive sv \<longleftrightarrow> calls_return sv \<and> (\<exists>left. finite_enumerators sv left)
     \<and> (\<forall>n a r c. total (os_AddGroup sv n a r c)) \<and> (\<forall>h f. total (os_RemoveGroup sv h f))
     \<and> (\<forall>g items. total (os_AddItems sv g items)) \<and> (\<forall>g hs vs. total (os_Write sv g hs vs))
     \<and> (\<forall>g s hs. total (os_Read sv g s hs))
     \<and> (\<forall>g s hs w x y w'. os_Read sv g s hs w = Some (Inr (x, y), w')
          \<longrightarrow> (\<exists>xs ys. x = Some xs \<and> y = Some ys \<and> length xs = length hs \<and> length ys = length hs))"

definition responsive_connector :: "('w, 'h, 'g) server_connector \<Rightarrow> bool" where
  "responsive_connector cn \<longleftrightarrow> total (cn_enumerate cn) \<and> (\<forall>name. total (cn_connect cn name))
     \<and> (\<forall>name w v w'. cn_connect cn name w = Some (Inr v, w') \<longrightarrow> responsive v)"

definition pool_responsive :: "(string, ('w, 'h, 'g) opc_server) hmap \<Rightarrow> bool" where
  "pool_responsive cache \<longleftrightarrow> (\<forall>name v. hm_get cache name = Some v \<longrightarrow> responsive v)"

lemma total_returns: "total m \<Longrightarrow> m s \<noteq> None"
  by (simp add: total_def)

lemma store_read_returns:
  "i + length idxs \<le> length states \<Longrightarrow> i + length idxs \<le> length errors \<Longrightarrow>
   store_read pf p tags states errors i idxs tvs \<noteq> None"
  by (induction idxs arbitrary: i tvs) simp_all

lemma sort_added_lengths: "sort_added idx rs tvs = (hs, is, tvs') \<Longrightarrow> length hs = length is"
  by (induction rs arbitrary: idx tvs hs "is" tvs') (auto split: if_splits prod.splits)

lemma read_items_lengths:
  assumes "responsive sv" and "read_items sv g s hs w = Some (Inr (x, y), w')"
  shows "length (ra_as_slice x) = length hs" and "length (ra_as_slice y) = length hs"
proof -
  from assms(2) obtain n a b where n: "u32_len hs = Inr n" and read: "os_Read sv g s hs w = Some (Inr (a, b), w')"
    and xy: "x = \<lparr>ra_pointer = a, ra_len = n\<rparr>" "y = \<lparr>ra_pointer = b, ra_len = n\<rparr>"
    by (auto simp: read_items_def bindp_eq_Inr lift_result_def ret_def throw_def split: if_splits)
  from n have "unat n = length hs" by (auto simp: u32_len_def split: if_splits)
  moreover from assms(1) read obtain xs ys where "a = Some xs" "b = Some ys" "length xs = length hs" "length ys = length hs"
    unfolding responsive_def by blast
  ultimately show "length (ra_as_slice x) = length hs" and "length (ra_as_slice y) = length hs"
    by (simp_all add: xy ra_full)
qed

lemma total_group_calls:
  assumes "responsive sv"
  shows "total (add_group sv n a r c)" and "total (discard_group sv h)" and "total (add_items sv g items)"
    and "total (read_items sv g s hs)" and "total (write_items sv g hs vs)"
  using assms
  unfolding responsive_def add_group_def discard_group_def remove_group_def add_items_def read_items_def write_items_def
  by (auto intro!: total_rules simp: split_beta)

lemma total_read_in_group:
  assumes "responsive sv"
  shows "total (read_in_group pf tags p sv g h)"
proof -
  note calls = total_group_calls[OF assms]
  have done_fine: "seqp (discard_group sv h) (ret out) w \<noteq> None" "seqp (discard_group sv h) (throw e) w \<noteq> None"
    for out :: "tag_value list" and e :: opc_error and w
    by (intro total_returns total_rules calls)+
  have stored: "bindp (read_items sv g OPC_DS_DEVICE hs) (\<lambda>(x, y).
        case store_read pf p tags (ra_as_slice x) (ra_as_slice y) 0 is tvs of
          None \<Rightarrow> diverge | Some out \<Rightarrow> seqp (discard_group sv h) (ret out)) w \<noteq> None"
    if "length hs = length is" for hs "is" tvs w
  proof (rule bindp_returns[OF total_returns[OF calls(4)]])
    fix xy w'
    assume read: "read_items sv g OPC_DS_DEVICE hs w = Some (Inr xy, w')"
    obtain x y where xy: "xy = (x, y)" by (cases xy)
    from read_items_lengths[OF assms read[unfolded xy]] that
    have "store_read pf p tags (ra_as_slice x) (ra_as_slice y) 0 is tvs \<noteq> None"
      by (intro store_read_returns) simp_all
    then show "(case xy of (x, y) \<Rightarrow>
        case store_read pf p tags (ra_as_slice x) (ra_as_slice y) 0 is tvs of
          None \<Rightarrow> diverge | Some out \<Rightarrow> seqp (discard_group sv h) (ret out)) w' \<noteq> None"
      by (auto simp del: not_None_eq simp: xy done_fine split: option.split)
  qed
  have "read_in_group pf tags p sv g h w \<noteq> None" for w
    unfolding read_in_group_def
    by (rule bindp_returns[OF total_returns[OF calls(3)]])
      (auto simp del: not_None_eq simp: done_fine stored sort_added_lengths split: prod.split)
  then show ?thesis by (simp add: total_def)
qed

lemma total_operations:
  assumes "responsive sv"
  shows "total (handle_read pf tags p sv)" and "total (handle_write tag v sv)"
    and "total (handle_browse max_tags sv)" and "total (capabilities_for_server sv)"
proof -
  note calls = total_group_calls[OF assms]
  show "total (handle_read pf tags p sv)"
    unfolding handle_read_def by (intro total_rules calls total_read_in_group[OF assms])
  show "total (handle_write tag v sv)"
    unfolding handle_write_def write_in_group_def by (intro total_rules calls)
  from assms obtain left where calls_sv: "calls_return sv" and fin: "finite_enumerators sv left"
    by (auto simp: responsive_def)
  show "total (handle_browse max_tags sv)"
    by (rule handle_browse_total[OF calls_sv fin])
  show "total (capabilities_for_server sv)"
    unfolding capabilities_for_server_def Let_def by (intro total_rules total_calls[OF calls_sv])
qed

text \<open>Dispatching on a responsive pool.\<close>

lemma dispatch_returns:
  assumes "\<And>n. total (connect n)" and "\<And>n s v s'. connect n s = Some (Inr v, s') \<Longrightarrow> good v"
    and "\<And>v. good v \<Longrightarrow> total (operation v)" and "\<And>n v. hm_get cache n = Some v \<Longrightarrow> good v"
  shows "dispatch_with_retry connect name operation (s, cache) \<noteq> None"
proof -
  have hit: "dispatch_with_retry connect name operation (s, c) \<noteq> None"
    if got: "hm_get c name = Some v" and v: "good v" for s c v
  proof -
    have "operation v s \<noteq> None" by (rule total_returns[OF assms(3)[OF v]])
    moreover have "connect name s1 \<noteq> None" for s1 by (rule total_returns[OF assms(1)])
    moreover have "operation v' s2 \<noteq> None" if "connect name s1 = Some (Inr v', s2)" for v' s1 s2
      by (rule total_returns[OF assms(3)[OF assms(2)[OF that]]])
    ultimately show ?thesis
      by (auto simp del: not_None_eq simp: dispatch_hit[OF got] split: option.split sum.split)
  qed
  show ?thesis
  proof (cases "hm_get cache name")
    case (Some v)
    from hit[OF Some assms(4)[OF Some]] show ?thesis .
  next
    case None
    have "dispatch_with_retry connect name operation (s1, hm_insert name v cache) \<noteq> None"
      if "connect name s = Some (Inr v, s1)" for v s1
      by (rule hit[OF _ assms(2)[OF that]]) (simp add: hm.get_insert)
    moreover have "connect name s \<noteq> None" by (rule total_returns[OF assms(1)])
    ultimately show ?thesis
      by (auto simp del: not_None_eq simp: dispatch_miss[OF None] split: option.split sum.split)
  qed
qed

lemma dispatch_keeps_good:
  assumes "\<And>n s v s'. connect n s = Some (Inr v, s') \<Longrightarrow> good v" and "\<And>n v. hm_get cache n = Some v \<Longrightarrow> good v"
    and "dispatch_with_retry connect name operation (s, cache) = Some (r, (s', cache'))"
  shows "\<forall>n v. hm_get cache' n = Some v \<longrightarrow> good v"
proof -
  have hit: "\<forall>n v. hm_get cache' n = Some v \<longrightarrow> good v"
    if "dispatch_with_retry connect name operation (s, c) = Some (r, (s', cache'))" and "hm_get c name = Some v"
      and "\<And>n v. hm_get c n = Some v \<Longrightarrow> good v" for s c v
    using that assms(1)
    by (auto simp: dispatch_hit hm.get_insert hm.get_remove split: option.splits sum.splits prod.splits if_splits)
  show ?thesis
  proof (cases "hm_get cache name")
    case (Some v)
    from hit[OF assms(3) Some assms(2)] show ?thesis .
  next
    case None
    with assms(3) consider "cache' = cache"
      | v s1 where "connect name s = Some (Inr v, s1)"
        and "dispatch_with_retry connect name operation (s1, hm_insert name v cache) = Some (r, (s', cache'))"
      by (auto simp: dispatch_miss split: option.splits sum.splits)
    then show ?thesis
    proof cases
      case 1
      with assms(2) show ?thesis by simp
    next
      case (2 v s1)
      have "hm_get (hm_insert name v cache) name = Some v" by (simp add: hm.get_insert)
      moreover have "good v'" if "hm_get (hm_insert name v cache) n = Some v'" for n v'
        using that assms(2) assms(1)[OF 2(1)] by (simp add: hm.get_insert split: if_splits)
      ultimately show ?thesis by (rule hit[OF 2(2)])
    qed
  qed
qed

text \<open>The answer fits the request; a closed reply channel is skipped where the worker looks.\<close>

fun fits :: "com_request \<Rightarrow> com_reply \<Rightarrow> bool" where
  "fits (ListServers host) (ServersListed r) = True"
| "fits (ReadTagValues server tag_ids presentation) (ValuesRead r) = True"
| "fits (WriteTagValue server tag_id val) (ValueWritten r) = True"
| "fits (BrowseTags server max_tags progress tags_sink) (TagsBrowsed r p s) = True"
| "fits (BrowseCapabilities server) (CapabilitiesProbed r) = True"
| "fits (OpenBrowseSession server) (SessionOpened r) = True"
| "fits (BrowsePage tok rq) (PageBrowsed r) = True"
| "fits (CloseBrowseSession tok) (SessionClosed r) = True"
| "fits req reply = False"

definition answered :: "turn \<times> com_request \<Rightarrow> com_reply option \<Rightarrow> bool" where
  "answered q reply = (case reply of Some a \<Rightarrow> fits (snd q) a | None \<Rightarrow> tn_closed (fst q))"

lemma zoom_run: "zoom get put m s = Some (r, s') \<longleftrightarrow> (\<exists>t. m (get s) = Some (r, t) \<and> s' = put t s)"
  by (auto simp: zoom_def split: option.splits)

text \<open>A part of a step that yields a value satisfying \<open>Q\<close> and never an error.\<close>

abbreviation yields :: "('s, unit, 'a) prog \<Rightarrow> ('a \<Rightarrow> bool) \<Rightarrow> bool" where
  "yields m Q \<equiv> hoare (\<lambda>_. True) m (\<lambda>x _. Q x) (\<lambda>_ _. False)"

lemma yields_attempt: "yields (attempt m) (\<lambda>_. True)"
  by (simp add: hoare_def attempt_def split: option.split prod.split sum.split)

lemma yields_ret: "Q x \<Longrightarrow> yields (ret x) Q"
  by (simp add: hoare_def ret_def)

lemma yields_bindp: "yields m R \<Longrightarrow> (\<And>x. R x \<Longrightarrow> yields (k x) Q) \<Longrightarrow> yields (bindp m k) Q"
  by (rule hoare_bindp[where R = "\<lambda>x _. R x"]) (auto simp: hoare_def)

lemma yields_seqp: "yields m (\<lambda>_. True) \<Longrightarrow> yields k Q \<Longrightarrow> yields (seqp m k) Q"
  unfolding seqp_def by (rule yields_bindp)

lemma yields_dispatch: "yields (dispatch cn server operation) (\<lambda>_. True)"
  unfolding dispatch_def by (rule yields_attempt)

lemma yields_dispatch_browse:
  "yields (dispatch_browse cn server max_tags progress tags_sink) (\<lambda>r. \<exists>a b c. r = TagsBrowsed a b c)"
  by (auto simp: hoare_def dispatch_browse_def zoom_def bindp_def gets_def attempt_def
      split: option.splits sum.splits prod.splits)

lemma yields_close_quietly: "yields (close_quietly now tok) (\<lambda>_. True)"
  unfolding close_quietly_def by (rule yields_bindp[OF yields_attempt yields_ret]) simp

lemma yields_cleanup: "yields (on_sessions (cleanup_expired now)) (\<lambda>_. True)"
  by (simp add: hoare_def on_sessions_def zoom_def cleanup_expired_def modifyp_def)

lemma yields_handled: "yields (handle_request pf cn t req) (answered (t, req))"
  by (cases req) (auto intro!: yields_bindp[OF yields_attempt] yields_bindp[OF yields_dispatch]
      yields_bindp[OF yields_dispatch_browse] yields_seqp yields_close_quietly yields_ret
      simp: answered_def split: sum.split)

lemma step_answers:
  assumes "worker_step pf cn t req k = Some (r, k')"
  shows "\<exists>reply. r = Inr reply \<and> answered (t, req) reply"
proof -
  have "yields (worker_step pf cn t req) (answered (t, req))"
    unfolding worker_step_def by (rule yields_seqp[OF yields_cleanup yields_handled])
  from hoare_outcome[OF this TrueI assms] show ?thesis by (cases r) auto
qed

text \<open>The pool stays responsive, whatever the request.\<close>

lemma keeps_cache:
  "preserves (on_world m) (\<lambda>k. P (wk_cache k))"
  "preserves (on_sessions n) (\<lambda>k. P (wk_cache k))"
  by (auto simp: on_world_def on_sessions_def put_world_def zoom_run intro!: preservesI)

lemma dispatches_keep_responsive:
  assumes cn: "responsive_connector cn"
  shows "preserves (dispatch cn server operation) (\<lambda>k. pool_responsive (wk_cache k))"
    and "preserves (dispatch_browse cn server max_tags progress tags_sink) (\<lambda>k. pool_responsive (wk_cache k))"
proof -
  have from_cn: "responsive v" if "cn_connect cn n w = Some (Inr v, w')" for n w v w'
    using cn that unfolding responsive_connector_def by blast
  have from_cn': "responsive v" if "in_world (cn_connect cn n) s = Some (Inr v, s')" for n s v s'
    using from_cn that by (auto simp: in_world_def zoom_run)
  show "preserves (dispatch cn server operation) (\<lambda>k. pool_responsive (wk_cache k))"
  proof (rule preservesI)
    fix k r k'
    assume pool: "pool_responsive (wk_cache k)" and "dispatch cn server operation k = Some (r, k')"
    then obtain q w cache where "dispatch_with_retry (cn_connect cn) server operation (br_world (wk_browse k), wk_cache k)
        = Some (q, (w, cache))" and "wk_cache k' = cache"
      by (auto simp: dispatch_def attempt_def zoom_run split: option.splits)
    moreover from this(1) have "\<forall>n v. hm_get cache n = Some v \<longrightarrow> responsive v"
      by (rule dispatch_keeps_good[rotated 2]) (use from_cn pool in \<open>auto simp: pool_responsive_def\<close>)
    ultimately show "pool_responsive (wk_cache k')" by (simp add: pool_responsive_def)
  qed
  show "preserves (dispatch_browse cn server max_tags progress tags_sink) (\<lambda>k. pool_responsive (wk_cache k))"
  proof (rule preservesI)
    fix k r k'
    assume pool: "pool_responsive (wk_cache k)"
      and "dispatch_browse cn server max_tags progress tags_sink k = Some (r, k')"
    then obtain q c cache where "dispatch_with_retry (\<lambda>name. in_world (cn_connect cn name)) server (handle_browse max_tags)
        (\<lparr>bc_world = br_world (wk_browse k), bc_tags = [], bc_sink = tags_sink, bc_progress = progress\<rparr>, wk_cache k) = Some (q, (c, cache))" and "wk_cache k' = cache"
      by (auto simp: dispatch_browse_def attempt_def zoom_run bindp_def gets_def split: option.splits)
    moreover from this(1) have "\<forall>n v. hm_get cache n = Some v \<longrightarrow> responsive v"
      by (rule dispatch_keeps_good[rotated 2]) (use from_cn' pool in \<open>auto simp: pool_responsive_def\<close>)
    ultimately show "pool_responsive (wk_cache k')" by (simp add: pool_responsive_def)
  qed
qed

lemma step_keeps_responsive:
  "responsive_connector cn \<Longrightarrow> preserves (worker_step pf cn t req) (\<lambda>k. pool_responsive (wk_cache k))"
  unfolding worker_step_def
  by (cases req) (auto simp: close_quietly_def open_request_def split: sum.split
      intro!: preserves_rules keeps_cache dispatches_keep_responsive)

lemma attempt_returns: "attempt m s \<noteq> None \<longleftrightarrow> m s \<noteq> None"
  by (auto simp: attempt_def split: option.split)

lemma then_ret: "bindp m (\<lambda>x. ret (f x)) s \<noteq> None \<longleftrightarrow> m s \<noteq> None" "ret y s \<noteq> None"
  by (auto simp: bindp_def ret_def split: option.split sum.split)

lemma pooled_dispatch_returns:
  assumes cn: "responsive_connector cn" and pool: "pool_responsive (wk_cache k)"
    and op: "\<And>v. responsive v \<Longrightarrow> total (operation v)"
  shows "dispatch cn server operation k \<noteq> None"
proof -
  have "dispatch_with_retry (cn_connect cn) server operation (br_world (wk_browse k), wk_cache k) \<noteq> None"
  proof (rule dispatch_returns[where good = responsive])
    show "responsive v" if "cn_connect cn n s = Some (Inr v, s')" for n s v s'
      using cn that unfolding responsive_connector_def by blast
  qed (use cn pool op in \<open>auto simp: responsive_connector_def pool_responsive_def\<close>)
  then show ?thesis by (auto simp: dispatch_def attempt_def zoom_def split: option.split)
qed

lemma pooled_browse_returns:
  assumes cn: "responsive_connector cn" and pool: "pool_responsive (wk_cache k)"
  shows "dispatch_browse cn server max_tags progress tags_sink k \<noteq> None"
proof -
  have "dispatch_with_retry (\<lambda>name. in_world (cn_connect cn name)) server (handle_browse max_tags)
      (\<lparr>bc_world = br_world (wk_browse k), bc_tags = [], bc_sink = tags_sink, bc_progress = progress\<rparr>, wk_cache k) \<noteq> None"
  proof (rule dispatch_returns[where good = responsive])
    show "total (in_world (cn_connect cn n))" for n
      using cn by (intro total_in_world) (simp add: responsive_connector_def)
    show "responsive v" if "in_world (cn_connect cn n) s = Some (Inr v, s')" for n s v s'
      using cn that unfolding responsive_connector_def in_world_def zoom_run by blast
  qed (use pool in \<open>auto simp: pool_responsive_def total_operations\<close>)
  then show ?thesis
    by (auto simp: dispatch_browse_def attempt_def zoom_def bindp_def gets_def split: option.split)
qed

lemma step_returns:
  fixes k :: "('w, 'h, 'g) worker"
  assumes cn: "responsive_connector cn" and pool: "pool_responsive (wk_cache k)" and "\<not> about_sessions req"
  shows "worker_step pf cn t req k \<noteq> None"
proof -
  obtain k1 where k1: "on_sessions (cleanup_expired (tn_cleanup t)) k = Some (Inr () :: unit + unit, k1)" "wk_cache k1 = wk_cache k"
    by (auto simp: on_sessions_def zoom_def cleanup_expired_def modifyp_def)
  from pool k1(2) have pool1: "pool_responsive (wk_cache k1)" by simp
  have listing: "on_world (cn_enumerate cn) k1 \<noteq> None"
    using cn by (auto simp: responsive_connector_def on_world_def zoom_def total_def split: option.split)
  have "worker_step pf cn t req k = handle_request pf cn t req k1"
    by (simp add: worker_step_def seqp_def bindp_def k1(1))
  then show ?thesis
    using assms(3) listing
    by (cases req) (simp_all del: not_None_eq add: then_ret total_operations attempt_returns
        pooled_dispatch_returns[OF cn pool1] pooled_browse_returns[OF cn pool1])
qed

lemma loop_answers:
  assumes "responsive_connector cn" and "pool_responsive (wk_cache k)"
    and "\<And>t req k'. (t, req) \<in> set reqs \<Longrightarrow> about_sessions req \<Longrightarrow> worker_step pf cn t req k' \<noteq> None"
  shows "\<exists>replies k'. worker_loop pf cn reqs k = (replies, Some k') \<and> list_all2 answered reqs replies"
  using assms(2,3)
proof (induction reqs arbitrary: k)
  case Nil
  then show ?case by simp
next
  case (Cons q reqs)
  obtain t req where q: "q = (t, req)" by (cases q)
  have "worker_step pf cn t req k \<noteq> None"
    using step_returns[OF assms(1) Cons.prems(1)] Cons.prems(2)[of t req] by (cases "about_sessions req") (auto simp: q)
  then obtain r k1 where run: "worker_step pf cn t req k = Some (r, k1)" by auto
  from step_answers[OF run] obtain reply where r: "r = Inr reply" and fit: "answered (t, req) reply" by blast
  have "pool_responsive (wk_cache k1)"
    by (rule preservesD[OF step_keeps_responsive[OF assms(1)] Cons.prems(1) run])
  then obtain replies k' where "worker_loop pf cn reqs k1 = (replies, Some k')" and "list_all2 answered reqs replies"
    using Cons.IH Cons.prems(2) by fastforce
  with fit show ?case by (simp add: q run r)
qed

section \<open>A connected rack\<close>

definition rack_connector :: "(rack, nat, u32) server_connector" where
  "rack_connector = \<lparr>cn_enumerate = ret [''Rack''], cn_connect = (\<lambda>name. ret (rack_server\<lparr>cs_da3 := True\<rparr>))\<rparr>"

definition quiet_turn :: turn where
  "quiet_turn = \<lparr>tn_cleanup = 1, tn_now = 1, tn_later = 2, tn_close = 3, tn_closed = False, tn_undelivered = False\<rparr>"

definition rack_worker :: "(rack, nat, u32) worker" where
  "rack_worker = new_worker \<lparr>rk_groups = {}, rk_refusing = False\<rparr> [5]"

lemma rack_responsive: "responsive_connector rack_connector"
  by (auto simp: responsive_connector_def rack_connector_def responsive_def calls_return_def finite_enumerators_def
      rack_server_def total_def ret_def throw_def empty_batch_def)

lemma rack_opens:
  "map_option fst (worker_step utc_platform rack_connector (quiet_turn\<lparr>tn_undelivered := True\<rparr>) (OpenBrowseSession ''Rack'') rack_worker)
     = Some (Inr (Some (SessionOpened (Inr 5))))"
  by (simp add: worker_step_def rack_worker_def new_worker_def quiet_turn_def rack_connector_def rack_server_def
      on_sessions_def zoom_def cleanup_expired_def prog_defs hm_retain_def open_request_def on_world_def put_world_def
      open_session_def hm_len_def MAX_BROWSE_SESSIONS_def capabilities_for_server_def hm_contains_def
      com_server.defs close_quietly_def close_session_def hm_insert_def hm_remove_def hm_get_def session_live_def
      new_session_def BROWSE_SESSION_IDLE_TIMEOUT_def)

text \<open>The state of the worker stays within the limits of its tables, whatever is asked.\<close>

lemma keeps_browse:
  "preserves m P \<Longrightarrow> preserves (on_sessions m) (\<lambda>k. P (wk_browse k))"
  by (rule preservesI) (auto simp: on_sessions_def zoom_run dest: preservesD)

lemma sessions_ok_world: "sessions_ok (br_world_update f b) = sessions_ok b"
  by (simp add: sessions_ok_def)

lemma sessions_ok_page: "preserves (page now later_now tok rq) sessions_ok"
  by (rule preservesI) (blast intro: sessions_ok_step browse_step.paged)

lemma sessions_ok_close: "preserves (close_session now tok) sessions_ok"
  by (rule preservesI) (blast intro: sessions_ok_step browse_step.closed)

lemma world_keeps_browse:
  "preserves (on_world m) (\<lambda>k. sessions_ok (wk_browse k))"
  "preserves (dispatch cn server operation) (\<lambda>k. sessions_ok (wk_browse k))"
  "preserves (dispatch_browse cn server max_tags progress tags_sink) (\<lambda>k. sessions_ok (wk_browse k))"
  by (rule preservesI; auto simp: on_world_def dispatch_def dispatch_browse_def zoom_run put_world_def attempt_def
      sessions_ok_world split: option.splits prod.splits)+

lemma step_keeps_sessions_ok: "preserves (worker_step pf cn t req) (\<lambda>k. sessions_ok (wk_browse k))"
  unfolding worker_step_def
  by (cases req) (auto simp: close_quietly_def open_request_def split: sum.split
      intro!: preserves_rules world_keeps_browse keeps_browse sessions_ok_cleanup sessions_ok_open sessions_ok_page sessions_ok_close)

section \<open>Properties\<close>

text \<open>
  C7. A dispatch runs the operation at most twice, the second time only on a new connection
  after the first run failed with one of the four RPC errors; the answer is that of the run
  on the connection pooled afterwards, or the refusal to connect when none is pooled; a
  connection that failed does not stay pooled, and no other server's connection is touched.
\<close>

theorem dispatch_retries_once:
  assumes "dispatch_with_retry (\<lambda>k. on_first (connect k)) name (counted operation) ((s, 0), cache)
             = Some (r, ((s', runs), cache'))"
  shows "runs \<le> 2
    \<and> (\<forall>k. k \<noteq> name \<longrightarrow> hm_get cache' k = hm_get cache k)
    \<and> (case hm_get cache' name of
         Some v \<Rightarrow> \<exists>s0. operation v s0 = Some (r, s')
       | None \<Rightarrow> \<exists>s0 e. r = Inl e \<and> connect name s0 = Some (Inl e, s'))
    \<and> (runs = 2 \<longrightarrow> (\<exists>v v' s0 s1 s2 e. operation v s0 = Some (Inl e, s1) \<and> is_connection_error e
         \<and> connect name s1 = Some (Inr v', s2) \<and> hm_get cache' name = Some v'))
    \<and> (\<forall>v e s1. hm_get cache name = Some v \<and> operation v s = Some (Inl e, s1) \<and> is_connection_error e
         \<longrightarrow> (case connect name s1 of
               Some (Inr v', s2) \<Rightarrow> runs = 2 \<and> hm_get cache' name = Some v'
             | _ \<Rightarrow> runs = 1 \<and> hm_get cache' name = None))"
proof (cases "hm_get cache name")
  case (Some v)
  from dispatch_hit_outcome[OF Some assms] Some show ?thesis
    by (auto split: option.splits) blast
next
  case None
  with assms consider e where "connect name s = Some (Inl e, s')" "r = Inl e" "cache' = cache" "runs = 0"
    | v s1 where "connect name s = Some (Inr v, s1)"
      and "dispatch_with_retry (\<lambda>k. on_first (connect k)) name (counted operation)
             ((s1, 0), hm_insert name v cache) = Some (r, ((s', runs), cache'))"
    by (auto simp: dispatch_miss on_first_run split: option.splits sum.splits)
  then show ?thesis
  proof cases
    case 1
    with None show ?thesis by auto
  next
    case (2 v s1)
    have "hm_get (hm_insert name v cache) name = Some v" by (simp add: hm.get_insert)
    from dispatch_hit_outcome[OF this 2(2)] None show ?thesis
      by (auto simp: hm.get_insert split: option.splits) blast
  qed
qed

theorem dispatch_retries_once_witness:
  "\<exists>r s' cache'.
     dispatch_with_retry (\<lambda>k. on_first (\<lambda>s :: nat. Some (Inr (s + 10), s + 1))) ''Plant''
       (counted (\<lambda>v s. if v = 1 then Some (Inl (Com 0x800706BA []), s) else Some (Inr v, s)))
       ((4, 0), [(''Plant'', 1)]) = Some (r :: opc_error + nat, ((s', 2), cache'))
     \<and> hm_get cache' ''Plant'' = Some 14"
proof -
  let ?op = "\<lambda>v s :: nat. if v = 1 then Some (Inl (Com 0x800706BA []), s) else Some (Inr v, s)"
  let ?connect = "\<lambda>k :: string. \<lambda>s :: nat. Some (Inr (s + 10) :: opc_error + nat, s + 1)"
  obtain cache' where run: "dispatch_with_retry (\<lambda>k. on_first (?connect k)) ''Plant'' (counted ?op)
      ((4, 0), [(''Plant'', 1)]) = Some (Inr 14 :: opc_error + nat, ((5, 2), cache'))"
    by (simp add: dispatch_with_retry_def prog_defs on_first_def update_pool_def hm_get_def counted_def
        is_connection_error_def)
  from dispatch_retries_once[OF run] have "hm_get cache' ''Plant'' = Some 14"
    by (simp add: is_connection_error_def hm_get_def)
  with run show ?thesis by blast
qed





end
