(* ===== verification/Client.thy ===== *)
theory Client
  imports Inventory Worker
begin

text \<open>
  The client of \<open>backend/opc_da.rs\<close>, the implementation of \<open>OpcProvider\<close>: its requests to the COM
  worker, and the threads of its inventories, of which at most one runs.

  A call waits on the reply channel of its request; here the worker handles the request of the
  call directly (\<open>call_worker\<close>), and a worker whose thread has ended is \<open>None\<close>. The start of
  an inventory and the inventory's thread are interleaved: the steps of \<open>inventory_step\<close> are the
  accesses to the atomic flag \<open>inventory_active\<close>, with the calls and threads that
  are between them.
\<close>

section \<open>Requests\<close>

text \<open>The methods of the provider that ask the COM worker.\<close>

datatype provider_call =
    CallListServers string
  | CallBrowseTags string nat u64 "string list option"
  | CallBrowseCapabilities string
  | CallOpenBrowseSession string
  | CallBrowsePage token browse_page_request
  | CallCloseBrowseSession token
  | CallReadTagValues string "string list"
  | CallReadTagValuesForDisplay string "string list"
  | CallWriteTagValue string string opc_value

definition read_with_presentation :: "string \<Rightarrow> string list \<Rightarrow> read_presentation \<Rightarrow> com_request" where
  "read_with_presentation server tag_ids presentation = ReadTagValues server tag_ids presentation"

fun request_of :: "provider_call \<Rightarrow> com_request" where
  "request_of (CallListServers host) = ListServers host"
| "request_of (CallBrowseTags server max_tags count tags_sink) = BrowseTags server max_tags count tags_sink"
| "request_of (CallBrowseCapabilities server) = BrowseCapabilities server"
| "request_of (CallOpenBrowseSession server) = OpenBrowseSession server"
| "request_of (CallBrowsePage session_token request) = BrowsePage session_token request"
| "request_of (CallCloseBrowseSession session_token) = CloseBrowseSession session_token"
| "request_of (CallReadTagValues server tag_ids) = read_with_presentation server tag_ids Semantic"
| "request_of (CallReadTagValuesForDisplay server tag_ids) = read_with_presentation server tag_ids Display"
| "request_of (CallWriteTagValue server tag_id val) = WriteTagValue server tag_id val"

text \<open>
  A call whose caller waits for the answer: the channel accepts the request while the thread
  runs, and a thread that ends during the request drops its reply channel.
\<close>

definition call_worker ::
  "platform \<Rightarrow> ('w, 'h, 'g) server_connector \<Rightarrow> turn \<Rightarrow> provider_call \<Rightarrow> ('w, 'h, 'g) worker option
     \<Rightarrow> (opc_error + com_reply) \<times> ('w, 'h, 'g) worker option" where
  "call_worker pf cn t call w =
     (case w of
        None \<Rightarrow> (send_request True False None, None)
      | Some k \<Rightarrow>
          (case worker_step pf cn (t\<lparr>tn_closed := False, tn_undelivered := False\<rparr>) (request_of call) k of
             Some (Inr reply, k') \<Rightarrow> (send_request False True (map_option Inr reply), Some k')
           | _ \<Rightarrow> (send_request False True None, None)))"

text \<open>
  A caller who waits gets an answer of its kind, or learns that the worker ended; once it
  has ended, every call fails at once.
\<close>

lemma calls_answer_or_lose_the_worker:
  assumes "call_worker pf cn t call w = (r, w')"
  shows "case w of
      None \<Rightarrow> r = Inl (Internal ''COM worker thread panicked'') \<and> w' = None
    | Some _ \<Rightarrow> (\<exists>reply k'. r = Inr reply \<and> w' = Some k' \<and> fits (request_of call) reply) \<or>
        (r = Inl (Internal ''COM worker shut down during request'') \<and> w' = None)"
proof (cases w)
  case None
  with assms show ?thesis by (simp add: call_worker_def send_request_def)
next
  case (Some k)
  let ?t = "t\<lparr>tn_closed := False, tn_undelivered := False\<rparr>"
  show ?thesis
  proof (cases "worker_step pf cn ?t (request_of call) k")
    case None
    with Some assms show ?thesis by (simp add: call_worker_def send_request_def)
  next
    case ran: (Some out)
    obtain q k' where out: "out = (q, k')" by (cases out)
    from step_answers[OF ran[unfolded out]] obtain reply where "q = Inr (Some reply)" "fits (request_of call) reply"
      by (auto simp: answered_def split: option.splits)
    with Some ran out assms show ?thesis by (auto simp: call_worker_def send_request_def)
  qed
qed

section \<open>The thread of an inventory\<close>

type_synonym stream_item = "opc_error + inventory_event"

text \<open>What \<open>catch_unwind\<close> guards: COM is initialized for the thread, then the inventory runs.\<close>

definition inventory_body ::
  "string + unit \<Rightarrow> ('w, 'h, 'g) server_connector \<Rightarrow> string \<Rightarrow> string option \<Rightarrow> inventory_options
     \<Rightarrow> ('w, 'h, unit) inventory_prog" where
  "inventory_body com cn server root_item_id options =
     (case com of
        Inl reason \<Rightarrow> throw (Internal reason)
      | Inr _ \<Rightarrow>
          run_inventory_at_root (bindp (cn_connect cn server) (\<lambda>opc_server. ret (com_server.truncate opc_server)))
            root_item_id options)"

text \<open>
  All that the thread puts on the channel, given how its body ended (\<open>None\<close>: it panicked) and
  what the body left of the channel. A failure is the last item.
\<close>

definition blocking_send :: "stream_item \<Rightarrow> sink \<Rightarrow> stream_item list" where
  "blocking_send item sk = (if sk_room sk = 0 then [] else [item])"

definition thread_items :: "(opc_error + unit) option \<Rightarrow> sink \<Rightarrow> stream_item list" where
  "thread_items result sk =
     map Inr (sk_sent sk) @
     (case result of
        Some (Inr _) \<Rightarrow> []
      | Some (Inl error) \<Rightarrow> blocking_send (Inl error) sk
      | None \<Rightarrow> blocking_send (Inl (Internal ''OPC namespace inventory worker panicked'')) sk)"

section \<open>Starting an inventory\<close>

text \<open>Up to the swap of the flag, and from the attempt to spawn the thread on.\<close>

definition claim_inventory :: "inventory_options \<Rightarrow> bool \<Rightarrow> (opc_error + unit) \<times> bool" where
  "claim_inventory options active =
     (if io_batch_size options = 0 \<or> MAX_INVENTORY_BATCH_SIZE < io_batch_size options then
        (Inl (InvalidState (''Inventory batch size must be between 1 and ''
           @ show_nat (unat MAX_INVENTORY_BATCH_SIZE))), active)
      else if active then (Inl (InvalidState ''An OPC namespace inventory is already running''), True)
      else (Inr (), True))"

definition new_stream :: "inventory_options \<Rightarrow> stream_item inventory_stream" where
  "new_stream options =
     \<lparr>is_queue = [], is_receiver_closed = False, is_control = control_new_with_batch_size (io_batch_size options),
      is_worker_joined = False, is_terminal_event_seen = False\<rparr>"

definition spawned_inventory ::
  "string + unit \<Rightarrow> inventory_options \<Rightarrow> bool \<Rightarrow> (opc_error + stream_item inventory_stream) \<times> bool" where
  "spawned_inventory spawn_result options active =
     (case spawn_result of
        Inr _ \<Rightarrow> (Inr (new_stream options), active)
      | Inl error \<Rightarrow> (Inl (Internal (''failed to start OPC inventory worker: '' @ error)), False))"

definition start_inventory_with_root ::
  "string + unit \<Rightarrow> inventory_options \<Rightarrow> bool \<Rightarrow> (opc_error + stream_item inventory_stream) \<times> bool" where
  "start_inventory_with_root spawn_result options active =
     (case claim_inventory options active of
        (Inl error, active) \<Rightarrow> (Inl error, active)
      | (Inr _, active) \<Rightarrow> spawned_inventory spawn_result options active)"

text \<open>\<open>InventoryActiveGuard\<close>, dropped when the thread ends, however it ends.\<close>

definition active_guard_drop :: "bool \<Rightarrow> bool" where
  "active_guard_drop active = False"

text \<open>
  The flag, with the number of calls between swap and spawn and the number of threads. A step
  is one access to the flag.
\<close>

record inventories =
  ivs_active :: bool
  ivs_starting :: nat
  ivs_running :: nat

definition no_inventories :: inventories where
  "no_inventories = \<lparr>ivs_active = False, ivs_starting = 0, ivs_running = 0\<rparr>"

inductive inventory_step :: "inventories \<Rightarrow> inventories \<Rightarrow> bool" where
  claimed: "claim_inventory options (ivs_active s) = (Inr (), a) \<Longrightarrow>
    inventory_step s (s\<lparr>ivs_active := a, ivs_starting := ivs_starting s + 1\<rparr>)"
| refused: "claim_inventory options (ivs_active s) = (Inl e, a) \<Longrightarrow> inventory_step s (s\<lparr>ivs_active := a\<rparr>)"
| spawned: "ivs_starting s = Suc n \<Longrightarrow> spawned_inventory (Inr ()) options (ivs_active s) = (Inr stream, a) \<Longrightarrow>
    inventory_step s (s\<lparr>ivs_active := a, ivs_starting := n, ivs_running := ivs_running s + 1\<rparr>)"
| not_spawned: "ivs_starting s = Suc n \<Longrightarrow> spawned_inventory (Inl reason) options (ivs_active s) = (Inl e, a) \<Longrightarrow>
    inventory_step s (s\<lparr>ivs_active := a, ivs_starting := n\<rparr>)"
| ended: "ivs_running s = Suc n \<Longrightarrow>
    inventory_step s (s\<lparr>ivs_active := active_guard_drop (ivs_active s), ivs_running := n\<rparr>)"

inductive_cases inventory_stepE: "inventory_step s s'"

section \<open>One inventory at a time\<close>

definition exclusive :: "inventories \<Rightarrow> bool" where
  "exclusive s \<longleftrightarrow> ivs_starting s + ivs_running s = (if ivs_active s then 1 else 0)"

lemma claim_cases:
  assumes "claim_inventory options active = (r, a)"
  shows "(r = Inr () \<and> \<not> active \<and> a) \<or> (\<exists>e. r = Inl e) \<and> a = active"
  using assms by (auto simp: claim_inventory_def split: if_splits)

lemma exclusive_step: "inventory_step s s' \<Longrightarrow> exclusive s \<Longrightarrow> exclusive s'"
  by (erule inventory_stepE)
    (auto simp: exclusive_def spawned_inventory_def active_guard_drop_def dest!: claim_cases split: if_splits)

lemma exclusive_reachable: "inventory_step\<^sup>*\<^sup>* no_inventories s \<Longrightarrow> exclusive s"
  by (induction rule: rtranclp_induct) (auto simp: exclusive_def no_inventories_def dest: exclusive_step[unfolded exclusive_def])

section \<open>The stream of an inventory\<close>

text \<open>A run that succeeds has sent its completion, unless nobody receives any more.\<close>

definition completed_or_closed :: "('w, 'h) inventory \<Rightarrow> bool" where
  "completed_or_closed s \<longleftrightarrow> sk_room (iv_sink s) = 0 \<or> (\<exists>body c. sent_events s = body @ [CompletedEvent c])"

lemma anyway: "hoare P m (\<lambda>_ _. True) (\<lambda>_ _. True)"
  by (simp add: hoare_def split: option.split sum.split)

lemma send_completes:
  "hoare P (seqp (send_event (CompletedEvent c)) (ret ())) (\<lambda>_. completed_or_closed) (\<lambda>_ _. True)"
  by (auto simp: hoare_def seqp_def bindp_def send_run ret_def completed_or_closed_def sent_events_def split: if_splits)

lemma finish_completes: "hoare P finish_inventory (\<lambda>_. completed_or_closed) (\<lambda>_ _. True)"
  unfolding finish_inventory_def
  by (rule hoare_bindp[OF _ anyway], rule hoare_seqp[OF _ anyway], rule hoare_seqp[OF _ anyway],
      rule hoare_seqp[OF _ anyway], rule hoare_bindp[OF send_completes anyway])

lemma send_progress_completes:
  "hoare P send_progress (\<lambda>sent s. sent \<or> completed_or_closed s) (\<lambda>_ _. True)"
  by (auto simp: hoare_def send_progress_def bindp_def gets_def send_run completed_or_closed_def split: if_splits)

lemma run_completes:
  fixes P :: "('w, 'h) inventory \<Rightarrow> bool"
  shows "hoare P (run_inventory_at_root connect root options) (\<lambda>_. completed_or_closed) (\<lambda>_ _. True)"
proof -
  have rest: "hoare (\<lambda>s. sent \<or> completed_or_closed s)
      (if \<not> sent then ret ()
       else if io_max_entries options = Some 0 then
         seqp (update_terminal f)
           (bindp (gets iv_terminal) (\<lambda>terminal. seqp (send_event (CompletedEvent terminal)) (ret ())))
       else seqp (inventory_loop sv ns options root) finish_inventory)
      (\<lambda>_. completed_or_closed) (\<lambda>_ _. True)" for sent f ns and sv :: "('w, 'h) com_server"
  proof (cases sent)
    case False
    then show ?thesis by (simp add: hoare_def ret_def)
  next
    case True
    have "hoare Q (seqp (update_terminal f)
        (bindp (gets iv_terminal) (\<lambda>terminal. seqp (send_event (CompletedEvent terminal)) (ret ()))))
        (\<lambda>_. completed_or_closed) (\<lambda>_ _. True)" for Q :: "('w, 'h) inventory \<Rightarrow> bool"
      by (rule hoare_seqp[OF _ anyway], rule hoare_bindp[OF send_completes anyway])
    moreover have "hoare Q (seqp (inventory_loop sv ns options root) finish_inventory)
        (\<lambda>_. completed_or_closed) (\<lambda>_ _. True)" for Q
      by (rule hoare_seqp[OF finish_completes anyway])
    ultimately show ?thesis using True by simp
  qed
  have "hoare P (throw e :: ('w, 'h, unit) inventory_prog) (\<lambda>_. completed_or_closed) (\<lambda>_ _. True)" for e
    by (simp add: hoare_def throw_def)
  moreover have "hoare P (bindp (Boundary.on_world connect) (\<lambda>sv.
      bindp (detect_capabilities sv) (\<lambda>capabilities. seqp (start_run capabilities root)
       (bindp send_progress (\<lambda>sent.
        if \<not> sent then ret ()
        else if io_max_entries options = Some 0 then
          seqp (update_terminal (\<lambda>t. t\<lparr>cp_complete := False, cp_truncated := True,
                  cp_warning := Some ''inventory entry limit reached''\<rparr>))
            (bindp (gets iv_terminal) (\<lambda>terminal. seqp (send_event (CompletedEvent terminal)) (ret ())))
        else seqp (inventory_loop sv (cap_namespace capabilities) options root) finish_inventory)))))
      (\<lambda>_. completed_or_closed) (\<lambda>_ _. True)"
    by (rule hoare_bindp[OF _ anyway], rule hoare_bindp[OF _ anyway], rule hoare_seqp[OF _ anyway],
        rule hoare_bindp[OF rest send_progress_completes])
  ultimately show ?thesis unfolding run_inventory_at_root_def by simp
qed

text \<open>The items that end a stream: the completion and a failure.\<close>

fun is_terminal :: "stream_item \<Rightarrow> bool" where
  "is_terminal (Inr (CompletedEvent _)) = True"
| "is_terminal (Inr _) = False"
| "is_terminal (Inl _) = True"

definition is_completion :: "stream_item \<Rightarrow> bool" where
  "is_completion item = (case item of Inr (CompletedEvent _) \<Rightarrow> True | _ \<Rightarrow> False)"

lemma is_completion_iff: "is_completion item \<longleftrightarrow> (\<exists>c. item = Inr (CompletedEvent c))"
  by (auto simp: is_completion_def split: sum.split inventory_event.split)

lemma is_terminal_event: "is_terminal (Inr ev) \<longleftrightarrow> (\<exists>c. ev = CompletedEvent c)"
  by (cases ev) auto

lemma body_cases:
  assumes "inventory_body com cn server root options s = Some (r, s')"
  shows "(\<exists>reason. com = Inl reason \<and> r = Inl (Internal reason) \<and> s' = s)
    \<or> (\<exists>connect. run_inventory_at_root connect root options s = Some (r, s'))"
  using assms by (auto simp: inventory_body_def throw_def split: sum.splits)

lemma body_items:
  assumes "inventory_body com cn server root options (inventory_start e w room) = Some (r, s')"
  shows "\<exists>body tail. sk_sent (iv_sink s') = body @ tail \<and> (\<forall>c. CompletedEvent c \<notin> set body) \<and>
    (tail = [] \<or> (\<exists>c. tail = [CompletedEvent c] \<and> r = Inr ())) \<and>
    (r = Inr () \<longrightarrow> sk_room (iv_sink s') = 0 \<or> tail \<noteq> [])"
  using body_cases[OF assms]
proof (elim disjE exE conjE)
  fix reason assume "s' = inventory_start e w room" "r = Inl (Internal reason)"
  then show ?thesis by (simp add: inventory_start_def)
next
  fix connect
  assume run: "run_inventory_at_root connect root options (inventory_start e w room) = Some (r, s')"
  from run_inventory_ok[OF this] obtain body tail where items: "sk_sent (iv_sink s') = body @ tail"
    "\<forall>c. CompletedEvent c \<notin> set body" "tail = [] \<or> (\<exists>c. tail = [CompletedEvent c] \<and> r = Inr ())"
    by (auto simp: finished_ok_def sent_events_def)
  have "sk_room (iv_sink s') = 0 \<or> tail \<noteq> []" if "r = Inr ()"
  proof -
    have "completed_or_closed s'"
      using hoareD_Inr[OF run_completes[of "\<lambda>_. True"] TrueI] run that by simp
    then show ?thesis using items by (auto simp: completed_or_closed_def sent_events_def append_eq_append_conv2)
  qed
  with items show ?thesis by blast
qed

section \<open>Properties\<close>

text \<open>
  C5. Inventories exclude each other, however their starts and ends interleave: the flag is set
  exactly while one call is starting a thread or one thread runs, there is never a second one,
  and a start with a valid batch size is accepted exactly when there is none. So the client can
  always start again after an inventory ended, failed, panicked or could not be spawned.
\<close>

theorem one_inventory_at_a_time:
  assumes "inventory_step\<^sup>*\<^sup>* no_inventories s"
  shows "ivs_starting s + ivs_running s = (if ivs_active s then 1 else 0) \<and>
    (fst (claim_inventory options (ivs_active s)) = Inr () \<longleftrightarrow>
       0 < io_batch_size options \<and> io_batch_size options \<le> MAX_INVENTORY_BATCH_SIZE \<and>
       ivs_starting s = 0 \<and> ivs_running s = 0)"
  using exclusive_reachable[OF assms]
  by (auto simp: exclusive_def claim_inventory_def word_gt_0 not_less split: if_splits)

theorem one_inventory_at_a_time_witness:
  "\<exists>s. inventory_step\<^sup>*\<^sup>* no_inventories s \<and> ivs_running s = 1 \<and>
     fst (claim_inventory \<lparr>io_batch_size = 100, io_max_entries = None\<rparr> (ivs_active s)) \<noteq> Inr ()"
proof -
  let ?o = "\<lparr>io_batch_size = 100, io_max_entries = None\<rparr>"
  let ?a = "\<lparr>ivs_active = True, ivs_starting = 1, ivs_running = 0\<rparr>"
  let ?b = "\<lparr>ivs_active = True, ivs_starting = 0, ivs_running = 1\<rparr>"
  have "inventory_step no_inventories ?a"
    using inventory_step.claimed[of ?o no_inventories True]
    by (simp add: no_inventories_def claim_inventory_def MAX_INVENTORY_BATCH_SIZE_def)
  moreover have "inventory_step ?a ?b"
    using inventory_step.spawned[of ?a 0 ?o "new_stream ?o" True] by (simp add: spawned_inventory_def)
  ultimately have reach: "inventory_step\<^sup>*\<^sup>* no_inventories ?b" by (meson converse_rtranclp_into_rtranclp rtranclp.rtrancl_refl)
  from one_inventory_at_a_time[OF this, of ?o] have "fst (claim_inventory ?o (ivs_active ?b)) \<noteq> Inr ()" by simp
  with reach show ?thesis by (intro exI[of _ ?b]) simp
qed

text \<open>
  C14. The stream of an inventory has at most one terminal item, and nothing after it: the
  completion when the inventory succeeded, its error when it failed. A receiver that is still
  there when the thread ends has got it. The stream notes the end exactly for a completion, so
  that dropping it after a completion, and only then, cancels nothing.
\<close>

theorem streams_end_once:
  assumes "inventory_body com cn server root options (inventory_start e w room) = Some (r, s')"
    and "items = thread_items (Some r) (iv_sink s')"
    and "stream = (new_stream options)\<lparr>is_queue := items\<rparr>"
  shows "(\<exists>body tail. items = body @ tail \<and> (\<forall>i \<in> set body. \<not> is_terminal i) \<and>
       (tail = [] \<and> sk_room (iv_sink s') = 0 \<or>
        (\<exists>c. tail = [Inr (CompletedEvent c)] \<and> r = Inr ()) \<or> (\<exists>error. tail = [Inl error] \<and> r = Inl error))) \<and>
    is_terminal_event_seen (stream_messages (length items) is_completion stream)
      = (\<exists>c. Inr (CompletedEvent c) \<in> set items)"
proof -
  have seen: "is_terminal_event_seen (stream_messages (length its) f st)
      \<longleftrightarrow> is_terminal_event_seen st \<or> (\<exists>i \<in> set its. f i)" if "is_queue st = its" for its :: "stream_item list" and f st
    using that by (induction its arbitrary: st) (auto simp: stream_message_def)
  have last: "is_terminal_event_seen (stream_messages (length items) is_completion stream)
      = (\<exists>c. Inr (CompletedEvent c) \<in> set items)"
    using assms(3) seen[of stream items]
    by (auto simp: new_stream_def is_completion_iff)
  obtain body tail where sent: "sk_sent (iv_sink s') = body @ tail" "\<forall>c. CompletedEvent c \<notin> set body"
    "tail = [] \<or> (\<exists>c. tail = [CompletedEvent c] \<and> r = Inr ())"
    "r = Inr () \<longrightarrow> sk_room (iv_sink s') = 0 \<or> tail \<noteq> []"
    using body_items[OF assms(1)] by blast
  have "\<exists>body tail. items = body @ tail \<and> (\<forall>i \<in> set body. \<not> is_terminal i) \<and>
       (tail = [] \<and> sk_room (iv_sink s') = 0 \<or>
        (\<exists>c. tail = [Inr (CompletedEvent c)] \<and> r = Inr ()) \<or> (\<exists>error. tail = [Inl error] \<and> r = Inl error))"
  proof (cases r)
    case (Inl error)
    with sent assms(2) show ?thesis
      by (intro exI[of _ "map Inr body"] exI[of _ "blocking_send (Inl error) (iv_sink s')"])
        (auto simp: thread_items_def blocking_send_def is_terminal_event)
  next
    case (Inr u)
    with sent assms(2) show ?thesis
      by (intro exI[of _ "map Inr body"] exI[of _ "map Inr tail"]) (auto simp: thread_items_def is_terminal_event)
  qed
  with last show ?thesis by blast
qed

text \<open>An inventory of the rack with the limit 0: progress, then the completion.\<close>

lemma rack_inventory:
  "\<exists>s' c p. inventory_body (Inr ()) rack_connector ''Rack'' None \<lparr>io_batch_size = 100, io_max_entries = Some 0\<rparr>
      (inventory_start (quiet_env 3) \<lparr>rk_groups = {}, rk_refusing = False\<rparr> 10) = Some (Inr (), s')
    \<and> sk_sent (iv_sink s') = [ProgressEvent p, CompletedEvent c]"
  by (simp add: inventory_body_def rack_connector_def rack_server_def com_server.defs run_inventory_at_root_def
      MAX_INVENTORY_BATCH_SIZE_def on_world_run bindp_def ret_def
      inventory_start_def detect_capabilities_def observe_cancelled_def effect_def quiet_env_def env_cancelled_def
      env_control_def advance_def control_new_def attempt_def capabilities_for_inventory_def start_run_def seqp_def
      modifyp_def take_operation_observations_def collector_take_def
      boundary_new_def send_progress_def gets_def send_run Let_def sent_events_def update_terminal_def)

theorem streams_end_once_witness:
  "\<exists>s' stream. inventory_body (Inr ()) rack_connector ''Rack'' None \<lparr>io_batch_size = 100, io_max_entries = Some 0\<rparr>
      (inventory_start (quiet_env 3) \<lparr>rk_groups = {}, rk_refusing = False\<rparr> 10) = Some (Inr (), s')
    \<and> is_queue stream = thread_items (Some (Inr ())) (iv_sink s')
    \<and> is_terminal_event_seen (stream_messages (length (is_queue stream)) is_completion stream)"
proof -
  let ?o = "\<lparr>io_batch_size = 100, io_max_entries = Some 0\<rparr>"
  obtain s' c p where run: "inventory_body (Inr ()) rack_connector ''Rack'' None ?o
      (inventory_start (quiet_env 3) \<lparr>rk_groups = {}, rk_refusing = False\<rparr> 10) = Some (Inr (), s')"
    and sent: "sk_sent (iv_sink s') = [ProgressEvent p, CompletedEvent c]"
    using rack_inventory by blast
  let ?items = "thread_items (Some (Inr ())) (iv_sink s')"
  let ?stream = "(new_stream ?o)\<lparr>is_queue := ?items\<rparr>"
  have "Inr (CompletedEvent c) \<in> set ?items" by (simp add: thread_items_def sent)
  then have "is_terminal_event_seen (stream_messages (length ?items) is_completion ?stream)"
    using streams_end_once[OF run refl refl] by blast
  with run show ?thesis by (intro exI[of _ s'] exI[of _ ?stream]) simp
qed

end
