(* ===== verification/Utf16.thy ===== *)
theory Utf16
  imports Prelude
begin

text \<open>
  Text as the program and COM have it. A Rust \<open>String\<close> is the list of its UTF-8 bytes; COM
  strings are UTF-16 with a terminating zero. The conversions are those of the standard library:
  \<open>str::chars\<close>, \<open>str::encode_utf16\<close> and \<open>String::from_utf16\<close>.
\<close>

section \<open>UTF-8\<close>

definition is_continuation :: "char \<Rightarrow> bool" where
  "is_continuation c = (let n = of_char c :: nat in 128 \<le> n \<and> n < 192)"

text \<open>The encoded scalar values of a UTF-8 text.\<close>

function utf8_chars :: "string \<Rightarrow> string list" where
  "utf8_chars [] = []"
| "utf8_chars (c # cs) = (c # takeWhile is_continuation cs) # utf8_chars (dropWhile is_continuation cs)"
  by pat_completeness auto

termination utf8_chars
  by (relation "measure length") (auto simp: le_imp_less_Suc[OF length_dropWhile_le])

definition bytes :: "nat list \<Rightarrow> string" where
  "bytes ns = map char_of ns"

text \<open>A scalar value and its encoding.\<close>

definition is_scalar :: "nat \<Rightarrow> bool" where
  "is_scalar n \<longleftrightarrow> n < 0xD800 \<or> 0xE000 \<le> n \<and> n < 0x110000"

definition utf8_encode :: "nat \<Rightarrow> string" where
  "utf8_encode n =
     (if n < 0x80 then bytes [n]
      else if n < 0x800 then bytes [0xC0 + n div 64, 0x80 + n mod 64]
      else if n < 0x10000 then bytes [0xE0 + n div 4096, 0x80 + n div 64 mod 64, 0x80 + n mod 64]
      else bytes [0xF0 + n div 262144, 0x80 + n div 4096 mod 64, 0x80 + n div 64 mod 64, 0x80 + n mod 64])"

fun utf8_decode :: "string \<Rightarrow> nat" where
  "utf8_decode [a] = of_char a"
| "utf8_decode [a, b] = (of_char a - 0xC0) * 64 + (of_char b - 0x80)"
| "utf8_decode [a, b, c] = (of_char a - 0xE0) * 4096 + (of_char b - 0x80) * 64 + (of_char c - 0x80)"
| "utf8_decode [a, b, c, d] =
     (of_char a - 0xF0) * 262144 + (of_char b - 0x80) * 4096 + (of_char c - 0x80) * 64 + (of_char d - 0x80)"
| "utf8_decode _ = 0xFFFD"

section \<open>UTF-16\<close>

definition utf16_units :: "nat \<Rightarrow> u16 list" where
  "utf16_units n =
     (if n < 0x10000 then [of_nat n]
      else [of_nat (0xD800 + (n - 0x10000) div 0x400), of_nat (0xDC00 + (n - 0x10000) mod 0x400)])"

definition encode_utf16 :: "string \<Rightarrow> u16 list" where
  "encode_utf16 s = concat (map (\<lambda>c. utf16_units (utf8_decode c)) (utf8_chars s))"

definition is_high :: "nat \<Rightarrow> bool" where "is_high n \<longleftrightarrow> 0xD800 \<le> n \<and> n < 0xDC00"
definition is_low :: "nat \<Rightarrow> bool" where "is_low n \<longleftrightarrow> 0xDC00 \<le> n \<and> n < 0xE000"

text \<open>\<open>String::from_utf16\<close>: \<open>None\<close> when a surrogate has no partner.\<close>

fun decode_utf16 :: "u16 list \<Rightarrow> string option" where
  "decode_utf16 [] = Some []"
| "decode_utf16 [u] =
     (if is_high (unat u) \<or> is_low (unat u) then None else Some (utf8_encode (unat u)))"
| "decode_utf16 (u # v # us) =
     (if is_low (unat u) then None
      else if is_high (unat u) then
        (if is_low (unat v) then
           map_option (append (utf8_encode (0x10000 + (unat u - 0xD800) * 0x400 + (unat v - 0xDC00)))) (decode_utf16 us)
         else None)
      else map_option (append (utf8_encode (unat u))) (decode_utf16 (v # us)))"

text \<open>A string with its terminating zero, and what a reader of a zero-terminated string sees.\<close>

definition to_wide :: "string \<Rightarrow> u16 list" where
  "to_wide s = encode_utf16 s @ [0]"

definition as_wide :: "u16 list \<Rightarrow> u16 list" where
  "as_wide us = takeWhile (\<lambda>u. u \<noteq> 0) us"

section \<open>Encoding and decoding\<close>

definition utf8_text :: "nat list \<Rightarrow> string" where
  "utf8_text ns = concat (map utf8_encode ns)"

lemma of_char_bytes [simp]: "(n :: nat) < 256 \<Longrightarrow> of_char (char_of n :: char) = n"
  by simp

lemma is_continuation_bytes: "(n :: nat) < 256 \<Longrightarrow> is_continuation (char_of n) \<longleftrightarrow> 128 \<le> n \<and> n < 192"
  by (simp add: is_continuation_def Let_def)

lemma scalar_parts:
  assumes "n < (0x110000 :: nat)"
  shows "n div 262144 < 5" "n div 4096 < 272" "n div 64 < 17408" "n div 4096 mod 64 < 64"
    "n div 64 mod 64 < 64" "n mod 64 < 64"
  using assms by (simp_all add: less_mult_imp_div_less)

lemma two_parts: "n div 64 * 64 + n mod 64 = (n :: nat)"
  by simp

lemma three_parts: "n div 4096 * 4096 + n div 64 mod 64 * 64 + n mod 64 = (n :: nat)"
proof -
  have "n div 64 = n div 4096 * 64 + n div 64 mod 64"
    using div_mult_mod_eq[of "n div 64" 64] by (simp add: div_mult2_eq[symmetric])
  then have "n div 64 * 64 = n div 4096 * 4096 + n div 64 mod 64 * 64" by simp
  then show ?thesis using two_parts[of n] by linarith
qed

lemma four_parts: "n div 262144 * 262144 + n div 4096 mod 64 * 4096 + n div 64 mod 64 * 64 + n mod 64 = (n :: nat)"
proof -
  have "n div 4096 = n div 262144 * 64 + n div 4096 mod 64"
    using div_mult_mod_eq[of "n div 4096" 64] by (simp add: div_mult2_eq[symmetric])
  then have "n div 4096 * 4096 = n div 262144 * 262144 + n div 4096 mod 64 * 4096" by simp
  then show ?thesis using three_parts[of n] by linarith
qed

text \<open>The first byte of an encoding starts a character, the others continue it.\<close>

lemma utf8_encode_shape:
  assumes "n < 0x110000"
  shows "\<exists>c cs. utf8_encode n = c # cs \<and> \<not> is_continuation c \<and> list_all is_continuation cs"
  using scalar_parts[OF assms] less_mult_imp_div_less[of n 32 64] less_mult_imp_div_less[of n 16 4096]
  by (auto simp: utf8_encode_def bytes_def is_continuation_bytes)

lemma utf8_decode_encode:
  assumes "n < 0x110000"
  shows "utf8_decode (utf8_encode n) = n"
proof -
  consider (one) "n < 0x80" | (two) "0x80 \<le> n" "n < 0x800" | (three) "0x800 \<le> n" "n < 0x10000" | (four) "0x10000 \<le> n"
    by linarith
  then show ?thesis
  proof cases
    case one then show ?thesis by (simp add: utf8_encode_def bytes_def)
  next
    case two
    then have "n div 64 < 32" by (simp add: less_mult_imp_div_less)
    with two show ?thesis by (simp add: utf8_encode_def bytes_def two_parts)
  next
    case three
    then have "n div 4096 < 16" by (simp add: less_mult_imp_div_less)
    with three show ?thesis by (simp add: utf8_encode_def bytes_def three_parts)
  next
    case four
    with scalar_parts[OF assms] show ?thesis by (simp add: utf8_encode_def bytes_def four_parts)
  qed
qed

lemma utf8_chars_prepend:
  assumes "n < 0x110000" and "s = [] \<or> \<not> is_continuation (hd s)"
  shows "utf8_chars (utf8_encode n @ s) = utf8_encode n # utf8_chars s"
proof -
  obtain c cs where e: "utf8_encode n = c # cs" "list_all is_continuation cs"
    using utf8_encode_shape[OF assms(1)] by blast
  have "takeWhile is_continuation (cs @ s) = cs" "dropWhile is_continuation (cs @ s) = s"
    using e(2) assms(2) by (cases s; simp add: list_all_iff takeWhile_append dropWhile_append)+
  then show ?thesis by (simp add: e(1))
qed

lemma utf8_text_head:
  "\<forall>n \<in> set ns. n < 0x110000 \<Longrightarrow> utf8_text ns = [] \<or> \<not> is_continuation (hd (utf8_text ns))"
  using utf8_encode_shape by (cases ns) (fastforce simp: utf8_text_def)+

lemma utf8_chars_text:
  "\<forall>n \<in> set ns. n < 0x110000 \<Longrightarrow> utf8_chars (utf8_text ns) = map utf8_encode ns"
proof (induction ns)
  case Nil
  then show ?case by (simp add: utf8_text_def)
next
  case (Cons n ns)
  then show ?case
    using utf8_chars_prepend[of n "utf8_text ns"] utf8_text_head[of ns] by (simp add: utf8_text_def)
qed

lemma encode_utf16_text:
  "\<forall>n \<in> set ns. n < 0x110000 \<Longrightarrow> encode_utf16 (utf8_text ns) = concat (map utf16_units ns)"
  by (simp add: encode_utf16_def utf8_chars_text utf8_decode_encode comp_def cong: map_cong)

lemma decode_units:
  assumes "is_scalar n"
  shows "decode_utf16 (utf16_units n @ us) = map_option (append (utf8_encode n)) (decode_utf16 us)"
proof (cases "n < 0x10000")
  case True
  then have "unat (of_nat n :: u16) = n" by (simp add: unat_of_nat)
  with True assms show ?thesis
    by (cases us) (auto simp: utf16_units_def is_scalar_def is_high_def is_low_def)
next
  case False
  define m where "m = n - 0x10000"
  have m: "m < 0x100000" "n = 0x10000 + m" using False assms by (auto simp: m_def is_scalar_def)
  then have d: "m div 0x400 < 0x400" by (simp add: less_mult_imp_div_less)
  have r: "m mod 0x400 < 0x400" by simp
  have hi: "unat (of_nat (0xD800 + m div 0x400) :: u16) = 0xD800 + m div 0x400"
    using d by (simp add: unat_of_nat del: of_nat_add)
  have lo: "unat (of_nat (0xDC00 + m mod 0x400) :: u16) = 0xDC00 + m mod 0x400"
    using r by (simp add: unat_of_nat del: of_nat_add)
  show ?thesis
    using False d r unfolding utf16_units_def m(2)
    by (simp add: hi lo is_high_def is_low_def del: of_nat_add) (simp add: add.commute)
qed

lemma decode_encode_utf16:
  assumes "list_all is_scalar ns"
  shows "decode_utf16 (encode_utf16 (utf8_text ns)) = Some (utf8_text ns)"
proof -
  have "\<forall>n \<in> set ns. n < 0x110000" using assms by (auto simp: list_all_iff is_scalar_def)
  then have "encode_utf16 (utf8_text ns) = concat (map utf16_units ns)" by (rule encode_utf16_text)
  moreover have "decode_utf16 (concat (map utf16_units ns)) = Some (utf8_text ns)"
    using assms by (induction ns) (simp_all add: decode_units utf8_text_def)
  ultimately show ?thesis by simp
qed

text \<open>A zero-terminated string reads back up to its first zero.\<close>

lemma as_wide_units:
  assumes "is_scalar n"
  shows "as_wide (utf16_units n @ us) = (if n = 0 then [] else utf16_units n @ as_wide us)"
proof (cases "n < 0x10000")
  case True
  then have "unat (of_nat n :: u16) = n" by (simp add: unat_of_nat)
  then have "(of_nat n = (0 :: u16)) \<longleftrightarrow> n = 0" by (simp add: word_unat_eq_iff)
  with True show ?thesis by (simp add: utf16_units_def as_wide_def)
next
  case False
  define m where "m = n - 0x10000"
  have "m < 0x100000" using False assms by (auto simp: m_def is_scalar_def)
  then have d: "m div 0x400 < 0x400" "m mod 0x400 < 0x400" by (simp_all add: less_mult_imp_div_less)
  have "unat (of_nat (0xD800 + m div 0x400) :: u16) \<noteq> 0" "unat (of_nat (0xDC00 + m mod 0x400) :: u16) \<noteq> 0"
    using d by (simp_all add: unat_of_nat del: of_nat_add)
  then have "(of_nat (0xD800 + m div 0x400) :: u16) \<noteq> 0" "(of_nat (0xDC00 + m mod 0x400) :: u16) \<noteq> 0"
    by (metis unsigned_0)+
  with False show ?thesis by (simp add: utf16_units_def as_wide_def m_def[symmetric] del: of_nat_add)
qed

lemma decode_wide_text:
  assumes "list_all is_scalar ns"
  shows "decode_utf16 (as_wide (to_wide (utf8_text ns))) = Some (utf8_text (takeWhile (\<lambda>n. n \<noteq> 0) ns))"
proof -
  have "\<forall>n \<in> set ns. n < 0x110000" using assms by (auto simp: list_all_iff is_scalar_def)
  then have "to_wide (utf8_text ns) = concat (map utf16_units ns) @ [0]" by (simp add: to_wide_def encode_utf16_text)
  moreover have "decode_utf16 (as_wide (concat (map utf16_units ns) @ [0])) = Some (utf8_text (takeWhile (\<lambda>n. n \<noteq> 0) ns))"
    using assms
  proof (induction ns)
    case Nil
    then show ?case by (simp add: as_wide_def utf8_text_def)
  next
    case (Cons n ns)
    then show ?case by (simp add: as_wide_units decode_units) (simp add: utf8_text_def)
  qed
  ultimately show ?thesis by simp
qed

end
