(* ===== verification/App.thy ===== *)
theory App
  imports Helpers Utf16
begin

text \<open>
  The terminal front end: \<open>opc-cli/src/app.rs\<close> and the loop of \<open>opc-cli/src/main.rs\<close>.

  A request to the provider runs in a task of its own; the application keeps the receiver of
  its answer. A receiver is represented by the request it waits for, and what \<open>try_recv\<close> finds
  in it comes from outside (\<open>try_recv\<close>). \<open>fetch_task\<close> and its like are what a task sends,
  given what the provider returned before the timeout (\<open>None\<close>: nothing).

  Typed characters are the UTF-8 bytes of one Unicode scalar value. A \<open>ListState\<close> or
  \<open>TableState\<close> is its selection; drawing may change it, which comes from outside too.
  \<open>str::to_lowercase\<close>, whose Unicode tables are not modelled, is the parameter \<open>lower\<close>.
\<close>

section \<open>Text\<close>

text \<open>\<open>String::pop\<close>\<close>

definition pop_char :: "string \<Rightarrow> string" where
  "pop_char s = concat (butlast (utf8_chars s))"

text \<open>\<open>char::is_whitespace\<close>, on the encodings of the 25 characters of \<open>White_Space\<close>.\<close>

definition whitespace :: "string list" where
  "whitespace = map (\<lambda>n. bytes [n]) [9, 10, 11, 12, 13, 32]
     @ map (\<lambda>n. bytes [0xC2, n]) [0x85, 0xA0] @ [bytes [0xE1, 0x9A, 0x80]]
     @ map (\<lambda>n. bytes [0xE2, 0x80, n])
         [0x80, 0x81, 0x82, 0x83, 0x84, 0x85, 0x86, 0x87, 0x88, 0x89, 0x8A, 0xA8, 0xA9, 0xAF]
     @ [bytes [0xE2, 0x81, 0x9F], bytes [0xE3, 0x80, 0x80]]"

definition trim :: "string \<Rightarrow> string" where
  "trim s = concat (rev (dropWhile (\<lambda>c. c \<in> set whitespace)
     (rev (dropWhile (\<lambda>c. c \<in> set whitespace) (utf8_chars s)))))"

fun contains :: "string \<Rightarrow> string \<Rightarrow> bool" where
  "contains [] q = (q = [])"
| "contains (c # cs) q = (take (length q) (c # cs) = q \<or> contains cs q)"

section \<open>Parsing a typed value\<close>

definition is_digit :: "char \<Rightarrow> bool" where
  "is_digit c = (let n = of_char c :: nat in 48 \<le> n \<and> n < 58)"

definition digits_number :: "string \<Rightarrow> nat" where
  "digits_number ds = foldl (\<lambda>n c. 10 * n + (of_char c - 48)) 0 ds"

text \<open>An optional sign, and the rest.\<close>

fun split_sign :: "string \<Rightarrow> bool \<times> string" where
  "split_sign [] = (False, [])"
| "split_sign (c # cs) = (if c = CHR ''-'' then (True, cs) else if c = CHR ''+'' then (False, cs) else (False, c # cs))"

text \<open>\<open>str::parse::<i32>\<close>\<close>

definition parse_i32 :: "string \<Rightarrow> u32 option" where
  "parse_i32 s =
     (case split_sign s of (negative, ds) \<Rightarrow>
        if ds = [] \<or> \<not> list_all is_digit ds then None
        else let i = (if negative then - int (digits_number ds) else int (digits_number ds))
             in if - (2 ^ 31) \<le> i \<and> i < 2 ^ 31 then Some (word_of_int i) else None)"

text \<open>
  The bits of the \<open>f64\<close> nearest to the rational n/d, ties to even, saturating to infinity:
  the significand has 53 bits, or fewer below the normal range.
\<close>

definition encode_f64 :: "bool \<Rightarrow> nat \<Rightarrow> nat \<Rightarrow> u64" where
  "encode_f64 negative n d =
     (let sign = (if negative then push_bit 63 1 else 0 :: u64)
      in if n = 0 then sign
         else
           let k = int (bit_length n) - int (bit_length d);
               log2 = (if d * 2 ^ nat k \<le> n * 2 ^ nat (- k) then k else k - 1);
               e = max (log2 - 52) (- 1074);
               q = round_half_even (n * 2 ^ nat (- e)) (d * 2 ^ nat e);
               (q, e) = (if q = 2 ^ 53 then (2 ^ 52, e + 1) else (q, e))
           in if 971 < e then (or) sign 0x7FF0000000000000
              else if q < 2 ^ 52 then (or) sign (of_nat q)
              else (or) sign (of_nat (nat (e + 1075) * 2 ^ 52 + (q - 2 ^ 52))))"

definition ascii_lower :: "string \<Rightarrow> string" where
  "ascii_lower s = map (\<lambda>c. let n = of_char c :: nat in if 65 \<le> n \<and> n \<le> 90 then char_of (n + 32) else c) s"

text \<open>
  \<open>str::parse::<f64>\<close>: a sign, then \<open>inf\<close>, \<open>infinity\<close> or \<open>nan\<close> in any case, or digits with
  an optional point (and a digit on one side of it) and an optional exponent.
\<close>

definition parse_exponent :: "string \<Rightarrow> int option" where
  "parse_exponent s =
     (case s of
        [] \<Rightarrow> Some 0
      | c # cs \<Rightarrow>
          if c \<noteq> CHR ''e'' \<and> c \<noteq> CHR ''E'' then None
          else case split_sign cs of (negative, ds) \<Rightarrow>
            if ds = [] \<or> \<not> list_all is_digit ds then None
            else Some (if negative then - int (digits_number ds) else int (digits_number ds)))"

definition parse_decimal :: "bool \<Rightarrow> string \<Rightarrow> u64 option" where
  "parse_decimal negative s =
     (let whole = takeWhile is_digit s; rest = dropWhile is_digit s;
          (fraction, rest) =
            (case rest of
               c # cs \<Rightarrow> if c = CHR ''.'' then (takeWhile is_digit cs, dropWhile is_digit cs) else ([], rest)
             | [] \<Rightarrow> ([], []))
      in if whole @ fraction = [] then None
         else case parse_exponent rest of
                None \<Rightarrow> None
              | Some ex \<Rightarrow>
                  let m = digits_number (whole @ fraction); e = ex - int (length fraction)
                  in Some (encode_f64 negative (m * 10 ^ nat e) (10 ^ nat (- e))))"

definition parse_f64 :: "string \<Rightarrow> u64 option" where
  "parse_f64 s =
     (case split_sign s of (negative, r) \<Rightarrow>
        let sign = (if negative then push_bit 63 1 else 0 :: u64)
        in if ascii_lower r = ''inf'' \<or> ascii_lower r = ''infinity'' then Some ((or) sign 0x7FF0000000000000)
           else if ascii_lower r = ''nan'' then Some ((or) sign 0x7FF8000000000000)
           else parse_decimal negative r)"

text \<open>
  \<open>parse_opc_value\<close>. No character outside ASCII lowercases to one of the letters of \<open>true\<close>
  and \<open>false\<close>, so that \<open>ascii_lower\<close> decides these comparisons.
\<close>

definition parse_opc_value :: "string \<Rightarrow> opc_value" where
  "parse_opc_value s =
     (case parse_i32 s of
        Some i \<Rightarrow> VInt i
      | None \<Rightarrow>
          (case parse_f64 s of
             Some f \<Rightarrow> VFloat f
           | None \<Rightarrow>
               if ascii_lower s = ''true'' \<or> ascii_lower s = ''1'' then VBool True
               else if ascii_lower s = ''false'' \<or> ascii_lower s = ''0'' then VBool False
               else VString s))"

section \<open>The state\<close>

definition OPC_TIMEOUT_SECS :: nat where "OPC_TIMEOUT_SECS = 300"
definition OPC_TIMEOUT_SECS_WRITE :: nat where "OPC_TIMEOUT_SECS_WRITE = 10"
definition MAX_BROWSE_TAGS :: nat where "MAX_BROWSE_TAGS = 10000"
definition PAGE_SIZE :: nat where "PAGE_SIZE = 20"

datatype current_screen = Home | Loading | ServerList | TagList | TagValues | WriteInput | Exiting

datatype 'a try_recv = Received "opc_error + 'a" | RecvEmpty | RecvClosed

text \<open>A receiver is the request that its task was given.\<close>

record app =
  ap_host_input :: string
  ap_servers :: "string list"
  ap_tags :: "string list"
  ap_selected_index :: "nat option"
  ap_current_screen :: current_screen
  ap_messages :: "string list"
  ap_list_state :: "nat option"
  ap_table_state :: "nat option"
  ap_browse_progress :: u64
  ap_browse_result_rx :: "string option"
  ap_fetch_result_rx :: "string option"
  ap_selected_tags :: "bool list"
  ap_tag_values :: "tag_value list"
  ap_read_result_rx :: "(string \<times> string list) option"
  ap_refresh_server :: "string option"
  ap_refresh_tag_ids :: "string list"
  ap_last_read_time :: "nat option"
  ap_search_mode :: bool
  ap_search_query :: string
  ap_search_matches :: "nat list"
  ap_search_match_index :: nat
  ap_write_tag_id :: "string option"
  ap_write_value_input :: string
  ap_write_result_rx :: "(string \<times> string \<times> opc_value) option"
  ap_browsed_server :: "string option"

definition new_app :: app where
  "new_app =
     \<lparr>ap_host_input = ''localhost'', ap_servers = [], ap_tags = [], ap_selected_index = None,
      ap_current_screen = Home, ap_messages = [], ap_list_state = None, ap_table_state = None,
      ap_browse_progress = 0, ap_browse_result_rx = None, ap_fetch_result_rx = None,
      ap_selected_tags = [], ap_tag_values = [], ap_read_result_rx = None, ap_refresh_server = None,
      ap_refresh_tag_ids = [], ap_last_read_time = None, ap_search_mode = False, ap_search_query = [],
      ap_search_matches = [], ap_search_match_index = 0, ap_write_tag_id = None,
      ap_write_value_input = [], ap_write_result_rx = None, ap_browsed_server = None\<rparr>"

definition log_transition :: "current_screen \<Rightarrow> app \<Rightarrow> app" where
  "log_transition to a = a\<lparr>ap_current_screen := to\<rparr>"

definition add_message :: "string \<Rightarrow> app \<Rightarrow> app" where
  "add_message message a =
     (let messages = ap_messages a @ [message]
      in a\<lparr>ap_messages := (if 10 < length messages then tl messages else messages)\<rparr>)"

text \<open>\<open>selected_index\<close> with the selection of the list, and of the table on the values.\<close>

definition select_in_list :: "nat option \<Rightarrow> app \<Rightarrow> app" where
  "select_in_list i a = a\<lparr>ap_selected_index := i, ap_list_state := i\<rparr>"

definition select_row :: "nat \<Rightarrow> app \<Rightarrow> app" where
  "select_row i a =
     (let a = select_in_list (Some i) a
      in if ap_current_screen a = TagValues then a\<lparr>ap_table_state := Some i\<rparr> else a)"

section \<open>Selection\<close>

definition row_count :: "app \<Rightarrow> nat" where
  "row_count a =
     (case ap_current_screen a of
        ServerList \<Rightarrow> length (ap_servers a)
      | TagList \<Rightarrow> length (ap_tags a)
      | TagValues \<Rightarrow> length (ap_tag_values a)
      | _ \<Rightarrow> 0)"

definition select_next :: "app \<Rightarrow> app" where
  "select_next a =
     (let count = row_count a
      in if count = 0 then a
         else case ap_selected_index a of
                Some idx \<Rightarrow> if idx < count - 1 then select_row (idx + 1) a else a
              | None \<Rightarrow> select_in_list (Some 0) a)"

definition select_prev :: "app \<Rightarrow> app" where
  "select_prev a =
     (case ap_selected_index a of
        Some idx \<Rightarrow> if 0 < idx then select_row (idx - 1) a else a
      | None \<Rightarrow> a)"

definition page_down :: "app \<Rightarrow> app" where
  "page_down a =
     (let count = row_count a
      in if count = 0 then a
         else case ap_selected_index a of
                Some idx \<Rightarrow> select_row (min (idx + PAGE_SIZE) (count - 1)) a
              | None \<Rightarrow> select_row 0 a)"

definition page_up :: "app \<Rightarrow> app" where
  "page_up a =
     (case ap_selected_index a of
        Some idx \<Rightarrow> select_row (idx - PAGE_SIZE) a
      | None \<Rightarrow> select_row 0 a)"

section \<open>Servers\<close>

definition quoted :: "string \<Rightarrow> string" where
  "quoted s = [CHR 39] @ s @ [CHR 39]"

definition fetch_task :: "(opc_error + string list) option \<Rightarrow> opc_error + string list" where
  "fetch_task result =
     (case result of
        Some r \<Rightarrow> r
      | None \<Rightarrow> Inl (Internal (''Connection timed out ('' @ show_nat OPC_TIMEOUT_SECS @ ''s)'')))"

definition start_fetch_servers :: "app \<Rightarrow> app" where
  "start_fetch_servers a =
     (let host = ap_host_input a;
          a = add_message (''Connecting to '' @ host @ ''...'') (log_transition Loading a)
      in a\<lparr>ap_fetch_result_rx := Some host\<rparr>)"

definition poll_fetch_result :: "string list try_recv \<Rightarrow> app \<Rightarrow> app" where
  "poll_fetch_result recv a =
     (case ap_fetch_result_rx a of
        None \<Rightarrow> a
      | Some _ \<Rightarrow>
          (case recv of
             Received (Inr servers) \<Rightarrow>
               let a = log_transition ServerList (a\<lparr>ap_servers := servers\<rparr>);
                   a = select_in_list (if servers = [] then None else Some 0) a;
                   a = add_message (''Found '' @ show_nat (length servers) @ '' servers on '' @ ap_host_input a) a
               in a\<lparr>ap_fetch_result_rx := None\<rparr>
           | Received (Inl e) \<Rightarrow>
               let a = add_message (''Error fetching servers: '' @ show_error e) (log_transition Home a)
               in a\<lparr>ap_fetch_result_rx := None\<rparr>
           | RecvClosed \<Rightarrow>
               let a = add_message ''Server listing task terminated unexpectedly'' (log_transition Home a)
               in a\<lparr>ap_fetch_result_rx := None\<rparr>
           | RecvEmpty \<Rightarrow> a))"

section \<open>Tags\<close>

text \<open>\<open>sink\<close> is what the browse had found when it timed out; \<open>None\<close> for a poisoned mutex.\<close>

definition browse_task ::
  "string \<Rightarrow> (opc_error + string list) option \<Rightarrow> string list option \<Rightarrow> opc_error + string list" where
  "browse_task server result sink =
     (case result of
        Some r \<Rightarrow> r
      | None \<Rightarrow>
          let partial_tags = (case sink of Some tags \<Rightarrow> tags | None \<Rightarrow> [])
          in if partial_tags \<noteq> [] then Inr partial_tags
             else Inl (Internal (''Browse timed out ('' @ show_nat OPC_TIMEOUT_SECS @ ''s) for '' @ quoted server
                    @ '' with no tags found'')))"

definition start_browse_tags :: "app \<Rightarrow> app" where
  "start_browse_tags a =
     (if ap_current_screen a \<noteq> ServerList then a
      else case ap_selected_index a of
             None \<Rightarrow> a
           | Some idx \<Rightarrow>
               if length (ap_servers a) \<le> idx then a
               else
                 let server = ap_servers a ! idx;
                     a = log_transition Loading (a\<lparr>ap_browsed_server := Some server\<rparr>);
                     a = add_message (''Browsing tags on '' @ server @ ''...'') (a\<lparr>ap_browse_progress := 0\<rparr>)
                 in a\<lparr>ap_browse_result_rx := Some server\<rparr>)"

text \<open>The message of a failed operation, with the hint when there is one.\<close>

definition error_message :: "string \<Rightarrow> opc_error \<Rightarrow> string" where
  "error_message prefix e =
     (case friendly_com_hint e of
        Some h \<Rightarrow> prefix @ h @ '' ('' @ show_error e @ '')''
      | None \<Rightarrow> prefix @ show_error e)"

definition poll_browse_result :: "string list try_recv \<Rightarrow> app \<Rightarrow> app" where
  "poll_browse_result recv a =
     (case ap_browse_result_rx a of
        None \<Rightarrow> a
      | Some _ \<Rightarrow>
          (case recv of
             Received (Inr tags) \<Rightarrow>
               let a = a\<lparr>ap_tags := tags, ap_selected_tags := replicate (length tags) False\<rparr>;
                   a = select_in_list (if tags = [] then None else Some 0) (log_transition TagList a);
                   a = add_message (''Found '' @ show_nat (length tags) @ '' tags'') a
               in a\<lparr>ap_browse_result_rx := None\<rparr>
           | Received (Inl e) \<Rightarrow>
               let a = add_message (error_message ''Error: '' e) (log_transition ServerList a)
               in a\<lparr>ap_browse_result_rx := None\<rparr>
           | RecvEmpty \<Rightarrow> a
           | RecvClosed \<Rightarrow>
               let a = add_message ''Browse task terminated unexpectedly'' (log_transition ServerList a)
               in a\<lparr>ap_browse_result_rx := None\<rparr>))"

definition toggle_tag_selection :: "app \<Rightarrow> app" where
  "toggle_tag_selection a =
     (if ap_current_screen a \<noteq> TagList then a
      else case ap_selected_index a of
             Some idx \<Rightarrow>
               if idx < length (ap_selected_tags a) \<and> idx < length (ap_tags a)
               then a\<lparr>ap_selected_tags := (ap_selected_tags a)[idx := \<not> ap_selected_tags a ! idx]\<rparr>
               else a
           | None \<Rightarrow> a)"

section \<open>Reading values\<close>

text \<open>The tags whose flag is set; a missing flag counts as unset.\<close>

definition selected_tag_ids :: "app \<Rightarrow> string list" where
  "selected_tag_ids a = map snd (filter
     (\<lambda>(idx, tag_id). idx < length (ap_selected_tags a) \<and> ap_selected_tags a ! idx)
     (enumerate 0 (ap_tags a)))"

definition read_task :: "string \<Rightarrow> (opc_error + tag_value list) option \<Rightarrow> opc_error + tag_value list" where
  "read_task what result =
     (case result of
        Some r \<Rightarrow> r
      | None \<Rightarrow> Inl (Internal (what @ '' timed out ('' @ show_nat OPC_TIMEOUT_SECS @ ''s)'')))"

definition start_read_values :: "app \<Rightarrow> app" where
  "start_read_values a =
     (if ap_current_screen a \<noteq> TagList then a
      else
        let ids = selected_tag_ids a
        in if ids = [] then add_message ''No tags selected. Press Space to select tags.'' a
           else case ap_browsed_server a of
                  None \<Rightarrow> add_message (''No server context '' @ em_dash @ '' please browse tags first'') a
                | Some server \<Rightarrow>
                    let a = a\<lparr>ap_refresh_server := Some server, ap_refresh_tag_ids := ids\<rparr>;
                        a = add_message (''Reading '' @ show_nat (length ids) @ '' tag values...'')
                              (log_transition Loading a)
                    in a\<lparr>ap_read_result_rx := Some (server, ids)\<rparr>)"

definition warning_sign :: string where "warning_sign = bytes [0xE2, 0x9A, 0xA0]"

definition read_summary :: "tag_value list \<Rightarrow> string" where
  "read_summary values =
     (let error_count = length (filter (\<lambda>v. tv_value v = ''Error'') values);
          read = ''Read '' @ show_nat (length values) @ '' tag values''
      in if 0 < error_count
         then read @ '' ('' @ warning_sign @ '' '' @ show_nat error_count @ '' errors)''
         else read)"

definition select_in_table :: "nat option \<Rightarrow> app \<Rightarrow> app" where
  "select_in_table i a = a\<lparr>ap_selected_index := i, ap_table_state := i\<rparr>"

text \<open>\<open>now\<close> is the reading of the clock when values arrive.\<close>

definition poll_read_result :: "nat \<Rightarrow> tag_value list try_recv \<Rightarrow> app \<Rightarrow> app" where
  "poll_read_result now recv a =
     (case ap_read_result_rx a of
        None \<Rightarrow> a
      | Some _ \<Rightarrow>
          (case recv of
             Received (Inr values) \<Rightarrow>
               let a = log_transition TagValues (a\<lparr>ap_tag_values := values\<rparr>);
                   a = select_in_table
                         (if values = [] then None
                          else case ap_selected_index a of
                                 Some idx \<Rightarrow> Some (min idx (length values - 1))
                               | None \<Rightarrow> Some 0) a;
                   a = add_message (read_summary values) a
               in a\<lparr>ap_last_read_time := Some now, ap_read_result_rx := None\<rparr>
           | Received (Inl e) \<Rightarrow>
               let a = add_message (error_message ''Error reading values: '' e) (log_transition TagList a)
               in a\<lparr>ap_read_result_rx := None\<rparr>
           | RecvEmpty \<Rightarrow> a
           | RecvClosed \<Rightarrow>
               let a = add_message ''Read task terminated unexpectedly'' (log_transition TagList a)
               in a\<lparr>ap_read_result_rx := None\<rparr>))"

text \<open>Times are in nanoseconds; \<open>elapsed\<close> saturates.\<close>

definition REFRESH_INTERVAL :: nat where "REFRESH_INTERVAL = 1000000000"

definition refresh_task :: "(opc_error + tag_value list) option \<Rightarrow> opc_error + tag_value list" where
  "refresh_task result =
     (case result of
        Some r \<Rightarrow> r
      | None \<Rightarrow> Inl (Internal (''Auto-refresh timed out ('' @ show_nat OPC_TIMEOUT_SECS @ ''s)'')))"

definition maybe_auto_refresh :: "nat \<Rightarrow> app \<Rightarrow> app" where
  "maybe_auto_refresh now a =
     (if ap_current_screen a \<noteq> TagValues then a
      else if ap_read_result_rx a \<noteq> None then a
      else case ap_last_read_time a of
             None \<Rightarrow> a
           | Some t \<Rightarrow>
               if now - t < REFRESH_INTERVAL then a
               else case ap_refresh_server a of
                      None \<Rightarrow> a
                    | Some server_name \<Rightarrow>
                        if ap_refresh_tag_ids a = [] then a
                        else a\<lparr>ap_read_result_rx := Some (server_name, ap_refresh_tag_ids a)\<rparr>)"

section \<open>Writing a value\<close>

definition enter_write_mode :: "app \<Rightarrow> app" where
  "enter_write_mode a =
     (if ap_current_screen a \<noteq> TagValues then a
      else
        let tag_id =
              (if length (ap_tag_values a) = 1 then Some (tv_tag_id (ap_tag_values a ! 0))
               else case ap_table_state a of
                      Some idx \<Rightarrow>
                        if idx < length (ap_tag_values a) then Some (tv_tag_id (ap_tag_values a ! idx)) else None
                    | None \<Rightarrow> None)
        in case tag_id of
             Some i \<Rightarrow> log_transition WriteInput (a\<lparr>ap_write_tag_id := Some i, ap_write_value_input := []\<rparr>)
           | None \<Rightarrow> add_message ''No tag selected to write.'' a)"

definition write_task :: "(opc_error + write_result) option \<Rightarrow> opc_error + write_result" where
  "write_task result =
     (case result of
        Some r \<Rightarrow> r
      | None \<Rightarrow> Inl (Internal (''Write timed out ('' @ show_nat OPC_TIMEOUT_SECS_WRITE @ ''s)'')))"

definition start_write_value :: "app \<Rightarrow> app" where
  "start_write_value a =
     (case ap_write_tag_id a of
        None \<Rightarrow> a
      | Some tag_id \<Rightarrow>
          let value_str = trim (ap_write_value_input a)
          in if value_str = [] then add_message ''Value cannot be empty.'' a
             else
               let opc_value = parse_opc_value value_str
               in case ap_refresh_server a of
                    None \<Rightarrow> add_message ''No server context for write.'' a
                  | Some server \<Rightarrow>
                      let a = add_message (''Writing '' @ quoted value_str @ '' to '' @ tag_id @ ''...'')
                                (log_transition Loading a)
                      in a\<lparr>ap_write_result_rx := Some (server, tag_id, opc_value)\<rparr>)"

definition check_mark :: string where "check_mark = bytes [0xE2, 0x9C, 0x93]"
definition ballot_x :: string where "ballot_x = bytes [0xE2, 0x9C, 0x97]"

definition poll_write_result :: "write_result try_recv \<Rightarrow> app \<Rightarrow> app" where
  "poll_write_result recv a =
     (case ap_write_result_rx a of
        None \<Rightarrow> a
      | Some _ \<Rightarrow>
          (case recv of
             Received (Inr result) \<Rightarrow>
               let a = add_message
                         (if wr_success result
                          then check_mark @ '' Write to '' @ quoted (wr_tag_id result) @ '' succeeded''
                          else ballot_x @ '' Write to '' @ quoted (wr_tag_id result) @ '' failed: ''
                                 @ (case wr_error result of Some m \<Rightarrow> m | None \<Rightarrow> [])) a;
                   a = log_transition TagValues a
               in start_read_values (a\<lparr>ap_write_result_rx := None\<rparr>)
           | Received (Inl e) \<Rightarrow>
               let a = log_transition TagValues (add_message (''Browse error: '' @ show_error e) a)
               in a\<lparr>ap_write_result_rx := None\<rparr>
           | RecvEmpty \<Rightarrow> a
           | RecvClosed \<Rightarrow>
               let a = add_message ''Write task terminated unexpectedly'' (log_transition TagValues a)
               in a\<lparr>ap_write_result_rx := None\<rparr>))"

section \<open>Searching\<close>

definition enter_search_mode :: "app \<Rightarrow> app" where
  "enter_search_mode a =
     (if ap_current_screen a \<noteq> TagList then a
      else a\<lparr>ap_search_mode := True, ap_search_query := [], ap_search_matches := [],
             ap_search_match_index := 0\<rparr>)"

definition exit_search_mode :: "app \<Rightarrow> app" where
  "exit_search_mode a = a\<lparr>ap_search_mode := False\<rparr>"

definition matching_tags :: "(string \<Rightarrow> string) \<Rightarrow> string \<Rightarrow> string list \<Rightarrow> nat list" where
  "matching_tags lower query tags =
     map fst (filter (\<lambda>(idx, tag). contains (lower tag) (lower query)) (enumerate 0 tags))"

definition recompute_search_matches :: "(string \<Rightarrow> string) \<Rightarrow> app \<Rightarrow> app" where
  "recompute_search_matches lower a =
     (let matches = matching_tags lower (ap_search_query a) (ap_tags a);
          a = a\<lparr>ap_search_matches := matches, ap_search_match_index := 0\<rparr>
      in case matches of [] \<Rightarrow> a | first_match # _ \<Rightarrow> select_in_list (Some first_match) a)"

definition update_search_query :: "(string \<Rightarrow> string) \<Rightarrow> string \<Rightarrow> app \<Rightarrow> app" where
  "update_search_query lower c a =
     recompute_search_matches lower (a\<lparr>ap_search_query := ap_search_query a @ c\<rparr>)"

definition search_backspace :: "(string \<Rightarrow> string) \<Rightarrow> app \<Rightarrow> app" where
  "search_backspace lower a =
     recompute_search_matches lower (a\<lparr>ap_search_query := pop_char (ap_search_query a)\<rparr>)"

text \<open>The match at the current position, when there is one.\<close>

definition select_match :: "app \<Rightarrow> app" where
  "select_match a =
     (if ap_search_match_index a < length (ap_search_matches a)
      then select_in_list (Some (ap_search_matches a ! ap_search_match_index a)) a
      else a)"

definition next_search_match :: "app \<Rightarrow> app" where
  "next_search_match a =
     (if ap_search_matches a = [] then a
      else select_match (a\<lparr>ap_search_match_index := (ap_search_match_index a + 1) mod length (ap_search_matches a)\<rparr>))"

definition prev_search_match :: "app \<Rightarrow> app" where
  "prev_search_match a =
     (if ap_search_matches a = [] then a
      else select_match (a\<lparr>ap_search_match_index :=
             (if ap_search_match_index a = 0 then length (ap_search_matches a) - 1
              else ap_search_match_index a - 1)\<rparr>))"

section \<open>Going back\<close>

definition go_back :: "app \<Rightarrow> app" where
  "go_back a =
     (case ap_current_screen a of
        ServerList \<Rightarrow> select_in_list None ((log_transition Home a)\<lparr>ap_servers := []\<rparr>)
      | TagList \<Rightarrow>
          let a = (log_transition ServerList a)\<lparr>ap_tags := []\<rparr>
          in if ap_servers a \<noteq> [] then select_in_list (Some 0) a else a
      | TagValues \<Rightarrow>
          let a = (log_transition TagList a)\<lparr>ap_tag_values := [], ap_refresh_server := None,
                    ap_refresh_tag_ids := [], ap_last_read_time := None\<rparr>
          in select_in_list (if ap_tags a \<noteq> [] then Some 0 else None) a
      | WriteInput \<Rightarrow> (log_transition TagValues a)\<lparr>ap_write_tag_id := None, ap_write_value_input := []\<rparr>
      | _ \<Rightarrow> a)"

section \<open>Keys\<close>

text \<open>A typed character is its UTF-8 bytes; other keys change nothing.\<close>

datatype key_code = KEnter | KEsc | KBackspace | KTab | KBackTab | KUp | KDown | KPageUp | KPageDown
  | KChar string | KOther

record key_event =
  ke_press :: bool
  ke_code :: key_code

definition typed :: "key_code \<Rightarrow> string list \<Rightarrow> bool" where
  "typed k cs = (case k of KChar c \<Rightarrow> c \<in> set cs | _ \<Rightarrow> False)"

definition quit :: "app \<Rightarrow> app" where
  "quit a = log_transition Exiting a"

definition move_key :: "key_code \<Rightarrow> app \<Rightarrow> app" where
  "move_key k a =
     (case k of
        KPageDown \<Rightarrow> page_down a
      | KPageUp \<Rightarrow> page_up a
      | KDown \<Rightarrow> select_next a
      | KUp \<Rightarrow> select_prev a
      | _ \<Rightarrow> a)"

definition home_key :: "key_code \<Rightarrow> app \<Rightarrow> app" where
  "home_key k a =
     (case k of
        KEnter \<Rightarrow> start_fetch_servers a
      | KChar c \<Rightarrow> a\<lparr>ap_host_input := ap_host_input a @ c\<rparr>
      | KBackspace \<Rightarrow> a\<lparr>ap_host_input := pop_char (ap_host_input a)\<rparr>
      | KEsc \<Rightarrow> quit a
      | _ \<Rightarrow> a)"

definition server_list_key :: "key_code \<Rightarrow> app \<Rightarrow> app" where
  "server_list_key k a =
     (if k = KEsc then go_back a
      else if k = KEnter then start_browse_tags a
      else if typed k [''q'', ''Q''] then quit a
      else move_key k a)"

definition search_key :: "(string \<Rightarrow> string) \<Rightarrow> key_code \<Rightarrow> app \<Rightarrow> app" where
  "search_key lower k a =
     (case k of
        KEsc \<Rightarrow> exit_search_mode a
      | KBackspace \<Rightarrow> search_backspace lower a
      | KTab \<Rightarrow> next_search_match a
      | KBackTab \<Rightarrow> prev_search_match a
      | KEnter \<Rightarrow> start_read_values (exit_search_mode a)
      | KChar c \<Rightarrow> if c = '' '' then toggle_tag_selection a else update_search_query lower c a
      | _ \<Rightarrow> a)"

definition tag_list_key :: "(string \<Rightarrow> string) \<Rightarrow> key_code \<Rightarrow> app \<Rightarrow> app" where
  "tag_list_key lower k a =
     (if ap_search_mode a then search_key lower k a
      else if k = KEsc then go_back a
      else if typed k ['' ''] then toggle_tag_selection a
      else if typed k [''s'', ''S''] then enter_search_mode a
      else if k = KEnter then start_read_values a
      else if typed k [''q'', ''Q''] then quit a
      else move_key k a)"

definition tag_values_key :: "key_code \<Rightarrow> app \<Rightarrow> app" where
  "tag_values_key k a =
     (if k = KEsc then go_back a
      else if typed k [''w'', ''W''] then enter_write_mode a
      else if typed k [''q'', ''Q''] then quit a
      else move_key k a)"

definition write_input_key :: "key_code \<Rightarrow> app \<Rightarrow> app" where
  "write_input_key k a =
     (case k of
        KEnter \<Rightarrow> start_write_value a
      | KEsc \<Rightarrow> go_back a
      | KChar c \<Rightarrow> a\<lparr>ap_write_value_input := ap_write_value_input a @ c\<rparr>
      | KBackspace \<Rightarrow> a\<lparr>ap_write_value_input := pop_char (ap_write_value_input a)\<rparr>
      | _ \<Rightarrow> a)"

definition handle_key_event :: "(string \<Rightarrow> string) \<Rightarrow> key_event \<Rightarrow> app \<Rightarrow> app" where
  "handle_key_event lower key a =
     (if \<not> ke_press key then a
      else case ap_current_screen a of
             Home \<Rightarrow> home_key (ke_code key) a
           | ServerList \<Rightarrow> server_list_key (ke_code key) a
           | TagList \<Rightarrow> tag_list_key lower (ke_code key) a
           | TagValues \<Rightarrow> tag_values_key (ke_code key) a
           | WriteInput \<Rightarrow> write_input_key (ke_code key) a
           | Loading \<Rightarrow> if ke_code key = KEsc then go_back a else a
           | Exiting \<Rightarrow> a)"

section \<open>The loop\<close>

text \<open>
  What one turn of the loop finds: the answers that have arrived, two readings of the clock, the selections
  that drawing leaves in the list and the table, and the key pressed, if any. Errors of the
  terminal end the program and are left out.
\<close>

record ui_turn =
  ut_fetch :: "string list try_recv"
  ut_browse :: "string list try_recv"
  ut_read :: "tag_value list try_recv"
  ut_write :: "write_result try_recv"
  ut_now :: nat
  ut_later :: nat
  ut_drawn :: "nat option \<times> nat option"
  ut_key :: "key_event option"

definition poll_results :: "ui_turn \<Rightarrow> app \<Rightarrow> app" where
  "poll_results u a =
     maybe_auto_refresh (ut_later u)
       (poll_write_result (ut_write u)
         (poll_read_result (ut_now u) (ut_read u)
           (poll_browse_result (ut_browse u)
             (poll_fetch_result (ut_fetch u) a))))"

definition run_turn :: "(string \<Rightarrow> string) \<Rightarrow> ui_turn \<Rightarrow> app \<Rightarrow> app" where
  "run_turn lower u a =
     (let a = poll_results u a;
          a = a\<lparr>ap_list_state := fst (ut_drawn u), ap_table_state := snd (ut_drawn u)\<rparr>
      in case ut_key u of Some key \<Rightarrow> handle_key_event lower key a | None \<Rightarrow> a)"

text \<open>The loop ends with the first turn that leaves the program in \<open>Exiting\<close>.\<close>

fun run_app :: "(string \<Rightarrow> string) \<Rightarrow> ui_turn list \<Rightarrow> app \<Rightarrow> app" where
  "run_app lower [] a = a"
| "run_app lower (u # us) a =
     (let a = run_turn lower u a
      in if ap_current_screen a = Exiting then a else run_app lower us a)"
end
