(* ===== verification/AppInput.thy ===== *)
theory AppInput
  imports App "HOL-Library.Sublist"
begin

text \<open>
  What the user types into the terminal front end: the value to write, and the search in the
  list of tags.
\<close>

section \<open>Typed values\<close>

lemma digits_number_value: "digits_number s = digits_value s"
  by (simp add: digits_number_def digits_value_def)

lemma show_nat_digits: "list_all is_digit (show_nat n)"
proof (induction n rule: show_nat.induct)
  case (1 n)
  show ?case
  proof (cases "n < 10")
    case True
    then show ?thesis by (subst show_nat.simps) (simp add: is_digit_def of_char_digit)
  next
    case False
    with 1 have "list_all is_digit (show_nat (n div 10))" by simp
    with False show ?thesis by (subst show_nat.simps) (simp add: is_digit_def of_char_digit)
  qed
qed

lemma digit_no_sign: "is_digit c \<Longrightarrow> c \<noteq> CHR ''-'' \<and> c \<noteq> CHR ''+''"
  by (auto simp: is_digit_def)

lemma split_sign_digits: "list_all is_digit s \<Longrightarrow> split_sign s = (False, s)"
  by (cases s) (auto dest: digit_no_sign)

lemma parse_shown_int:
  assumes "- (2 ^ 31) \<le> i" and "i < 2 ^ 31"
  shows "parse_i32 (show_int i) = Some (word_of_int i)"
  using assms
  by (simp add: parse_i32_def show_int_def split_sign_digits show_nat_digits show_nat_nonempty
      digits_number_value digits_value_show_nat)

lemma parse_shown_word: "parse_i32 (show_int (sint i)) = Some (i :: u32)"
  using parse_shown_int[of "sint i"] sint_greater_eq[of i] sint_less[of i] by simp

text \<open>A text that starts with another character than a digit, a sign or a point is no number.\<close>

lemma letters_are_no_number:
  assumes "s = c # cs" and "\<not> is_digit c" and "c \<notin> set ''+-.''"
    and "ascii_lower s \<notin> {''inf'', ''infinity'', ''nan''}"
  shows "parse_i32 s = None" and "parse_f64 s = None"
proof -
  have sign: "split_sign s = (False, s)" using assms by simp
  show "parse_i32 s = None" using assms by (simp add: parse_i32_def sign)
  have "parse_decimal False s = None" using assms by (simp add: parse_decimal_def)
  with assms(4) show "parse_f64 s = None" by (simp add: parse_f64_def sign)
qed

lemma ascii_lower_char:
  assumes "(let n = of_char c :: nat in if 65 \<le> n \<and> n \<le> 90 then char_of (n + 32) else c) = x"
  shows "c = x \<or> c = char_of (of_char x - 32 :: nat) \<and> 97 \<le> (of_char x :: nat)"
proof (cases "65 \<le> (of_char c :: nat) \<and> (of_char c :: nat) \<le> 90")
  case True
  with assms have "x = char_of (of_char c + 32 :: nat)" by (simp add: Let_def)
  with True have "(of_char x :: nat) = of_char c + 32" by simp
  with True show ?thesis by simp
qed (use assms in \<open>auto simp: Let_def\<close>)

lemma ascii_lower_first:
  assumes "ascii_lower s = x # xs" and "x \<in> set ''tf''"
  obtains c cs where "s = c # cs" and "\<not> is_digit c" and "c \<notin> set ''+-.''"
proof (cases s)
  case Nil
  with assms show ?thesis by (simp add: ascii_lower_def)
next
  case (Cons c cs)
  with assms have "c = x \<or> c = char_of (of_char x - 32 :: nat)"
    using ascii_lower_char[of c x] by (auto simp: ascii_lower_def)
  moreover have "char_of (84 :: nat) = CHR ''T''" "char_of (70 :: nat) = CHR ''F''" by code_simp+
  ultimately have "c \<in> {CHR ''t'', CHR ''f'', CHR ''T'', CHR ''F''}"
    using assms(2) by auto
  with Cons that show ?thesis by (auto simp: is_digit_def)
qed

lemma ascii_lower_digit: "ascii_lower s = [d] \<Longrightarrow> d \<in> set ''01'' \<Longrightarrow> s = [d]"
  by (cases s) (auto simp: ascii_lower_def dest!: ascii_lower_char)

lemma truth_texts:
  "ascii_lower s = (if b then ''true'' else ''false'') \<Longrightarrow> parse_opc_value s = VBool b"
proof -
  assume low: "ascii_lower s = (if b then ''true'' else ''false'')"
  then obtain x xs where "ascii_lower s = x # xs" and "x \<in> set ''tf''" by (cases b) auto
  then obtain c cs where "s = c # cs" and "\<not> is_digit c" and "c \<notin> set ''+-.''"
    by (rule ascii_lower_first)
  note none = letters_are_no_number[OF this]
  have "ascii_lower s \<notin> {''inf'', ''infinity'', ''nan''}" using low by (cases b) auto
  from none[OF this] low show ?thesis by (cases b) (simp_all add: parse_opc_value_def)
qed

lemma parse_one_zero: "parse_i32 ''1'' = Some 1" "parse_i32 ''0'' = Some 0"
  by (simp_all add: parse_i32_def is_digit_def digits_number_def)

lemma only_truth_texts:
  "parse_opc_value s = VBool b \<Longrightarrow> ascii_lower s = (if b then ''true'' else ''false'')"
proof -
  assume bool: "parse_opc_value s = VBool b"
  then have no_int: "parse_i32 s = None" by (auto simp: parse_opc_value_def split: option.splits)
  have "ascii_lower s \<noteq> ''1''" and "ascii_lower s \<noteq> ''0''"
    using no_int ascii_lower_digit[of s] parse_one_zero by fastforce+
  with bool show ?thesis by (auto simp: parse_opc_value_def split: option.splits if_splits)
qed

text \<open>The whole way of an integer: typed, written, read back and shown.\<close>

lemma shown_written_int:
  "variant_to_string pf (opc_value_to_variant (VInt i)) = show_int (sint i)"
  by (simp add: variant_to_string_def opc_value_to_variant_def variant_scalar scalar_to_string_def VT_ARRAY_FLAG_def
      unsigned_ucast_eq take_bit_word_eq_self)

section \<open>Searching\<close>

lemma contains_sublist: "contains t q \<longleftrightarrow> sublist q t"
proof (induction t)
  case Nil
  then show ?case by simp
next
  case (Cons c cs)
  have "take (length q) (c # cs) = q \<longleftrightarrow> prefix q (c # cs)"
    by (metis append_eq_conv_conj prefix_def take_is_prefix)
  with Cons show ?case by (simp add: sublist_Cons_right)
qed

lemma matching_tags_set:
  "set (matching_tags lower q tags) = {i. i < length tags \<and> sublist (lower q) (lower (tags ! i))}"
  by (force simp: matching_tags_def in_set_enumerate_eq contains_sublist)

lemma matching_tags_sorted: "sorted_wrt (<) (matching_tags lower q tags)"
proof -
  have "sorted_wrt (<) (map fst (filter P (enumerate n xs)))" for P :: "nat \<times> 'b \<Rightarrow> bool" and n xs
    by (induction xs arbitrary: n) (auto simp: in_set_enumerate_eq)
  then show ?thesis by (simp add: matching_tags_def)
qed

lemma next_match_step:
  assumes "ap_search_match_index a < length (ap_search_matches a)"
  shows "ap_search_matches (next_search_match a) = ap_search_matches a"
    and "ap_search_match_index (next_search_match a) = Suc (ap_search_match_index a) mod length (ap_search_matches a)"
    and "ap_selected_index (next_search_match a)
           = Some (ap_search_matches a ! (Suc (ap_search_match_index a) mod length (ap_search_matches a)))"
proof -
  from assms have "ap_search_matches a \<noteq> []" by auto
  moreover from this have "Suc (ap_search_match_index a) mod length (ap_search_matches a) < length (ap_search_matches a)"
    by (intro mod_less_divisor) simp
  ultimately show "ap_search_matches (next_search_match a) = ap_search_matches a"
    and "ap_search_match_index (next_search_match a) = Suc (ap_search_match_index a) mod length (ap_search_matches a)"
    and "ap_selected_index (next_search_match a)
           = Some (ap_search_matches a ! (Suc (ap_search_match_index a) mod length (ap_search_matches a)))"
    by (simp_all add: next_search_match_def select_match_def select_in_list_def)
qed

lemma next_match_walk:
  assumes "ap_search_match_index a < length (ap_search_matches a)"
  shows "ap_search_matches ((next_search_match ^^ k) a) = ap_search_matches a
    \<and> ap_search_match_index ((next_search_match ^^ k) a) = (ap_search_match_index a + k) mod length (ap_search_matches a)
    \<and> (0 < k \<longrightarrow> ap_selected_index ((next_search_match ^^ k) a)
          = Some (ap_search_matches a ! ((ap_search_match_index a + k) mod length (ap_search_matches a))))"
proof (induction k)
  case 0
  with assms show ?case by simp
next
  case (Suc k)
  let ?b = "(next_search_match ^^ k) a"
  from assms have "0 < length (ap_search_matches a)" by (rule le_less_trans[OF le0])
  with Suc have "ap_search_match_index ?b < length (ap_search_matches ?b)" by simp
  from next_match_step[OF this] Suc show ?case by (simp add: mod_Suc_eq)
qed

lemma prev_undoes_next:
  assumes "ap_search_match_index a < length (ap_search_matches a)"
  shows "ap_search_match_index (prev_search_match (next_search_match a)) = ap_search_match_index a
    \<and> ap_selected_index (prev_search_match (next_search_match a)) = Some (ap_search_matches a ! ap_search_match_index a)"
proof (cases "Suc (ap_search_match_index a) = length (ap_search_matches a)")
  case True
  then have "length (ap_search_matches a) - Suc 0 = ap_search_match_index a" by simp
  with True next_match_step[OF assms] assms show ?thesis
    by (auto simp: prev_search_match_def select_match_def select_in_list_def)
next
  case False
  with assms have "Suc (ap_search_match_index a) < length (ap_search_matches a)" by simp
  with next_match_step[OF assms] assms show ?thesis
    by (auto simp: prev_search_match_def select_match_def select_in_list_def)
qed

section \<open>Properties\<close>

text \<open>
  C31. Every 32-bit integer that is typed in decimal is written as that integer, and shown with
  the same digits when it is read back; and a typed text is written as a boolean exactly
  when it is \<open>true\<close> or \<open>false\<close> in some letter case (never for \<open>1\<close> and \<open>0\<close>, which the code
  lists too).
\<close>

theorem typed_values_are_understood:
  "(\<forall>i. parse_opc_value (show_int (sint i)) = VInt i
      \<and> variant_to_string pf (opc_value_to_variant (parse_opc_value (show_int (sint i)))) = show_int (sint i))
   \<and> (\<forall>s b. parse_opc_value s = VBool b \<longleftrightarrow> ascii_lower s = (if b then ''true'' else ''false''))"
proof -
  have "parse_opc_value (show_int (sint i)) = VInt i" for i
    by (simp add: parse_opc_value_def parse_shown_word)
  moreover have "parse_opc_value s = VBool b \<longleftrightarrow> ascii_lower s = (if b then ''true'' else ''false'')" for s b
    by (rule iffI[OF only_truth_texts truth_texts])
  ultimately show ?thesis by (simp only: shown_written_int simp_thms)
qed

text \<open>
  Typing into the search finds, in order, exactly the tags that contain the query up to
  letter case and selects the first; Tab walks through all of them in a cycle, and Shift-Tab
  undoes Tab.
\<close>

theorem search_walks_the_matches:
  assumes "a = update_search_query lower c b" and "ap_search_matches a \<noteq> []"
  shows "set (ap_search_matches a)
      = {i. i < length (ap_tags b) \<and> sublist (lower (ap_search_query b @ c)) (lower (ap_tags b ! i))}
    \<and> sorted_wrt (<) (ap_search_matches a)
    \<and> ap_selected_index a = Some (hd (ap_search_matches a))
    \<and> (\<forall>k > 0. ap_selected_index ((next_search_match ^^ k) a)
         = Some (ap_search_matches a ! (k mod length (ap_search_matches a))))
    \<and> (\<forall>k. ap_search_match_index (prev_search_match (next_search_match ((next_search_match ^^ k) a)))
         = k mod length (ap_search_matches a))"
proof -
  have found: "ap_search_matches a = matching_tags lower (ap_search_query b @ c) (ap_tags b)"
    and at: "ap_search_match_index a = 0"
    and first: "ap_selected_index a = Some (hd (ap_search_matches a))"
    using assms
    by (auto simp: update_search_query_def recompute_search_matches_def select_in_list_def Let_def split: list.splits)
  from assms(2) at have inside: "ap_search_match_index a < length (ap_search_matches a)" by simp
  have "ap_search_match_index (prev_search_match (next_search_match ((next_search_match ^^ k) a)))
      = k mod length (ap_search_matches a)" for k
    using next_match_walk[OF inside, of k] prev_undoes_next[of "(next_search_match ^^ k) a"] at inside by simp
  with found first at next_match_walk[OF inside] show ?thesis
    by (simp add: matching_tags_set matching_tags_sorted)
qed

theorem search_walks_the_matches_witness:
  "ap_search_matches (update_search_query ascii_lower ''t'' (new_app\<lparr>ap_tags := [''Tank'', ''Flow'', ''Pit'']\<rparr>)) = [0, 2]
   \<and> ap_selected_index ((next_search_match ^^ 3)
       (update_search_query ascii_lower ''t'' (new_app\<lparr>ap_tags := [''Tank'', ''Flow'', ''Pit'']\<rparr>))) = Some 2"
proof -
  let ?a = "update_search_query ascii_lower ''t'' (new_app\<lparr>ap_tags := [''Tank'', ''Flow'', ''Pit'']\<rparr>)"
  have found: "ap_search_matches ?a = [0, 2]" by code_simp
  then have "ap_search_matches ?a \<noteq> []" by simp
  from search_walks_the_matches[OF refl this] have
    "\<forall>k > 0. ap_selected_index ((next_search_match ^^ k) ?a) = Some (ap_search_matches ?a ! (k mod length (ap_search_matches ?a)))"
    by blast
  then have "ap_selected_index ((next_search_match ^^ 3) ?a) = Some (ap_search_matches ?a ! (3 mod length (ap_search_matches ?a)))"
    by simp
  moreover have "[0, 2 :: nat] ! (3 mod Suc (Suc 0)) = 2" by code_simp
  ultimately show ?thesis using found by simp
qed
end
