(* ===== verification/AppScreens.thy ===== *)
theory AppScreens
  imports App
begin

text \<open>
  What the terminal front end keeps: the messages are bounded, every screen waits for the
  answer it should, and the selection lies within the rows shown. The one way out of this
  discipline is a read that is still in flight when the user leaves the values
  (\<open>late_refresh_takes_the_screen\<close>); \<open>calm\<close> excludes it.
\<close>

section \<open>A screen and what it waits for\<close>

text \<open>A selection in a list of \<open>n\<close> rows; the first row counts even when there is none.\<close>

definition in_rows :: "nat \<Rightarrow> nat option \<Rightarrow> bool" where
  "in_rows n i = (case i of None \<Rightarrow> True | Some k \<Rightarrow> k < n \<or> k = 0)"

text \<open>Which of the four answers the program waits for.\<close>

definition waits :: "app \<Rightarrow> bool list" where
  "waits a = [ap_fetch_result_rx a \<noteq> None, ap_browse_result_rx a \<noteq> None, ap_read_result_rx a \<noteq> None,
              ap_write_result_rx a \<noteq> None]"

abbreviation idle :: "bool list" where "idle \<equiv> [False, False, False, False]"

definition read_fits :: "app \<Rightarrow> bool" where
  "read_fits a \<longleftrightarrow> (\<forall>server ids. ap_read_result_rx a = Some (server, ids) \<longrightarrow> length ids \<le> length (ap_tags a))"

definition values_fit :: "app \<Rightarrow> bool" where
  "values_fit a \<longleftrightarrow> in_rows (length (ap_tag_values a)) (ap_selected_index a)
     \<and> ap_servers a \<noteq> [] \<and> length (ap_tag_values a) \<le> length (ap_tags a) \<and> length (ap_refresh_tag_ids a) \<le> length (ap_tags a)"

definition screen_ok :: "app \<Rightarrow> bool" where
  "screen_ok a =
     (case ap_current_screen a of
        Home \<Rightarrow> waits a = idle
      | ServerList \<Rightarrow> waits a = idle \<and> in_rows (length (ap_servers a)) (ap_selected_index a)
      | TagList \<Rightarrow> waits a = idle \<and> ap_servers a \<noteq> [] \<and> in_rows (length (ap_tags a)) (ap_selected_index a)
      | TagValues \<Rightarrow> waits a \<in> {idle, [False, False, True, False]} \<and> values_fit a \<and> read_fits a
      | WriteInput \<Rightarrow> waits a = idle \<and> values_fit a \<and> ap_write_tag_id a \<noteq> None
      | Loading \<Rightarrow>
          waits a = [True, False, False, False]
        \<or> waits a = [False, True, False, False] \<and> ap_servers a \<noteq> [] \<and> in_rows (length (ap_servers a)) (ap_selected_index a)
        \<or> waits a = [False, False, True, False] \<and> in_rows (length (ap_tags a)) (ap_selected_index a)
            \<and> ap_servers a \<noteq> [] \<and> read_fits a \<and> length (ap_refresh_tag_ids a) \<le> length (ap_tags a)
        \<or> waits a = [False, False, False, True] \<and> values_fit a
      | Exiting \<Rightarrow> True)"

definition search_ok :: "app \<Rightarrow> bool" where
  "search_ok a \<longleftrightarrow> (ap_search_mode a \<longrightarrow> ap_current_screen a \<in> {TagList, Exiting}
     \<and> (\<forall>i\<in>set (ap_search_matches a). i < length (ap_tags a)))"

definition app_ok :: "app \<Rightarrow> bool" where
  "app_ok a \<longleftrightarrow> length (ap_messages a) \<le> 10
     \<and> (ap_tags a \<noteq> [] \<longrightarrow> length (ap_selected_tags a) = length (ap_tags a))
     \<and> screen_ok a \<and> search_ok a"

lemmas app_ok_defs = app_ok_def screen_ok_def search_ok_def waits_def values_fit_def read_fits_def in_rows_def

lemma add_message_simps [simp]:
  "ap_servers (add_message m a) = ap_servers a" "ap_tags (add_message m a) = ap_tags a"
  "ap_selected_index (add_message m a) = ap_selected_index a"
  "ap_current_screen (add_message m a) = ap_current_screen a"
  "ap_browse_result_rx (add_message m a) = ap_browse_result_rx a"
  "ap_fetch_result_rx (add_message m a) = ap_fetch_result_rx a"
  "ap_selected_tags (add_message m a) = ap_selected_tags a"
  "ap_tag_values (add_message m a) = ap_tag_values a"
  "ap_read_result_rx (add_message m a) = ap_read_result_rx a"
  "ap_refresh_tag_ids (add_message m a) = ap_refresh_tag_ids a"
  "ap_refresh_server (add_message m a) = ap_refresh_server a"
  "ap_search_mode (add_message m a) = ap_search_mode a"
  "ap_search_matches (add_message m a) = ap_search_matches a"
  "ap_write_tag_id (add_message m a) = ap_write_tag_id a"
  "ap_write_result_rx (add_message m a) = ap_write_result_rx a"
  "ap_browsed_server (add_message m a) = ap_browsed_server a"
  by (simp_all add: add_message_def Let_def)

lemma add_message_length: "length (ap_messages a) \<le> 10 \<Longrightarrow> length (ap_messages (add_message m a)) \<le> 10"
  by (simp add: add_message_def Let_def)

lemma messages_length_simps [simp]:
  "ap_messages (log_transition s a) = ap_messages a" "ap_messages (select_in_list i a) = ap_messages a"
  "ap_messages (select_in_table i a) = ap_messages a" "ap_messages (select_row n a) = ap_messages a"
  by (simp_all add: log_transition_def select_in_list_def select_in_table_def select_row_def Let_def)

lemma selected_tag_ids_length: "length (selected_tag_ids a) \<le> length (ap_tags a)"
  unfolding selected_tag_ids_def by (rule order_trans[OF eq_refl[OF length_map] order_trans[OF length_filter_le]]) simp

lemmas app_ops = log_transition_def select_in_list_def select_in_table_def select_row_def Let_def

lemma start_fetch_ok: "app_ok a \<Longrightarrow> ap_current_screen a = Home \<Longrightarrow> app_ok (start_fetch_servers a)"
  by (auto simp: app_ok_defs start_fetch_servers_def app_ops intro!: add_message_length)

lemma start_browse_ok: "app_ok a \<Longrightarrow> app_ok (start_browse_tags a)"
  by (auto simp: app_ok_defs start_browse_tags_def app_ops intro!: add_message_length split: option.splits)

lemma start_read_ok: "app_ok a \<Longrightarrow> \<not> ap_search_mode a \<Longrightarrow> app_ok (start_read_values a)"
  using selected_tag_ids_length[of a]
  by (auto simp: app_ok_defs start_read_values_def app_ops intro!: add_message_length split: option.splits)

lemma poll_fetch_ok: "app_ok a \<Longrightarrow> ap_current_screen a \<noteq> Exiting \<Longrightarrow> app_ok (poll_fetch_result r a)"
  by (auto simp: app_ok_defs poll_fetch_result_def app_ops intro!: add_message_length
      split: option.splits try_recv.splits sum.splits current_screen.splits)

lemma poll_browse_ok: "app_ok a \<Longrightarrow> ap_current_screen a \<noteq> Exiting \<Longrightarrow> app_ok (poll_browse_result r a)"
  by (auto simp: app_ok_defs poll_browse_result_def app_ops intro!: add_message_length
      split: option.splits try_recv.splits sum.splits current_screen.splits)

lemma poll_read_ok:
  assumes "app_ok a" and "ap_current_screen a \<noteq> Exiting"
    and "\<And>values server ids. r = Received (Inr values) \<Longrightarrow> ap_read_result_rx a = Some (server, ids) \<Longrightarrow>
      length values \<le> length ids"
  shows "app_ok (poll_read_result now r a)"
proof (cases "ap_read_result_rx a")
  case None
  with assms(1) show ?thesis by (simp add: poll_read_result_def)
next
  case (Some rq)
  obtain server ids where rq: "rq = (server, ids)" by (cases rq)
  show ?thesis
  proof (cases r)
    case (Received res)
    show ?thesis
    proof (cases res)
      case (Inr vals)
      with Received Some rq assms(3) have "length vals \<le> length ids" by simp
      with assms(1,2) Some rq Received Inr show ?thesis
        by (auto simp: app_ok_defs poll_read_result_def app_ops intro!: add_message_length
            split: option.splits current_screen.splits)
    qed (use assms(1,2) Some rq Received in \<open>auto simp: app_ok_defs poll_read_result_def app_ops
        intro!: add_message_length split: option.splits current_screen.splits\<close>)
  qed (use assms(1,2) Some rq in \<open>auto simp: app_ok_defs poll_read_result_def app_ops
      intro!: add_message_length split: option.splits current_screen.splits\<close>)
qed

text \<open>A write that succeeded does not start a read: its screen is not the tag list.\<close>

lemma read_not_started: "ap_current_screen a \<noteq> TagList \<Longrightarrow> start_read_values a = a"
  by (simp add: start_read_values_def)

lemma poll_write_ok: "app_ok a \<Longrightarrow> ap_current_screen a \<noteq> Exiting \<Longrightarrow> app_ok (poll_write_result r a)"
  by (auto simp: app_ok_defs poll_write_result_def app_ops read_not_started intro!: add_message_length
      split: option.splits try_recv.splits sum.splits current_screen.splits)

lemma auto_refresh_ok: "app_ok a \<Longrightarrow> app_ok (maybe_auto_refresh now a)"
  by (auto simp: app_ok_defs maybe_auto_refresh_def split: option.splits current_screen.splits)

lemma polls_keep_screens:
  "ap_current_screen a \<noteq> Exiting \<Longrightarrow> ap_current_screen (poll_fetch_result r a) \<noteq> Exiting"
  "ap_current_screen a \<noteq> Exiting \<Longrightarrow> ap_current_screen (poll_browse_result r a) \<noteq> Exiting"
  "ap_current_screen a \<noteq> Exiting \<Longrightarrow> ap_current_screen (poll_read_result now r' a) \<noteq> Exiting"
  "ap_current_screen a \<noteq> Exiting \<Longrightarrow> ap_current_screen (poll_write_result r'' a) \<noteq> Exiting"
  "ap_current_screen (maybe_auto_refresh now a) = ap_current_screen a"
  by (auto simp: poll_fetch_result_def poll_browse_result_def poll_read_result_def poll_write_result_def
      maybe_auto_refresh_def app_ops read_not_started split: option.splits try_recv.splits sum.splits)

lemma polls_keep_reads:
  "ap_read_result_rx (poll_fetch_result r a) = ap_read_result_rx a"
  "ap_read_result_rx (poll_browse_result r a) = ap_read_result_rx a"
  by (auto simp: poll_fetch_result_def poll_browse_result_def app_ops split: option.splits try_recv.splits sum.splits)

text \<open>A provider that returns at most one value per tag asked for.\<close>

definition answer_fits :: "ui_turn \<Rightarrow> app \<Rightarrow> bool" where
  "answer_fits u a = (case (ut_read u, ap_read_result_rx a) of
       (Received (Inr values), Some (server, ids)) \<Rightarrow> length values \<le> length ids
     | _ \<Rightarrow> True)"

lemma poll_results_ok:
  assumes "app_ok a" and "ap_current_screen a \<noteq> Exiting" and "answer_fits u a"
  shows "app_ok (poll_results u a)" and "ap_current_screen (poll_results u a) \<noteq> Exiting"
  using assms
  by (auto simp: poll_results_def polls_keep_screens polls_keep_reads answer_fits_def
      intro!: auto_refresh_ok poll_write_ok poll_read_ok poll_browse_ok poll_fetch_ok)

section \<open>Keys\<close>

lemma waits_updates [simp]:
  "waits (ap_selected_index_update f a) = waits a" "waits (ap_list_state_update f a) = waits a"
  "waits (ap_table_state_update f a) = waits a" "waits (ap_search_mode_update g a) = waits a"
  "waits (ap_search_query_update h a) = waits a" "waits (ap_search_matches_update m a) = waits a"
  "waits (ap_search_match_index_update n a) = waits a" "waits (ap_selected_tags_update t a) = waits a"
  by (simp_all add: waits_def)

lemmas app_ok_parts = app_ok_def screen_ok_def search_ok_def values_fit_def read_fits_def

lemma reselect_ok:
  "app_ok a \<Longrightarrow> ap_current_screen a \<in> {ServerList, TagList, TagValues} \<Longrightarrow> in_rows (row_count a) i \<Longrightarrow>
   app_ok (a\<lparr>ap_selected_index := i, ap_list_state := l\<rparr>)"
  by (cases "ap_current_screen a") (simp_all add: app_ok_parts row_count_def)

lemma table_state_ok: "app_ok (a\<lparr>ap_table_state := t\<rparr>) = app_ok a"
  by (simp add: app_ok_parts split: current_screen.split)

lemma select_row_ok:
  "app_ok a \<Longrightarrow> ap_current_screen a \<in> {ServerList, TagList, TagValues} \<Longrightarrow>
   n < row_count a \<or> n = 0 \<Longrightarrow> app_ok (select_row n a)"
  unfolding select_row_def select_in_list_def Let_def
  using reselect_ok[of a "Some n" "Some n"] by (simp add: in_rows_def table_state_ok)

lemma select_in_list_ok:
  "app_ok a \<Longrightarrow> ap_current_screen a \<in> {ServerList, TagList, TagValues} \<Longrightarrow>
   n < row_count a \<or> n = 0 \<Longrightarrow> app_ok (select_in_list (Some n) a)"
  unfolding select_in_list_def
  using reselect_ok[of a "Some n" "Some n"] by (simp add: in_rows_def)

lemma in_rows_selected:
  "app_ok a \<Longrightarrow> ap_current_screen a \<in> {ServerList, TagList, TagValues} \<Longrightarrow> in_rows (row_count a) (ap_selected_index a)"
  by (auto simp: app_ok_def screen_ok_def values_fit_def row_count_def)

lemma move_key_ok:
  assumes "app_ok a" and "ap_current_screen a \<in> {ServerList, TagList, TagValues}"
  shows "app_ok (move_key k a)"
  using in_rows_selected[OF assms] assms(1)
  by (auto simp: move_key_def select_next_def select_prev_def page_down_def page_up_def Let_def in_rows_def
      intro!: select_row_ok[OF assms] select_in_list_ok[OF assms] split: key_code.split option.splits)

lemma go_back_ok:
  "app_ok a \<Longrightarrow> \<not> ap_search_mode a \<Longrightarrow> ap_current_screen a = TagValues \<longrightarrow> ap_read_result_rx a = None \<Longrightarrow>
   app_ok (go_back a)"
  by (cases "ap_current_screen a") (auto simp: app_ok_defs go_back_def app_ops)

lemma search_mode_screen: "app_ok a \<Longrightarrow> ap_current_screen a \<notin> {TagList, Exiting} \<Longrightarrow> \<not> ap_search_mode a"
  by (auto simp: app_ok_def search_ok_def)

lemma home_key_ok: "app_ok a \<Longrightarrow> ap_current_screen a = Home \<Longrightarrow> app_ok (home_key k a)"
  by (auto simp: home_key_def start_fetch_ok quit_def split: key_code.split)
    (auto simp: app_ok_defs log_transition_def)

lemma quit_ok: "app_ok a \<Longrightarrow> app_ok (quit a)"
  by (auto simp: quit_def app_ok_defs log_transition_def)

lemma server_list_key_ok: "app_ok a \<Longrightarrow> ap_current_screen a = ServerList \<Longrightarrow> app_ok (server_list_key k a)"
  by (auto simp: server_list_key_def search_mode_screen intro!: go_back_ok start_browse_ok quit_ok move_key_ok)

lemma toggle_ok: "app_ok a \<Longrightarrow> app_ok (toggle_tag_selection a)"
  by (auto simp: app_ok_parts toggle_tag_selection_def split: option.splits)

lemma enter_search_ok: "app_ok a \<Longrightarrow> app_ok (enter_search_mode a)"
  by (auto simp: app_ok_parts enter_search_mode_def)

lemma exit_search_ok: "app_ok a \<Longrightarrow> app_ok (exit_search_mode a)"
  by (auto simp: app_ok_parts exit_search_mode_def split: current_screen.splits)

lemma matching_tags_below: "i \<in> set (matching_tags lower q tags) \<Longrightarrow> i < length tags"
  by (auto simp: matching_tags_def in_set_enumerate_eq)

lemma recompute_ok:
  assumes "app_ok a" and "ap_current_screen a = TagList"
  shows "app_ok (recompute_search_matches lower (a\<lparr>ap_search_query := q\<rparr>))"
  using assms matching_tags_below[of _ lower q "ap_tags a"]
  by (auto simp: app_ok_defs recompute_search_matches_def app_ops split: list.split)

lemma select_match_ok:
  assumes "app_ok a" and "ap_current_screen a = TagList" and "ap_search_mode a"
  shows "app_ok (select_match (a\<lparr>ap_search_match_index := n\<rparr>))"
  using assms by (auto simp: app_ok_defs select_match_def app_ops)

lemma search_key_ok:
  assumes "app_ok a" and "ap_current_screen a = TagList" and "ap_search_mode a"
  shows "app_ok (search_key lower k a)"
  using assms
  by (auto simp: search_key_def update_search_query_def search_backspace_def next_search_match_def
      prev_search_match_def exit_search_mode_def[of a]
      intro!: recompute_ok toggle_ok exit_search_ok[unfolded exit_search_mode_def] start_read_ok select_match_ok
      simp del: if_split split: key_code.split if_split)

lemma tag_list_key_ok: "app_ok a \<Longrightarrow> ap_current_screen a = TagList \<Longrightarrow> app_ok (tag_list_key lower k a)"
  by (auto simp: tag_list_key_def intro!: search_key_ok go_back_ok toggle_ok enter_search_ok start_read_ok quit_ok move_key_ok)

lemma enter_write_ok:
  "app_ok a \<Longrightarrow> ap_read_result_rx a = None \<Longrightarrow> app_ok (enter_write_mode a)"
  by (auto simp: app_ok_defs enter_write_mode_def app_ops intro!: add_message_length split: option.splits)

text \<open>
  Leaving the values, or asking for the write dialog, while a read is in flight.
\<close>

definition hasty :: "key_code \<Rightarrow> app \<Rightarrow> bool" where
  "hasty k a \<longleftrightarrow> ap_current_screen a = TagValues \<and> ap_read_result_rx a \<noteq> None \<and> (k = KEsc \<or> typed k [''w'', ''W''])"

lemma not_hasty:
  "\<not> hasty k a \<Longrightarrow> ap_current_screen a = TagValues \<Longrightarrow> k = KEsc \<or> typed k [''w'', ''W''] \<Longrightarrow> ap_read_result_rx a = None"
  unfolding hasty_def by blast

lemma tag_values_key_ok:
  "app_ok a \<Longrightarrow> ap_current_screen a = TagValues \<Longrightarrow> \<not> hasty k a \<Longrightarrow> app_ok (tag_values_key k a)"
  by (auto simp: tag_values_key_def search_mode_screen not_hasty
      intro!: go_back_ok enter_write_ok quit_ok move_key_ok)

lemma start_write_ok: "app_ok a \<Longrightarrow> ap_current_screen a = WriteInput \<Longrightarrow> app_ok (start_write_value a)"
  by (auto simp: app_ok_defs start_write_value_def app_ops intro!: add_message_length split: option.splits)

lemma write_input_key_ok: "app_ok a \<Longrightarrow> ap_current_screen a = WriteInput \<Longrightarrow> app_ok (write_input_key k a)"
  by (auto simp: write_input_key_def search_mode_screen intro!: go_back_ok start_write_ok split: key_code.split)
    (auto simp: app_ok_defs)

lemma handle_key_ok:
  assumes "app_ok a" and "\<not> hasty (ke_code key) a"
  shows "app_ok (handle_key_event lower key a)"
  using assms
  by (cases "ap_current_screen a")
    (auto simp: handle_key_event_def search_mode_screen
      intro: home_key_ok server_list_key_ok tag_list_key_ok tag_values_key_ok write_input_key_ok go_back_ok)

section \<open>Runs\<close>

text \<open>
  A run in which no key leaves the values while a read is in flight, and in which a read
  answers with at most one value per tag.
\<close>

definition calm_turn :: "ui_turn \<Rightarrow> app \<Rightarrow> bool" where
  "calm_turn u a \<longleftrightarrow> answer_fits u a
     \<and> (case ut_key u of Some key \<Rightarrow> \<not> ke_press key \<or> \<not> hasty (ke_code key) (poll_results u a) | None \<Rightarrow> True)"

fun calm_run :: "(string \<Rightarrow> string) \<Rightarrow> ui_turn list \<Rightarrow> app \<Rightarrow> bool" where
  "calm_run lower [] a = True"
| "calm_run lower (u # us) a \<longleftrightarrow> calm_turn u a
     \<and> (ap_current_screen (run_turn lower u a) = Exiting \<or> calm_run lower us (run_turn lower u a))"

lemma redrawn_ok: "app_ok (a\<lparr>ap_list_state := l, ap_table_state := t\<rparr>) = app_ok a"
  by (simp add: table_state_ok) (simp add: app_ok_parts split: current_screen.split)

lemma run_turn_ok:
  assumes "app_ok a" and "ap_current_screen a \<noteq> Exiting" and "calm_turn u a"
  shows "app_ok (run_turn lower u a)"
proof -
  let ?p = "poll_results u a"
  let ?d = "?p\<lparr>ap_list_state := fst (ut_drawn u), ap_table_state := snd (ut_drawn u)\<rparr>"
  have d: "app_ok ?d"
    using poll_results_ok(1)[OF assms(1,2)] assms(3) by (simp add: redrawn_ok calm_turn_def)
  show ?thesis
  proof (cases "ut_key u")
    case None
    with d show ?thesis by (simp add: run_turn_def)
  next
    case (Some key)
    show ?thesis
    proof (cases "ke_press key")
      case False
      with Some d show ?thesis by (simp add: run_turn_def handle_key_event_def)
    next
      case True
      with Some assms(3) have "\<not> hasty (ke_code key) ?d" by (auto simp: calm_turn_def hasty_def)
      with Some handle_key_ok[OF d this, of lower] show ?thesis by (simp add: run_turn_def)
    qed
  qed
qed

lemma run_app_ok:
  "app_ok a \<Longrightarrow> ap_current_screen a \<noteq> Exiting \<Longrightarrow> calm_run lower us a \<Longrightarrow> app_ok (run_app lower us a)"
  by (induction us arbitrary: a) (auto simp: Let_def dest: run_turn_ok)

lemma new_app_ok: "app_ok new_app"
  by (simp add: app_ok_defs new_app_def)

section \<open>Quitting\<close>

definition quits :: "app \<Rightarrow> key_code \<Rightarrow> bool" where
  "quits a k \<longleftrightarrow> (case ap_current_screen a of
       Home \<Rightarrow> k = KEsc
     | ServerList \<Rightarrow> typed k [''q'', ''Q'']
     | TagList \<Rightarrow> \<not> ap_search_mode a \<and> typed k [''q'', ''Q'']
     | TagValues \<Rightarrow> typed k [''q'', ''Q'']
     | _ \<Rightarrow> False)"

lemma selection_keeps_screen:
  "ap_current_screen (select_in_list i a) = ap_current_screen a" "ap_current_screen (select_row n a) = ap_current_screen a"
  "ap_current_screen (select_match a) = ap_current_screen a" "ap_current_screen (toggle_tag_selection a) = ap_current_screen a"
  "ap_current_screen (move_key k a) = ap_current_screen a" "ap_current_screen (enter_search_mode a) = ap_current_screen a"
  "ap_current_screen (exit_search_mode a) = ap_current_screen a"
  "ap_current_screen (recompute_search_matches lower a) = ap_current_screen a"
  by (auto simp: app_ops select_match_def toggle_tag_selection_def move_key_def select_next_def select_prev_def
      page_down_def page_up_def enter_search_mode_def exit_search_mode_def recompute_search_matches_def
      split: option.split key_code.split list.split)

lemma operations_do_not_exit:
  "ap_current_screen a \<noteq> Exiting \<Longrightarrow> ap_current_screen (start_browse_tags a) \<noteq> Exiting"
  "ap_current_screen a \<noteq> Exiting \<Longrightarrow> ap_current_screen (start_read_values a) \<noteq> Exiting"
  "ap_current_screen a \<noteq> Exiting \<Longrightarrow> ap_current_screen (start_write_value a) \<noteq> Exiting"
  "ap_current_screen a \<noteq> Exiting \<Longrightarrow> ap_current_screen (enter_write_mode a) \<noteq> Exiting"
  "ap_current_screen a \<noteq> Exiting \<Longrightarrow> ap_current_screen (go_back a) \<noteq> Exiting"
  "ap_current_screen (start_fetch_servers a) \<noteq> Exiting"
  by (auto simp: start_browse_tags_def start_read_values_def start_write_value_def enter_write_mode_def
      start_fetch_servers_def go_back_def app_ops split: option.split current_screen.split)

lemma key_exits:
  assumes "ap_current_screen a \<noteq> Exiting"
  shows "ap_current_screen (handle_key_event lower key a) = Exiting \<longleftrightarrow> ke_press key \<and> quits a (ke_code key)"
  using assms
  by (cases "ap_current_screen a")
    (auto simp: handle_key_event_def quits_def home_key_def server_list_key_def tag_list_key_def search_key_def
      tag_values_key_def write_input_key_def quit_def log_transition_def typed_def selection_keeps_screen
      operations_do_not_exit update_search_query_def search_backspace_def next_search_match_def prev_search_match_def
      split: key_code.split)

section \<open>A run to the list of tags\<close>

definition press :: "key_code \<Rightarrow> key_event option" where
  "press k = Some \<lparr>ke_press = True, ke_code = k\<rparr>"

definition empty_turn :: ui_turn where
  "empty_turn = \<lparr>ut_fetch = RecvEmpty, ut_browse = RecvEmpty, ut_read = RecvEmpty, ut_write = RecvEmpty,
     ut_now = 0, ut_later = 0, ut_drawn = (None, None), ut_key = None\<rparr>"

definition first_turns :: "ui_turn list" where
  "first_turns =
     [empty_turn\<lparr>ut_key := press KEnter\<rparr>,
      empty_turn\<lparr>ut_fetch := Received (Inr [''Plant'', ''Rack'']), ut_key := press KDown\<rparr>,
      empty_turn\<lparr>ut_key := press KEnter\<rparr>,
      empty_turn\<lparr>ut_browse := Received (Inr [''A'', ''B'']), ut_key := press (KChar '' '')\<rparr>]"

lemma first_turns_calm: "calm_run (\<lambda>s. s) first_turns new_app"
  by code_simp

lemma first_turns_end:
  "(ap_current_screen (run_app (\<lambda>s. s) first_turns new_app), ap_tags (run_app (\<lambda>s. s) first_turns new_app),
    ap_selected_tags (run_app (\<lambda>s. s) first_turns new_app)) = (TagList, [''A'', ''B''], [True, False])"
  by code_simp

definition one_value :: tag_value where
  "one_value = \<lparr>tv_tag_id = ''A'', tv_value = ''1'', tv_quality = ''Good'', tv_timestamp = ''N/A''\<rparr>"

definition refreshing :: app where
  "refreshing = new_app\<lparr>ap_current_screen := TagValues, ap_tags := [''A''], ap_tag_values := [one_value],
     ap_refresh_server := Some ''Rack'', ap_read_result_rx := Some (''Rack'', [''A''])\<rparr>"

section \<open>Properties\<close>



text \<open>
  C37. A turn ends the program exactly when its key is pressed on a screen that it quits: Esc
  on the first screen, q or Q on the lists and the values, but not while searching, loading or
  typing a value. No answer and no other key does, and neither does a key that is released.
\<close>

theorem exits_exactly_on_quit_keys:
  assumes "ap_current_screen a \<noteq> Exiting"
  shows "ap_current_screen (run_turn lower u a) = Exiting \<longleftrightarrow>
    (\<exists>key. ut_key u = Some key \<and> ke_press key \<and> quits (poll_results u a) (ke_code key))"
proof -
  let ?p = "poll_results u a"
  let ?d = "?p\<lparr>ap_list_state := fst (ut_drawn u), ap_table_state := snd (ut_drawn u)\<rparr>"
  have p: "ap_current_screen ?p \<noteq> Exiting"
    using assms by (simp add: poll_results_def polls_keep_screens)
  have "quits ?d k = quits ?p k" for k by (simp add: quits_def split: current_screen.split)
  with key_exits[of ?d lower] p show ?thesis
    by (cases "ut_key u") (simp_all add: run_turn_def)
qed

theorem exits_exactly_on_quit_keys_witness:
  "ap_current_screen (run_turn (\<lambda>s. s) (empty_turn\<lparr>ut_key := press KEsc\<rparr>) new_app) = Exiting
   \<and> ap_current_screen (run_turn (\<lambda>s. s) (empty_turn\<lparr>ut_key := press (KChar ''q'')\<rparr>) new_app) \<noteq> Exiting"
proof -
  have home: "ap_current_screen new_app \<noteq> Exiting" by (simp add: new_app_def)
  have same: "poll_results (empty_turn\<lparr>ut_key := k\<rparr>) new_app = new_app" for k
    by (simp add: poll_results_def new_app_def poll_fetch_result_def poll_browse_result_def poll_read_result_def
        poll_write_result_def maybe_auto_refresh_def)
  show ?thesis
    unfolding exits_exactly_on_quit_keys[OF home] same by (simp add: press_def quits_def new_app_def)
qed


end
