(* ===== verification/Ui.thy ===== *)
theory Ui
  imports AppScreens
begin

text \<open>
  The drawing of the terminal front end, \<open>opc-cli/src/ui.rs\<close>: which widgets with which texts a
  state of the application is drawn as, and in which parts of the screen. The widgets and the
  layout are those of \<open>ratatui\<close>: \<open>split\<close> is its \<open>Layout::split\<close>, and what a widget looks like on the
  screen is not modelled. Colours and other styles are left out, except that a row which matches
  the search is marked.
\<close>

section \<open>Widgets\<close>

record rect =
  rc_x :: u16
  rc_y :: u16
  rc_width :: u16
  rc_height :: u16

datatype direction = Vertical | Horizontal

datatype layout_constraint = CMin nat | CLength nat | CPercentage nat

type_synonym splitter = "direction \<Rightarrow> layout_constraint list \<Rightarrow> rect \<Rightarrow> rect list"

text \<open>
  The widgets with the title of their border. A list has rows, marked when they match the
  search; a table has a header, rows and column widths; both have a highlight symbol and the
  selected row.
\<close>

datatype content = RawText string | TextLines "string list"

datatype widget =
    Clear
  | Paragraph "string option" content
  | RowList string "(string \<times> bool) list" string "nat option"
  | ValueTable string "string list" "string list list" "layout_constraint list" string "nat option"

type_synonym drawing = "(rect \<times> widget) list"

section \<open>The screens\<close>

definition up_arrow :: string where "up_arrow = bytes [0xE2, 0x86, 0x91]"
definition down_arrow :: string where "down_arrow = bytes [0xE2, 0x86, 0x93]"

fun help_line :: "bool \<Rightarrow> current_screen \<Rightarrow> string" where
  "help_line search_mode Home = ''Enter: Connect | Esc: Quit | Type hostname''"
| "help_line search_mode ServerList =
     up_arrow @ ''/'' @ down_arrow @ '': Nav | PgDn/PgUp: Page | Enter: Tags | Esc: Back | q: Quit''"
| "help_line search_mode TagList =
     (if search_mode then ''Type: Search | Tab: Next | Space: Select | Enter: Read | Esc: Cancel''
      else up_arrow @ ''/'' @ down_arrow
        @ '': Nav | PgDn/PgUp: Page | Space: Select | s: Search | Enter: Read | Esc: Back | q: Quit'')"
| "help_line search_mode TagValues =
     up_arrow @ ''/'' @ down_arrow @ '': Nav | PgDn/PgUp: Page | w: Write | Esc: Back | q: Quit''"
| "help_line search_mode WriteInput = ''Enter: Submit | Esc: Cancel | Type value''"
| "help_line search_mode Loading = ''Please wait...''"
| "help_line search_mode Exiting = ''Exiting...''"

definition render_help :: "app \<Rightarrow> rect \<Rightarrow> drawing" where
  "render_help a area =
     [(area, Paragraph None (TextLines [help_line (ap_search_mode a) (ap_current_screen a)]))]"

definition render_home :: "splitter \<Rightarrow> app \<Rightarrow> rect \<Rightarrow> drawing" where
  "render_home split a area =
     (let vertical_chunks = split Vertical [CPercentage 40, CLength 3, CPercentage 40] area;
          horizontal_chunks = split Horizontal [CPercentage 20, CPercentage 60, CPercentage 20] (vertical_chunks ! 1)
      in [(horizontal_chunks ! 1,
           Paragraph (Some '' Step 1: Connect to Host '') (RawText (''> '' @ ap_host_input a @ ''_'')))])"

definition render_server_list :: "app \<Rightarrow> rect \<Rightarrow> drawing" where
  "render_server_list a area =
     [(area, RowList '' Step 2: Select OPC Server '' (map (\<lambda>s. (s, False)) (ap_servers a)) ''>> '' (ap_list_state a))]"

text \<open>A tag is shown with its checkbox; a missing flag counts as not selected.\<close>

definition is_selected :: "app \<Rightarrow> nat \<Rightarrow> bool" where
  "is_selected a idx = (if idx < length (ap_selected_tags a) then ap_selected_tags a ! idx else False)"

definition tag_row :: "app \<Rightarrow> nat \<times> string \<Rightarrow> string \<times> bool" where
  "tag_row a p =
     (case p of (idx, t) \<Rightarrow>
        ((if is_selected a idx then ''['' @ check_mark @ ''] '' else ''[ ] '') @ t,
         ap_search_mode a \<and> idx \<in> set (ap_search_matches a)))"

definition render_tag_list :: "splitter \<Rightarrow> app \<Rightarrow> rect \<Rightarrow> drawing" where
  "render_tag_list split a area =
     (let list_chunks =
            (if ap_search_mode a then split Vertical [CLength 3, CMin 0] area else split Vertical [CMin 0] area);
          search_bar =
            (if ap_search_mode a then
               [(list_chunks ! 0, Paragraph (Some '' Search Tags (Substring Match) '')
                  (RawText (''Search: '' @ ap_search_query a @ ''_'')))]
             else []);
          items = map (tag_row a) (enumerate 0 (ap_tags a));
          title =
            (if ap_search_mode a then
               '' Step 3: Browse Tags ('' @ show_nat (length (ap_search_matches a)) @ ''/''
                 @ show_nat (length (ap_tags a)) @ '' matches) ''
             else '' Step 3: Browse Tags '');
          list_area = (if ap_search_mode a then list_chunks ! 1 else list_chunks ! 0)
      in search_bar @ [(list_area, RowList title items '' * '' (ap_list_state a))])"

definition render_tag_values :: "app \<Rightarrow> rect \<Rightarrow> drawing" where
  "render_tag_values a area =
     [(area, ValueTable '' Step 4: Tag Values '' [''Tag ID'', ''Value'', ''Quality'', ''Timestamp'']
        (map (\<lambda>tv. [tv_tag_id tv, tv_value tv, tv_quality tv, tv_timestamp tv]) (ap_tag_values a))
        [CPercentage 45, CPercentage 15, CPercentage 10, CPercentage 30] ''>> '' (ap_table_state a))]"

definition status_lines :: "app \<Rightarrow> string list" where
  "status_lines a = map (\<lambda>m. ''- '' @ m) (rev (take 2 (rev (ap_messages a))))"

definition render_status_bar :: "app \<Rightarrow> rect \<Rightarrow> drawing" where
  "render_status_bar a area = [(area, Paragraph (Some '' Status Log '') (TextLines (status_lines a)))]"

definition centered_rect :: "splitter \<Rightarrow> nat \<Rightarrow> nat \<Rightarrow> rect \<Rightarrow> rect" where
  "centered_rect split percent_x percent_y r =
     (let popup_layout = split Vertical
            [CPercentage ((100 - percent_y) div 2), CPercentage percent_y, CPercentage ((100 - percent_y) div 2)] r
      in split Horizontal
           [CPercentage ((100 - percent_x) div 2), CPercentage percent_x, CPercentage ((100 - percent_x) div 2)]
           (popup_layout ! 1) ! 1)"

definition render_write_input :: "splitter \<Rightarrow> app \<Rightarrow> rect \<Rightarrow> drawing" where
  "render_write_input split a area =
     (let tag_id = (case ap_write_tag_id a of Some t \<Rightarrow> t | None \<Rightarrow> ''Unknown'');
          area = centered_rect split 60 30 area
      in [(area, Clear),
          (area, Paragraph (Some '' Write Tag Value '')
             (RawText (''Tag: '' @ tag_id @ [CHR 10] @ ''Value: '' @ ap_write_value_input a @ ''_'')))])"

definition loading_line :: "u64 \<Rightarrow> string" where
  "loading_line progress =
     (if 0 < progress then ''Browsing OPC tags... ('' @ show_nat (unat progress) @ '' found so far)''
      else ''Communicating with OPC Server...'')"

text \<open>\<open>progress\<close> is what the task of the browse has counted when the screen is drawn.\<close>

definition render_loading_popup :: "splitter \<Rightarrow> u64 \<Rightarrow> rect \<Rightarrow> drawing" where
  "render_loading_popup split progress area =
     (let area = centered_rect split 60 20 area
      in [(area, Clear), (area, Paragraph (Some '' Loading '') (RawText (loading_line progress)))])"

definition render :: "splitter \<Rightarrow> u64 \<Rightarrow> app \<Rightarrow> rect \<Rightarrow> drawing" where
  "render split progress a frame =
     (let chunks = split Vertical [CMin 0, CLength 3, CLength 1] frame;
          main_area = chunks ! 0; status_area = chunks ! 1; help_area = chunks ! 2
      in (case ap_current_screen a of
            Home \<Rightarrow> render_home split a main_area
          | ServerList \<Rightarrow> render_server_list a main_area
          | TagList \<Rightarrow> render_tag_list split a main_area
          | TagValues \<Rightarrow> render_tag_values a main_area
          | WriteInput \<Rightarrow> render_tag_values a main_area @ render_write_input split a main_area
          | Loading \<Rightarrow> render_loading_popup split progress main_area
          | Exiting \<Rightarrow> [])
         @ render_status_bar a status_area @ render_help a help_area)"

section \<open>The help line names the keys\<close>

text \<open>How the help line names a key. A typed letter is named by itself or as typing in general.\<close>

fun key_names :: "key_code \<Rightarrow> string list" where
  "key_names KEnter = [''Enter: '']"
| "key_names KEsc = [''Esc: '']"
| "key_names KTab = [''Tab: '']"
| "key_names KUp = [up_arrow @ ''/'']"
| "key_names KDown = [''/'' @ down_arrow @ '': '']"
| "key_names KPageDown = [''PgDn/'']"
| "key_names KPageUp = [''/PgUp: '']"
| "key_names (KChar c) = [''Type'', (if c = '' '' then ''Space'' else ascii_lower c) @ '': '']"
| "key_names _ = []"

definition names :: "string \<Rightarrow> key_code \<Rightarrow> bool" where
  "names line k = list_ex (contains line) (key_names k)"

definition typing :: "app \<Rightarrow> bool" where
  "typing a \<longleftrightarrow> ap_current_screen a = Home \<or> ap_current_screen a = WriteInput
     \<or> ap_current_screen a = TagList \<and> ap_search_mode a"

declare contains.simps [simp del] help_line.simps [simp del]

lemma typed_letters [simp]:
  "typed KEnter cs = False" "typed KEsc cs = False" "typed KBackspace cs = False" "typed KTab cs = False"
  "typed KBackTab cs = False" "typed KUp cs = False" "typed KDown cs = False" "typed KPageUp cs = False"
  "typed KPageDown cs = False" "typed KOther cs = False" "typed (KChar c) cs = (c \<in> set cs)"
  by (simp_all add: typed_def)

lemma home_names: "\<forall>k \<in> {KEnter, KEsc}. names (help_line b Home) k" "contains (help_line b Home) ''Type''"
  by code_simp+

lemma list_names:
  "\<forall>k \<in> {KEnter, KEsc, KUp, KDown, KPageUp, KPageDown, KChar ''q'', KChar ''Q''}. names (help_line b ServerList) k"
  by code_simp

lemma search_names:
  "\<forall>k \<in> {KEnter, KEsc, KTab}. names (help_line True TagList) k" "contains (help_line True TagList) ''Type''"
  by code_simp+

lemma tag_names:
  "\<forall>k \<in> {KEnter, KEsc, KUp, KDown, KPageUp, KPageDown, KChar '' '', KChar ''s'', KChar ''S'', KChar ''q'', KChar ''Q''}.
     names (help_line False TagList) k"
  by code_simp

lemma value_names:
  "\<forall>k \<in> {KEsc, KUp, KDown, KPageUp, KPageDown, KChar ''w'', KChar ''W'', KChar ''q'', KChar ''Q''}.
     names (help_line b TagValues) k"
  by code_simp

lemma write_names:
  "\<forall>k \<in> {KEnter, KEsc}. names (help_line b WriteInput) k" "contains (help_line b WriteInput) ''Type''"
  by code_simp+

lemma typing_named: "contains line ''Type'' \<Longrightarrow> names line (KChar c)"
  by (simp add: names_def)

lemma quit_lines:
  "contains (help_line b ServerList) ''q: Quit''" "contains (help_line False TagList) ''q: Quit''"
  "contains (help_line b TagValues) ''q: Quit''" "\<not> contains (help_line b Home) ''q: Quit''"
  "\<not> contains (help_line True TagList) ''q: Quit''" "\<not> contains (help_line b WriteInput) ''q: Quit''"
  "\<not> contains (help_line b Loading) ''q: Quit''" "\<not> contains (help_line b Exiting) ''q: Quit''"
  by code_simp+

lemma esc_lines:
  "contains (help_line b Home) ''Esc: Quit''" "\<not> contains (help_line b ServerList) ''Esc: Quit''"
  "\<not> contains (help_line True TagList) ''Esc: Quit''" "\<not> contains (help_line False TagList) ''Esc: Quit''"
  "\<not> contains (help_line b TagValues) ''Esc: Quit''"
  "\<not> contains (help_line b WriteInput) ''Esc: Quit''" "\<not> contains (help_line b Loading) ''Esc: Quit''"
  "\<not> contains (help_line b Exiting) ''Esc: Quit''"
  by code_simp+

lemma last_two:
  assumes "2 \<le> length xs"
  shows "rev (take 2 (rev xs)) = [xs ! (length xs - 2), xs ! (length xs - 1)]"
proof -
  obtain a b ys where "rev xs = a # b # ys"
    using assms by (metis One_nat_def Suc_1 length_rev Suc_le_length_iff)
  then have "xs = rev ys @ [b, a]" by (simp add: rev_eq_append_conv[symmetric] rev_swap)
  then show ?thesis by (simp add: nth_append)
qed

section \<open>Properties\<close>



text \<open>
  The status log never shows the newest message while there are two: its area is three
  rows high, of which the border takes two, and the line that is left shows the message
  before the newest, as long as the widget draws its lines from the top.
\<close>

theorem newest_message_is_hidden:
  assumes "\<And>frame. rc_height (split Vertical [CMin 0, CLength 3, CLength 1] frame ! 1) = 3"
    and "\<And>area lines. shown area (Paragraph (Some '' Status Log '') (TextLines lines)) = take (unat (rc_height area) - 2) lines"
    and "2 \<le> length (ap_messages a)"
  shows "\<exists>area bar. (area, bar) \<in> set (render split progress a frame) \<and>
    bar = Paragraph (Some '' Status Log '') (TextLines (status_lines a)) \<and>
    shown area bar = [''- '' @ ap_messages a ! (length (ap_messages a) - 2)]"
proof -
  let ?area = "split Vertical [CMin 0, CLength 3, CLength 1] frame ! 1"
  let ?w = "Paragraph (Some '' Status Log '') (TextLines (status_lines a))"
  have "(?area, ?w) \<in> set (render split progress a frame)"
    by (simp add: render_def Let_def render_status_bar_def)
  moreover have "status_lines a = [''- '' @ ap_messages a ! (length (ap_messages a) - 2),
      ''- '' @ ap_messages a ! (length (ap_messages a) - 1)]"
    unfolding status_lines_def last_two[OF assms(3)] by simp
  then have "shown ?area ?w = [''- '' @ ap_messages a ! (length (ap_messages a) - 2)]"
    unfolding assms(2) assms(1) by simp
  ultimately show ?thesis by blast
qed

text \<open>A terminal whose status area is row 7 of ten.\<close>

definition small_split :: splitter where
  "small_split d cs r = [r, \<lparr>rc_x = 0, rc_y = 6, rc_width = 80, rc_height = 3\<rparr>, r]"

definition first_rows :: "rect \<Rightarrow> widget \<Rightarrow> string list" where
  "first_rows area w = (case w of Paragraph _ (TextLines ls) \<Rightarrow> take (unat (rc_height area) - 2) ls | _ \<Rightarrow> [])"

theorem newest_message_is_hidden_witness:
  "\<exists>area bar. (area, bar) \<in> set (render small_split 0 (add_message ''new'' (add_message ''old'' new_app))
       \<lparr>rc_x = 0, rc_y = 0, rc_width = 80, rc_height = 10\<rparr>)
     \<and> first_rows area bar = [''- old'']"
proof -
  let ?a = "add_message ''new'' (add_message ''old'' new_app)"
  have two: "ap_messages ?a = [''old'', ''new'']" by (simp add: add_message_def new_app_def)
  have area: "rc_height (small_split Vertical [CMin 0, CLength 3, CLength 1] frame ! 1) = 3" for frame
    by (simp add: small_split_def)
  have rows: "first_rows area (Paragraph (Some '' Status Log '') (TextLines lines)) = take (unat (rc_height area) - 2) lines"
    for area lines by (simp add: first_rows_def)
  have "2 \<le> length (ap_messages ?a)" by (simp add: two)
  from newest_message_is_hidden[of small_split first_rows, OF area rows this] show ?thesis
    unfolding two by fastforce
qed

end
