(* ===== verification/ComMemory.thy ===== *)
theory ComMemory
  imports Helpers Utf16
begin

text \<open>
  The COM memory of \<open>opc_da/com_utils.rs\<close>: pointers and arrays that the server allocates and
  the client owns and frees (\<open>RemotePointer\<close>, \<open>RemoteArray\<close>), values lent to the server
  (\<open>LocalPointer\<close>), and the conversions between native and Rust values.

  The COM task allocator is the state: its blocks by address, and the addresses it hands out
  next, 0 when it has no memory. A program that would have undefined behaviour (it frees or
  reads a block that is not allocated) or panics yields \<open>None\<close>. A \<open>windows::core::Error\<close> is
  its code and text; the text of a bare \<open>HRESULT\<close> comes from the operating system
  (\<open>win_error\<close>).
\<close>

section \<open>The allocator\<close>

datatype 'x block = Wide "u16 list" | Blob "8 word list" | Items "'x list"

record 'x com_memory =
  cm_blocks :: "(nat, 'x block) hmap"
  cm_draws :: "nat list"

type_synonym ('x, 'a) com_prog = "('x com_memory, opc_error, 'a) prog"

text \<open>\<open>CoTaskMemAlloc\<close> never hands out a block that is allocated; \<open>CoTaskMemFree\<close> ignores null.\<close>

definition task_alloc :: "'x block \<Rightarrow> ('x, nat) com_prog" where
  "task_alloc b m =
     (case dropWhile (hm_contains (cm_blocks m)) (cm_draws m) of
        [] \<Rightarrow> None
      | p # ps \<Rightarrow>
          if p = 0 then Some (Inr 0, m\<lparr>cm_draws := ps\<rparr>)
          else Some (Inr p, m\<lparr>cm_blocks := hm_insert p b (cm_blocks m), cm_draws := ps\<rparr>))"

definition task_free :: "nat \<Rightarrow> ('x, unit) com_prog" where
  "task_free p m =
     (if p = 0 then Some (Inr (), m)
      else if hm_contains (cm_blocks m) p then Some (Inr (), m\<lparr>cm_blocks := hm_remove p (cm_blocks m)\<rparr>)
      else None)"

definition block_at :: "nat \<Rightarrow> ('x, 'x block) com_prog" where
  "block_at p m = (case hm_get (cm_blocks m) p of Some b \<Rightarrow> Some (Inr b, m) | None \<Rightarrow> None)"

section \<open>Remote pointers\<close>

text \<open>A \<open>RemotePointer\<close> is its address.\<close>

definition pointer_null :: nat where "pointer_null = 0"

definition copy_slice :: "'x block \<Rightarrow> ('x, nat) com_prog" where
  "copy_slice b = bindp (task_alloc b) (\<lambda>p. if p = 0 then diverge else ret p)"

definition pointer_as_ref :: "nat \<Rightarrow> ('x, 'x block option) com_prog" where
  "pointer_as_ref p = (if p = 0 then ret None else bindp (block_at p) (\<lambda>b. ret (Some b)))"

definition pointer_ok :: "nat \<Rightarrow> ('x, 'x block) com_prog" where
  "pointer_ok p = bindp (pointer_as_ref p) (\<lambda>r.
     case r of None \<Rightarrow> throw (Com E_POINTER ''Pointer is null'') | Some b \<Rightarrow> ret b)"

definition pointer_from_option :: "('v \<Rightarrow> ('x, nat) com_prog) \<Rightarrow> 'v option \<Rightarrow> ('x, nat) com_prog" where
  "pointer_from_option into val = (case val of Some v \<Rightarrow> into v | None \<Rightarrow> ret pointer_null)"

definition pointer_of_str :: "string \<Rightarrow> ('x, nat) com_prog" where
  "pointer_of_str s = copy_slice (Wide (to_wide s))"

definition drop_pointer :: "nat \<Rightarrow> ('x, unit) com_prog" where
  "drop_pointer p = (if p \<noteq> 0 then task_free p else ret ())"

text \<open>The derived \<open>Clone\<close>: the same address.\<close>

definition clone_pointer :: "nat \<Rightarrow> nat" where
  "clone_pointer p = p"

text \<open>\<open>PWSTR::to_string\<close> reads up to the first zero.\<close>

definition pwstr_to_string :: "opc_error \<Rightarrow> nat \<Rightarrow> ('x, string) com_prog" where
  "pwstr_to_string invalid_utf16 p =
     bindp (block_at p) (\<lambda>b.
     case b of
       Wide us \<Rightarrow>
         if 0 \<in> set us then
           (case decode_utf16 (as_wide us) of Some s \<Rightarrow> ret s | None \<Rightarrow> throw invalid_utf16)
         else diverge
     | _ \<Rightarrow> diverge)"

text \<open>Both conversions take the pointer, which is freed when they return.\<close>

definition string_of_pointer :: "(u32 \<Rightarrow> opc_error) \<Rightarrow> opc_error \<Rightarrow> nat \<Rightarrow> ('x, string) com_prog" where
  "string_of_pointer win_error invalid_utf16 p =
     (if p = 0 then throw (win_error E_POINTER)
      else bindp (attempt (pwstr_to_string invalid_utf16 p)) (\<lambda>r.
           seqp (drop_pointer p) (lift_result r)))"

definition option_string_of_pointer :: "opc_error \<Rightarrow> nat \<Rightarrow> ('x, string option) com_prog" where
  "option_string_of_pointer invalid_utf16 p =
     (if p = 0 then ret None
      else bindp (attempt (pwstr_to_string invalid_utf16 p)) (\<lambda>r.
           seqp (drop_pointer p) (bindp (lift_result r) (\<lambda>s. ret (Some s)))))"

text \<open>
  \<open>String::try_from_native\<close> of a borrowed \<open>PWSTR\<close> makes a \<open>RemotePointer\<close> of it: the borrowed
  string is freed.
\<close>

definition string_of_native :: "(u32 \<Rightarrow> opc_error) \<Rightarrow> opc_error \<Rightarrow> nat \<Rightarrow> ('x, string) com_prog" where
  "string_of_native win_error invalid_utf16 native = string_of_pointer win_error invalid_utf16 native"

section \<open>Remote arrays\<close>

record com_array =
  ca_pointer :: nat
  ca_len :: u32

definition array_new :: "u32 \<Rightarrow> com_array" where
  "array_new len = \<lparr>ca_pointer = pointer_null, ca_len = len\<rparr>"

definition array_from_ptr :: "nat \<Rightarrow> u32 \<Rightarrow> com_array" where
  "array_from_ptr p len = \<lparr>ca_pointer = p, ca_len = len\<rparr>"

definition array_empty :: com_array where
  "array_empty = \<lparr>ca_pointer = pointer_null, ca_len = 0\<rparr>"

fun items_of :: "'x block \<Rightarrow> 'x list option" where
  "items_of (Items xs) = Some xs"
| "items_of _ = None"

fun blob_of :: "'x block \<Rightarrow> 8 word list option" where
  "blob_of (Blob bs) = Some bs"
| "blob_of _ = None"

text \<open>A slice of the elements that the block has; more elements than it has are not there.\<close>

definition array_as_slice :: "('x block \<Rightarrow> 'e list option) \<Rightarrow> com_array \<Rightarrow> ('x, 'e list) com_prog" where
  "array_as_slice elements a =
     (if ca_pointer a = 0 \<or> ca_len a = 0 then ret []
      else bindp (block_at (ca_pointer a)) (\<lambda>b.
           case elements b of
             None \<Rightarrow> diverge
           | Some xs \<Rightarrow> if unat (ca_len a) \<le> length xs then ret (take (unat (ca_len a)) xs) else diverge))"

definition array_len :: "com_array \<Rightarrow> u32" where
  "array_len a = (if ca_pointer a = 0 then 0 else ca_len a)"

definition array_is_empty :: "com_array \<Rightarrow> bool" where
  "array_is_empty a \<longleftrightarrow> ca_len a = 0 \<or> ca_pointer a = 0"

definition array_set_len :: "u32 \<Rightarrow> com_array \<Rightarrow> com_array" where
  "array_set_len len a = a\<lparr>ca_len := len\<rparr>"

definition drop_array :: "com_array \<Rightarrow> ('x, unit) com_prog" where
  "drop_array a = drop_pointer (ca_pointer a)"

text \<open>
  \<open>into_vec\<close>: a pointer to every element, of \<open>width\<close> bytes each; the array itself is dropped
  when the method returns.
\<close>

definition array_into_vec :: "('x block \<Rightarrow> 'e list option) \<Rightarrow> nat \<Rightarrow> com_array \<Rightarrow> ('x, nat list) com_prog" where
  "array_into_vec elements width a =
     bindp (array_as_slice elements a) (\<lambda>xs.
     seqp (drop_array a) (ret (map (\<lambda>i. ca_pointer a + i * width) [0..<length xs])))"

fun drop_all :: "nat list \<Rightarrow> ('x, unit) com_prog" where
  "drop_all [] = ret ()"
| "drop_all (p # ps) = seqp (drop_pointer p) (drop_all ps)"

section \<open>Local pointers\<close>

text \<open>
  A \<open>LocalPointer\<close> owns an optional value. The pointers handed out are the value they point
  to, or \<open>None\<close> for null.
\<close>

type_synonym 'a local_pointer = "'a option"

definition local_from_option :: "('v \<Rightarrow> 'a local_pointer) \<Rightarrow> 'v option \<Rightarrow> 'a local_pointer" where
  "local_from_option into val = (case val of Some v \<Rightarrow> into v | None \<Rightarrow> None)"

definition local_wide :: "string \<Rightarrow> u16 list local_pointer" where
  "local_wide s = Some (to_wide s)"

definition local_wides :: "string list \<Rightarrow> u16 list list local_pointer" where
  "local_wides vals = Some (map to_wide vals)"

definition local_len :: "'a list local_pointer \<Rightarrow> nat" where
  "local_len l = (case l of Some xs \<Rightarrow> length xs | None \<Rightarrow> 0)"

definition local_is_empty :: "'a list local_pointer \<Rightarrow> bool" where
  "local_is_empty l = (case l of Some xs \<Rightarrow> xs = [] | None \<Rightarrow> True)"

definition as_pwstr :: "u16 list local_pointer \<Rightarrow> u16 list option" where
  "as_pwstr l = (case l of Some us \<Rightarrow> Some us | None \<Rightarrow> None)"

definition as_pwstr_array :: "u16 list list local_pointer \<Rightarrow> u16 list option list" where
  "as_pwstr_array l = (case l of Some uss \<Rightarrow> map Some uss | None \<Rightarrow> [None])"

section \<open>Conversions\<close>

definition results_of_hresults :: "(u32 \<Rightarrow> opc_error) \<Rightarrow> u32 list \<Rightarrow> (opc_error + unit) list" where
  "results_of_hresults win_error codes = map (\<lambda>v. if hresult_is_ok v then Inr () else Inl (win_error v)) codes"

definition vec_of_array ::
  "('x block \<Rightarrow> 'e list option) \<Rightarrow> ('e \<Rightarrow> ('x, 't) com_prog) \<Rightarrow> com_array \<Rightarrow> ('x, 't list) com_prog" where
  "vec_of_array elements convert a = bindp (array_as_slice elements a) (\<lambda>xs. for_each xs convert)"

text \<open>Results and errors of a call; a failed conversion is the result of its element.\<close>

definition E_INVALIDARG :: u32 where "E_INVALIDARG = 0x80070057"

definition vec_of_results ::
  "(u32 \<Rightarrow> opc_error) \<Rightarrow> ('x block \<Rightarrow> 'e list option) \<Rightarrow> ('x block \<Rightarrow> u32 list option)
     \<Rightarrow> ('e \<Rightarrow> ('x, 't) com_prog) \<Rightarrow> com_array \<Rightarrow> com_array \<Rightarrow> ('x, (opc_error + 't) list) com_prog" where
  "vec_of_results win_error elements codes convert results errors =
     (if array_len results \<noteq> array_len errors then
        throw (Com E_INVALIDARG ''Results and errors arrays have different lengths'')
      else bindp (array_as_slice elements results) (\<lambda>rs.
           bindp (array_as_slice codes errors) (\<lambda>es.
           for_each (zip rs es) (\<lambda>(result, error).
             if hresult_is_ok error then attempt (convert result) else ret (Inl (win_error error))))))"

section \<open>Times\<close>

text \<open>
  A \<open>SystemTime\<close> is its distance from the Unix epoch in nanoseconds. \<open>checks\<close> tells whether the
  build checks integer overflow; without the checks the product wraps.
\<close>

definition EPOCH_DIFFERENCE :: nat where "EPOCH_DIFFERENCE = 11644473600 * 1000000000"

definition filetime_ticks :: "filetime \<Rightarrow> u64" where
  "filetime_ticks ft = (or) (push_bit 32 (ucast (ft_high ft))) (ucast (ft_low ft))"

definition time_of_filetime :: "bool \<Rightarrow> filetime \<Rightarrow> ('s, opc_error, int) prog" where
  "time_of_filetime checks ft =
     (let ticks = filetime_ticks ft; duration_since_1601 = ticks * 100
      in if checks \<and> 2 ^ 64 \<le> unat ticks * 100 then diverge
         else if unat duration_since_1601 < EPOCH_DIFFERENCE then
           throw (Com E_INVALIDARG ''FILETIME is before UNIX_EPOCH'')
         else ret (int (unat duration_since_1601 - EPOCH_DIFFERENCE)))"

definition filetime_of_time :: "int \<Rightarrow> opc_error + filetime" where
  "filetime_of_time t =
     (if t < 0 then Inl (Com E_INVALIDARG ''SystemTime is before UNIX_EPOCH'')
      else let ft = (nat t + EPOCH_DIFFERENCE) div 100
           in Inr \<lparr>ft_high = of_nat (ft div 2 ^ 32), ft_low = of_nat ft\<rparr>)"

section \<open>Owning and freeing\<close>

lemma drop_pointer_run:
  "drop_pointer p m =
     (if p = 0 then Some (Inr (), m)
      else if hm_contains (cm_blocks m) p then Some (Inr (), m\<lparr>cm_blocks := hm_remove p (cm_blocks m)\<rparr>)
      else None)"
  by (simp add: drop_pointer_def task_free_def ret_def)

lemma contains_remove: "hm_contains (hm_remove p blocks) q \<longleftrightarrow> q \<noteq> p \<and> hm_contains blocks q"
  by (auto simp: hm_contains_def hm_remove_def)

definition owned :: "nat list \<Rightarrow> nat list" where
  "owned ps = filter (\<lambda>p. p \<noteq> 0) ps"

definition removed :: "nat list \<Rightarrow> 'x com_memory \<Rightarrow> 'x com_memory" where
  "removed ps m = m\<lparr>cm_blocks := filter (\<lambda>b. fst b \<notin> set (owned ps)) (cm_blocks m)\<rparr>"

lemma drop_all_run:
  "drop_all ps m =
     (if distinct (owned ps) \<and> (\<forall>p \<in> set (owned ps). hm_contains (cm_blocks m) p)
      then Some (Inr (), removed ps m) else None)"
proof (induction ps arbitrary: m)
  case Nil
  then show ?case by (simp add: ret_def owned_def removed_def)
next
  case (Cons p ps)
  show ?case
  proof (cases "p = 0")
    case True
    with Cons show ?thesis by (auto simp: seqp_def bindp_def drop_pointer_run owned_def removed_def)
  next
    case False
    show ?thesis
    proof (cases "hm_contains (cm_blocks m) p")
      case there: True
      let ?m = "m\<lparr>cm_blocks := hm_remove p (cm_blocks m)\<rparr>"
      have "drop_all (p # ps) m = drop_all ps ?m"
        using False there by (simp add: seqp_def bindp_def drop_pointer_run)
      moreover have "removed ps ?m = removed (p # ps) m"
        using False by (auto simp: removed_def owned_def hm_remove_def intro!: filter_cong)
      ultimately show ?thesis
        using False there Cons[of ?m] by (auto simp: owned_def contains_remove)
    next
      case False
      with \<open>p \<noteq> 0\<close> show ?thesis by (simp add: seqp_def bindp_def drop_pointer_run owned_def)
    qed
  qed
qed

lemma map_of_filter_keys: "map_of (filter (\<lambda>b. P (fst b)) xs) q = (if P q then map_of xs q else None)"
  by (induction xs) auto

lemma removed_get:
  "hm_get (cm_blocks (removed ps m)) q = (if q \<in> set ps \<and> q \<noteq> 0 then None else hm_get (cm_blocks m) q)"
  by (simp add: removed_def hm_get_def map_of_filter_keys[of "\<lambda>k. k \<notin> set (owned ps)"]) (auto simp: owned_def)

lemma contains_get: "hm_contains blocks p \<longleftrightarrow> hm_get blocks p \<noteq> None"
  by (simp add: hm_get_None)

text \<open>A string conversion frees its string, whatever it yields.\<close>

lemma string_of_pointer_frees:
  assumes "string_of_pointer win_error bad p m = Some (r, m')" and "p \<noteq> 0"
  shows "hm_contains (cm_blocks m) p \<and> m' = m\<lparr>cm_blocks := hm_remove p (cm_blocks m)\<rparr>"
  using assms
  by (auto simp: string_of_pointer_def pwstr_to_string_def bindp_def attempt_def seqp_def block_at_def ret_def throw_def
      diverge_def lift_result_def drop_pointer_run contains_get split: option.splits block.splits if_splits)

lemma string_of_pointer_reads:
  assumes "hm_get (cm_blocks m) p = Some (Wide us)" and "0 \<in> set us" and "p \<noteq> 0"
  shows "string_of_pointer win_error bad p m =
    Some (case decode_utf16 (as_wide us) of Some s \<Rightarrow> Inr s | None \<Rightarrow> Inl bad,
      m\<lparr>cm_blocks := hm_remove p (cm_blocks m)\<rparr>)"
  using assms
  by (cases "decode_utf16 (as_wide us)")
    (simp_all add: string_of_pointer_def pwstr_to_string_def bindp_def attempt_def seqp_def block_at_def ret_def
      throw_def lift_result_def drop_pointer_run contains_get)

section \<open>Ticks\<close>

lemma unat_filetime_ticks: "unat (filetime_ticks ft) = unat (ft_high ft) * 2 ^ 32 + unat (ft_low ft)"
proof -
  let ?t = "unat (ft_high ft) * 2 ^ 32 + unat (ft_low ft)"
  have "?t < 2 ^ 64"
    using unsigned_less[where ?'a = nat, of "ft_high ft"] unsigned_less[where ?'a = nat, of "ft_low ft"] by simp
  moreover have "filetime_ticks ft = of_nat ?t"
    unfolding filetime_ticks_def
    by (subst disjunctive_add_eq_or[OF intervals_disjoint, symmetric]) (simp add: push_bit_eq_mult)
  ultimately show ?thesis by (simp only: unat_of_nat) simp
qed

lemma filetime_ticks_split:
  assumes "n < 2 ^ 64"
  shows "unat (filetime_ticks \<lparr>ft_high = of_nat (n div 2 ^ 32), ft_low = of_nat n\<rparr>) = n"
proof -
  have "n div 2 ^ 32 < 2 ^ 32" using assms by (simp add: less_mult_imp_div_less)
  then show ?thesis by (simp add: unat_filetime_ticks unat_of_nat)
qed

lemma epoch_hundreds: "EPOCH_DIFFERENCE = 100 * 116444736000000000"
  by (simp add: EPOCH_DIFFERENCE_def)

text \<open>What a conversion back makes of k ticks.\<close>

lemma time_of_ticks:
  assumes "unat (filetime_ticks ft) = k"
  shows "time_of_filetime checks ft s =
    (if checks \<and> 2 ^ 64 \<le> k * 100 then None
     else if k * 100 mod 2 ^ 64 < EPOCH_DIFFERENCE then
       Some (Inl (Com E_INVALIDARG ''FILETIME is before UNIX_EPOCH''), s)
     else Some (Inr (int (k * 100 mod 2 ^ 64 - EPOCH_DIFFERENCE)), s))"
proof -
  have "unat (filetime_ticks ft * 100) = k * 100 mod 2 ^ 64" by (simp add: unat_word_ariths assms)
  then show ?thesis by (simp add: time_of_filetime_def Let_def assms diverge_def throw_def ret_def)
qed

section \<open>Properties\<close>

text \<open>
  C23. Owners free what they own exactly once: dropping a list of pointers is defined exactly when
  the non-null ones are different and allocated, and then it frees these blocks and no other.
  A pointer and its clone cannot both be dropped, and neither can the pointers that
  \<open>into_vec\<close> makes of an array that has elements.
\<close>

theorem owners_free_once:
  fixes m :: "'x com_memory"
  shows "(drop_all ps m \<noteq> None \<longleftrightarrow>
      distinct (filter (\<lambda>p. p \<noteq> 0) ps) \<and> (\<forall>p \<in> set ps. p = 0 \<or> hm_contains (cm_blocks m) p)) \<and>
    (\<forall>m'. drop_all ps m = Some (Inr (), m') \<longrightarrow>
      (\<forall>q. hm_get (cm_blocks m') q = (if q \<in> set ps \<and> q \<noteq> 0 then None else hm_get (cm_blocks m) q))) \<and>
    (p \<noteq> 0 \<longrightarrow> drop_all [p, clone_pointer p] m = None) \<and>
    (\<forall>ptrs m'. array_into_vec elements width a m = Some (Inr ptrs, m') \<and> ptrs \<noteq> [] \<longrightarrow> drop_all ptrs m' = None)"
proof (intro conjI allI impI)
  show "drop_all ps m \<noteq> None \<longleftrightarrow>
      distinct (filter (\<lambda>p. p \<noteq> 0) ps) \<and> (\<forall>p \<in> set ps. p = 0 \<or> hm_contains (cm_blocks m) p)"
    by (auto simp: drop_all_run owned_def)
  show "hm_get (cm_blocks m') q = (if q \<in> set ps \<and> q \<noteq> 0 then None else hm_get (cm_blocks m) q)"
    if "drop_all ps m = Some (Inr (), m')" for m' q
    using that removed_get[of ps m q] by (simp add: drop_all_run split: if_splits)
  show "drop_all [p, clone_pointer p] m = None" if "p \<noteq> 0"
    using that unfolding drop_all_run by (simp add: owned_def clone_pointer_def)
  fix ptrs m'
  assume vec: "array_into_vec elements width a m = Some (Inr ptrs, m') \<and> ptrs \<noteq> []"
  then obtain m1 xs where slice: "array_as_slice elements a m = Some (Inr xs, m1)"
    and dropped: "drop_array a m1 = Some (Inr (), m')"
    and ptrs: "ptrs = map (\<lambda>i. ca_pointer a + i * width) [0..<length xs]"
    by (auto simp: array_into_vec_def seqp_def bindp_eq_Inr ret_def)
  from vec ptrs have some: "xs \<noteq> []" by auto
  with slice have p: "ca_pointer a \<noteq> 0" by (auto simp: array_as_slice_def ret_def split: if_splits)
  with dropped have "\<not> hm_contains (cm_blocks m') (ca_pointer a)"
    by (auto simp: drop_array_def drop_pointer_run contains_remove split: if_splits)
  moreover have "ca_pointer a \<in> set ptrs" using some by (auto simp: ptrs intro!: image_eqI[of _ _ 0])
  ultimately show "drop_all ptrs m' = None" using p by (auto simp: drop_all_run owned_def)
qed

definition two_blocks :: "unit com_memory" where
  "two_blocks = \<lparr>cm_blocks = [(8, Items [(), ()]), (16, Wide [0])], cm_draws = [24, 32]\<rparr>"

theorem owners_free_once_witness:
  "drop_all [8, 0, 16] two_blocks \<noteq> None \<and> drop_all [8, 16, 8] two_blocks = None
   \<and> (\<exists>ptrs m'. array_into_vec items_of 4 (array_from_ptr 8 2) two_blocks = Some (Inr ptrs, m') \<and> drop_all ptrs m' = None)"
proof -
  have ran: "\<exists>m'. array_into_vec items_of 4 (array_from_ptr 8 2) two_blocks = Some (Inr [8, 12], m')"
    by (simp add: array_into_vec_def array_as_slice_def array_from_ptr_def two_blocks_def bindp_def block_at_def
        hm_get_def ret_def seqp_def drop_array_def drop_pointer_run hm_contains_def upt_rec)
  have "drop_all [8, 0, 16] two_blocks \<noteq> None"
    unfolding owners_free_once[of "[8, 0, 16]" two_blocks, THEN conjunct1] by (simp add: two_blocks_def hm_contains_def)
  moreover have "\<not> drop_all [8, 16, 8] two_blocks \<noteq> None"
    unfolding owners_free_once[of "[8, 16, 8]" two_blocks, THEN conjunct1] by simp
  ultimately show ?thesis
    using ran owners_free_once[of "[]" two_blocks 0 items_of 4 "array_from_ptr 8 2"] by blast
qed

text \<open>
  C24. A string that is given to COM and read back is the same up to its first NUL, whatever
  characters it has (also those that take two UTF-16 units), and the memory is then as it was.
\<close>

theorem strings_return_up_to_nul:
  assumes "list_all is_scalar ns" and "pointer_of_str (utf8_text ns) m = Some (Inr p, m1)"
  shows "\<exists>m2. string_of_pointer win_error bad p m1 = Some (Inr (utf8_text (takeWhile (\<lambda>n. n \<noteq> 0) ns)), m2) \<and>
    (\<forall>q. hm_get (cm_blocks m2) q = hm_get (cm_blocks m) q) \<and> p \<noteq> 0 \<and> hm_get (cm_blocks m) p = None"
proof -
  from assms(2) obtain ps where draws: "dropWhile (hm_contains (cm_blocks m)) (cm_draws m) = p # ps"
    and m1: "p \<noteq> 0" "m1 = m\<lparr>cm_blocks := hm_insert p (Wide (to_wide (utf8_text ns))) (cm_blocks m), cm_draws := ps\<rparr>"
    by (auto simp: pointer_of_str_def copy_slice_def task_alloc_def bindp_def diverge_def ret_def
        split: list.splits if_splits)
  from draws have fresh: "hm_get (cm_blocks m) p = None"
    using dropWhile_eq_Cons_conv[of "hm_contains (cm_blocks m)" "cm_draws m" p ps] by (simp add: hm_get_None)
  let ?us = "to_wide (utf8_text ns)" and ?m2 = "m1\<lparr>cm_blocks := hm_remove p (cm_blocks m1)\<rparr>"
  have "string_of_pointer win_error bad p m1 =
      Some (case decode_utf16 (as_wide ?us) of Some s \<Rightarrow> Inr s | None \<Rightarrow> Inl bad, ?m2)"
    using m1 by (intro string_of_pointer_reads) (simp_all add: hm_get_insert to_wide_def)
  then have "string_of_pointer win_error bad p m1 = Some (Inr (utf8_text (takeWhile (\<lambda>n. n \<noteq> 0) ns)), ?m2)"
    by (simp add: decode_wide_text[OF assms(1)])
  moreover have "hm_get (cm_blocks ?m2) q = hm_get (cm_blocks m) q" for q
    using fresh by (simp add: m1 hm_get_remove hm_get_insert)
  ultimately show ?thesis using m1(1) fresh by blast
qed

theorem strings_return_up_to_nul_witness:
  "\<exists>p m1 m2. pointer_of_str (utf8_text [0x1F600, 0xB0, 0, 65]) two_blocks = Some (Inr p, m1)
     \<and> string_of_pointer (\<lambda>c. Com c []) (Internal []) p m1 = Some (Inr (utf8_text [0x1F600, 0xB0]), m2)"
proof -
  obtain m1 where run: "pointer_of_str (utf8_text [0x1F600, 0xB0, 0, 65]) two_blocks = Some (Inr 24, m1)"
    by (simp add: pointer_of_str_def copy_slice_def task_alloc_def two_blocks_def hm_contains_def bindp_def ret_def)
  have "list_all is_scalar [0x1F600, 0xB0, 0, 65]" by (simp add: is_scalar_def)
  from strings_return_up_to_nul[OF this run, of "\<lambda>c. Com c []" "Internal []"] run show ?thesis by fastforce
qed

text \<open>
  C28. A time from 1970 on is converted to a \<open>FILETIME\<close> and back up to the 100 ns that a
  \<open>FILETIME\<close> counts in, as long as its nanoseconds since 1601 fit 64 bits (until 2185). From
  then on the conversion back overflows: it panics in a build with overflow checks, and without
  them it yields an earlier time or an error.
\<close>

theorem filetimes_return_until_2185:
  assumes "0 \<le> t" and "nat t + EPOCH_DIFFERENCE < 100 * 2 ^ 64"
  shows "\<exists>ft. filetime_of_time t = Inr ft \<and>
    (nat t + EPOCH_DIFFERENCE < 2 ^ 64 \<longrightarrow> time_of_filetime checks ft s = Some (Inr (t - t mod 100), s)) \<and>
    (2 ^ 64 + 100 \<le> nat t + EPOCH_DIFFERENCE \<longrightarrow> time_of_filetime True ft s = None \<and>
      (\<forall>t' s'. time_of_filetime False ft s = Some (Inr t', s') \<longrightarrow> t' < t))"
proof -
  let ?N = "nat t + EPOCH_DIFFERENCE"
  let ?k = "?N div 100"
  let ?ft = "\<lparr>ft_high = of_nat (?k div 2 ^ 32), ft_low = of_nat ?k\<rparr> :: filetime"
  have k: "?k < 2 ^ 64" using assms(2) by (simp add: less_mult_imp_div_less)
  note conv = time_of_ticks[OF filetime_ticks_split[OF k]]
  have "?k = nat t div 100 + 116444736000000000" by (simp add: epoch_hundreds)
  then have hundreds: "?k * 100 = nat t div 100 * 100 + EPOCH_DIFFERENCE" by (simp add: epoch_hundreds)
  have "nat t mod 100 < 100" by simp
  with div_mult_mod_eq[of "nat t" 100] have rest: "nat t div 100 * 100 \<le> nat t" "nat t < nat t div 100 * 100 + 100"
    by linarith+
  have below: "?k * 100 \<le> ?N" and above: "EPOCH_DIFFERENCE \<le> ?k * 100" "?N < ?k * 100 + 100"
    using hundreds rest by linarith+
  have "time_of_filetime checks ?ft s = Some (Inr (t - t mod 100), s)" if "?N < 2 ^ 64"
  proof -
    have "?k * 100 = nat (t - t mod 100) + EPOCH_DIFFERENCE"
      using hundreds assms(1) by (simp add: nat_div_distrib minus_mod_eq_div_mult nat_mult_distrib)
    moreover have "0 \<le> t - t mod 100" using assms(1) by (simp add: minus_mod_eq_div_mult)
    ultimately show ?thesis unfolding conv using that below above by simp
  qed
  moreover have "time_of_filetime True ?ft s = None" if "2 ^ 64 + 100 \<le> ?N"
    unfolding conv using that above by simp
  moreover have "t' < t" if "2 ^ 64 + 100 \<le> ?N" "time_of_filetime False ?ft s = Some (Inr t', s')" for t' s'
  proof -
    have "?k * 100 mod 2 ^ 64 < ?k * 100" using that(1) above
      by (intro less_le_trans[OF mod_less_divisor]) simp_all
    with below have less: "?k * 100 mod 2 ^ 64 < ?N" by linarith
    from that(2)[unfolded conv] have t': "t' = int (?k * 100 mod 2 ^ 64 - EPOCH_DIFFERENCE)"
      "EPOCH_DIFFERENCE \<le> ?k * 100 mod 2 ^ 64"
      by (simp_all split: if_splits)
    from less t'(2) have "?k * 100 mod 2 ^ 64 - EPOCH_DIFFERENCE < nat t" by linarith
    then show ?thesis unfolding t'(1) using assms(1) by linarith
  qed
  ultimately show ?thesis using assms(1) by (intro exI[of _ ?ft]) (simp add: filetime_of_time_def Let_def)
qed

theorem filetimes_return_until_2185_witness:
  "\<exists>ft. filetime_of_time 1700000000123456789 = Inr ft
     \<and> time_of_filetime True ft () = Some (Inr 1700000000123456700, ())"
  using filetimes_return_until_2185[of 1700000000123456789 True "()"] by (simp add: EPOCH_DIFFERENCE_def)

end
