(* ===== verification/Typedefs.thy ===== *)
theory Typedefs
  imports ComMemory
begin

text \<open>
  The types of \<open>opc_da/typedefs.rs\<close> and their conversions to and from the structures of the COM
  interfaces. An enumeration of COM is its \<open>i32\<close>; the structures are records whose strings and
  blobs are addresses in the COM memory when the server fills them, and the lent buffers
  when the client does. The \<open>CLSCTX\<close> constants of the \<open>windows\<close> crate are a parameter, named by their
  identifiers.
\<close>

section \<open>Enumerations\<close>

definition unknown :: "string \<Rightarrow> string \<Rightarrow> u32 \<Rightarrow> opc_error + 'a" where
  "unknown what type_name code =
     Inl (Com E_INVALIDARG (''Unknown '' @ what @ '': '' @ type_name @ ''('' @ show_int (sint code) @ '')''))"

datatype server_state = Running | Failed | NoConfig | Suspended | Test | CommunicationFault

definition server_state_of_native :: "u32 \<Rightarrow> opc_error + server_state" where
  "server_state_of_native native =
     (if native = 1 then Inr Running
      else if native = 2 then Inr Failed
      else if native = 3 then Inr NoConfig
      else if native = 4 then Inr Suspended
      else if native = 5 then Inr Test
      else if native = 6 then Inr CommunicationFault
      else unknown ''server state'' ''tagOPCSERVERSTATE'' native)"

fun server_state_to_native :: "server_state \<Rightarrow> u32" where
  "server_state_to_native Running = 1"
| "server_state_to_native Failed = 2"
| "server_state_to_native NoConfig = 3"
| "server_state_to_native Suspended = 4"
| "server_state_to_native Test = 5"
| "server_state_to_native CommunicationFault = 6"

datatype enum_scope = PrivateConnections | PublicConnections | AllConnections | Public | Private | ScopeAll

definition enum_scope_of_native :: "u32 \<Rightarrow> opc_error + enum_scope" where
  "enum_scope_of_native native =
     (if native = 1 then Inr PrivateConnections
      else if native = 2 then Inr PublicConnections
      else if native = 3 then Inr AllConnections
      else if native = 5 then Inr Public
      else if native = 4 then Inr Private
      else if native = 6 then Inr ScopeAll
      else unknown ''enum scope'' ''tagOPCENUMSCOPE'' native)"

fun enum_scope_to_native :: "enum_scope \<Rightarrow> u32" where
  "enum_scope_to_native PrivateConnections = 1"
| "enum_scope_to_native PublicConnections = 2"
| "enum_scope_to_native AllConnections = 3"
| "enum_scope_to_native Public = 5"
| "enum_scope_to_native Private = 4"
| "enum_scope_to_native ScopeAll = 6"

datatype eu_type = NoEnum | Analog | Enumerated

definition eu_type_of_native :: "u32 \<Rightarrow> opc_error + eu_type" where
  "eu_type_of_native native =
     (if native = 0 then Inr NoEnum
      else if native = 1 then Inr Analog
      else if native = 2 then Inr Enumerated
      else unknown ''EU type'' ''tagOPCEUTYPE'' native)"

datatype data_source_target = ForceCache | ForceDevice | WithMaxAge u32

fun max_age :: "data_source_target \<Rightarrow> u32" where
  "max_age (WithMaxAge age) = age"
| "max_age ForceCache = - 1"
| "max_age ForceDevice = 0"

definition data_source_of_native :: "u32 \<Rightarrow> opc_error + data_source_target" where
  "data_source_of_native native =
     (if native = 1 then Inr ForceCache
      else if native = 2 then Inr ForceDevice
      else unknown ''data source'' ''tagOPCDATASOURCE'' native)"

fun data_source_to_native :: "data_source_target \<Rightarrow> opc_error + u32" where
  "data_source_to_native ForceCache = Inr 1"
| "data_source_to_native ForceDevice = Inr 2"
| "data_source_to_native (WithMaxAge _) = Inl (Com E_INVALIDARG ''MaxAge data source requires a value'')"

datatype browse_type = TypeBranch | TypeLeaf | TypeFlat

definition browse_type_of_native :: "u32 \<Rightarrow> opc_error + browse_type" where
  "browse_type_of_native native =
     (if native = 1 then Inr TypeBranch
      else if native = 2 then Inr TypeLeaf
      else if native = 3 then Inr TypeFlat
      else unknown ''browse type'' ''tagOPCBROWSETYPE'' native)"

fun browse_type_to_native :: "browse_type \<Rightarrow> u32" where
  "browse_type_to_native TypeBranch = 1"
| "browse_type_to_native TypeLeaf = 2"
| "browse_type_to_native TypeFlat = 3"

datatype element_filter = FilterAll | FilterBranches | FilterItems

definition element_filter_of_native :: "u32 \<Rightarrow> opc_error + element_filter" where
  "element_filter_of_native native =
     (if native = 1 then Inr FilterAll
      else if native = 2 then Inr FilterBranches
      else if native = 3 then Inr FilterItems
      else unknown ''browse filter'' ''tagOPCBROWSEFILTER'' native)"

fun element_filter_to_native :: "element_filter \<Rightarrow> u32" where
  "element_filter_to_native FilterAll = 1"
| "element_filter_to_native FilterBranches = 2"
| "element_filter_to_native FilterItems = 3"

datatype namespace_type = NamespaceFlat | NamespaceHierarchy

definition namespace_type_of_native :: "u32 \<Rightarrow> opc_error + namespace_type" where
  "namespace_type_of_native native =
     (if native = 1 then Inr NamespaceHierarchy
      else if native = 2 then Inr NamespaceFlat
      else unknown ''namespace type'' ''tagOPCNAMESPACETYPE'' native)"

fun namespace_type_to_native :: "namespace_type \<Rightarrow> u32" where
  "namespace_type_to_native NamespaceHierarchy = 1"
| "namespace_type_to_native NamespaceFlat = 2"

section \<open>What the server fills\<close>

text \<open>
  The conversions read a borrowed structure field by field and free the strings and blobs they
  read; they stop at the first field that cannot be converted. \<open>env\<close> holds what the operating
  system contributes.
\<close>

record conversion_env =
  ce_checks :: bool
  ce_win_error :: "u32 \<Rightarrow> opc_error"
  ce_invalid_utf16 :: opc_error

definition convert_string :: "conversion_env \<Rightarrow> nat \<Rightarrow> ('x, string) com_prog" where
  "convert_string env p = string_of_native (ce_win_error env) (ce_invalid_utf16 env) p"

record native_status =
  ns_start_time :: filetime
  ns_current_time :: filetime
  ns_last_update_time :: filetime
  ns_server_state :: u32
  ns_group_count :: u32
  ns_band_width :: u32
  ns_version :: "u16 \<times> u16 \<times> u16"
  ns_vendor_info :: nat

record server_status =
  st_start_time :: int
  st_current_time :: int
  st_last_update_time :: int
  st_server_state :: server_state
  st_group_count :: u32
  st_band_width :: u32
  st_version :: "u16 \<times> u16 \<times> u16"
  st_vendor_info :: string

definition server_status_of_native :: "conversion_env \<Rightarrow> native_status \<Rightarrow> ('x, server_status) com_prog" where
  "server_status_of_native env native =
     bindp (time_of_filetime (ce_checks env) (ns_start_time native)) (\<lambda>start_time.
     bindp (time_of_filetime (ce_checks env) (ns_current_time native)) (\<lambda>current_time.
     bindp (time_of_filetime (ce_checks env) (ns_last_update_time native)) (\<lambda>last_update_time.
     bindp (lift_result (server_state_of_native (ns_server_state native))) (\<lambda>state.
     bindp (convert_string env (ns_vendor_info native)) (\<lambda>vendor_info.
     ret \<lparr>st_start_time = start_time, st_current_time = current_time, st_last_update_time = last_update_time,
          st_server_state = state, st_group_count = ns_group_count native, st_band_width = ns_band_width native,
          st_version = ns_version native, st_vendor_info = vendor_info\<rparr>)))))"

text \<open>A blob is read into a vector, and its array dropped at the end of the conversion.\<close>

definition with_blob :: "nat \<Rightarrow> u32 \<Rightarrow> (8 word list \<Rightarrow> ('x, 'a) com_prog) \<Rightarrow> ('x, 'a) com_prog" where
  "with_blob p len rest =
     (let a = array_from_ptr p len
      in bindp (array_as_slice blob_of a) (\<lambda>blob.
         bindp (attempt (rest blob)) (\<lambda>r. seqp (drop_array a) (lift_result r))))"

record native_item_result =
  nr_server :: u32
  nr_data_type :: u16
  nr_access_rights :: u32
  nr_blob :: nat
  nr_blob_size :: u32

record item_result =
  ir_server_handle :: u32
  ir_data_type :: u16
  ir_access_rights :: u32
  ir_blob :: "8 word list"

definition item_result_of_native :: "native_item_result \<Rightarrow> ('x, item_result) com_prog" where
  "item_result_of_native native =
     with_blob (nr_blob native) (nr_blob_size native) (\<lambda>blob.
       ret \<lparr>ir_server_handle = nr_server native, ir_data_type = nr_data_type native,
            ir_access_rights = nr_access_rights native, ir_blob = blob\<rparr>)"

record native_attributes =
  na_access_path :: nat
  na_item_id :: nat
  na_active :: bool
  na_client :: u32
  na_server :: u32
  na_access_rights :: u32
  na_blob :: nat
  na_blob_size :: u32
  na_requested_data_type :: u16
  na_canonical_data_type :: u16
  na_eu_type :: u32
  na_eu_info :: variant

record item_attributes =
  ia_access_path :: string
  ia_item_id :: string
  ia_active :: bool
  ia_client_handle :: u32
  ia_server_handle :: u32
  ia_access_rights :: u32
  ia_blob :: "8 word list"
  ia_requested_data_type :: u16
  ia_canonical_data_type :: u16
  ia_eu_type :: eu_type
  ia_eu_info :: variant

definition item_attributes_of_native :: "conversion_env \<Rightarrow> native_attributes \<Rightarrow> ('x, item_attributes) com_prog" where
  "item_attributes_of_native env native =
     bindp (convert_string env (na_access_path native)) (\<lambda>access_path.
     bindp (convert_string env (na_item_id native)) (\<lambda>item_id.
     with_blob (na_blob native) (na_blob_size native) (\<lambda>blob.
     bindp (lift_result (eu_type_of_native (na_eu_type native))) (\<lambda>eu.
     ret \<lparr>ia_access_path = access_path, ia_item_id = item_id, ia_active = na_active native,
          ia_client_handle = na_client native, ia_server_handle = na_server native,
          ia_access_rights = na_access_rights native, ia_blob = blob,
          ia_requested_data_type = na_requested_data_type native,
          ia_canonical_data_type = na_canonical_data_type native, ia_eu_type = eu,
          ia_eu_info = na_eu_info native\<rparr>))))"

record native_item_state =
  ni_client :: u32
  ni_time :: filetime
  ni_quality :: u16
  ni_value :: variant

record typed_item_state =
  ts_client_handle :: u32
  ts_timestamp :: int
  ts_quality :: u16
  ts_data_value :: variant

definition item_state_of_native :: "conversion_env \<Rightarrow> native_item_state \<Rightarrow> ('x, typed_item_state) com_prog" where
  "item_state_of_native env native =
     bindp (time_of_filetime (ce_checks env) (ni_time native)) (\<lambda>timestamp.
     ret \<lparr>ts_client_handle = ni_client native, ts_timestamp = timestamp, ts_quality = ni_quality native,
          ts_data_value = ni_value native\<rparr>)"

text \<open>The four arrays of a read by item ID.\<close>

datatype call_element = VariantElement variant | WordElement u16 | TimeElement filetime | CodeElement u32

fun variants_of :: "call_element block \<Rightarrow> variant list option" where
  "variants_of (Items xs) = those (map (\<lambda>x. case x of VariantElement v \<Rightarrow> Some v | _ \<Rightarrow> None) xs)"
| "variants_of _ = None"

fun words_of :: "call_element block \<Rightarrow> u16 list option" where
  "words_of (Items xs) = those (map (\<lambda>x. case x of WordElement v \<Rightarrow> Some v | _ \<Rightarrow> None) xs)"
| "words_of _ = None"

fun times_of :: "call_element block \<Rightarrow> filetime list option" where
  "times_of (Items xs) = those (map (\<lambda>x. case x of TimeElement v \<Rightarrow> Some v | _ \<Rightarrow> None) xs)"
| "times_of _ = None"

fun codes_of :: "call_element block \<Rightarrow> u32 list option" where
  "codes_of (Items xs) = those (map (\<lambda>x. case x of CodeElement v \<Rightarrow> Some v | _ \<Rightarrow> None) xs)"
| "codes_of _ = None"

record item_value =
  iv_value :: variant
  iv_quality :: u16
  iv_timestamp :: int

definition item_values_of_native ::
  "conversion_env \<Rightarrow> com_array \<Rightarrow> com_array \<Rightarrow> com_array \<Rightarrow> com_array
     \<Rightarrow> (call_element, (opc_error + item_value) list) com_prog" where
  "item_values_of_native env vals qualities timestamps errors =
     (if array_len vals \<noteq> array_len qualities \<or> array_len vals \<noteq> array_len timestamps
         \<or> array_len vals \<noteq> array_len errors then
        throw (Com E_INVALIDARG ''Arrays have different lengths'')
      else
        bindp (array_as_slice variants_of vals) (\<lambda>vs.
        bindp (array_as_slice words_of qualities) (\<lambda>qs.
        bindp (array_as_slice times_of timestamps) (\<lambda>ts.
        bindp (array_as_slice codes_of errors) (\<lambda>es.
        for_each (zip (zip (zip vs qs) ts) es) (\<lambda>(((v, q), t), e).
          if hresult_is_ok e then
            attempt (bindp (time_of_filetime (ce_checks env) t) (\<lambda>time.
              ret \<lparr>iv_value = v, iv_quality = q, iv_timestamp = time\<rparr>))
          else ret (Inl (ce_win_error env e))))))))"

section \<open>What the client lends\<close>

record item_partial_value =
  pv_value :: variant
  pv_quality :: "u16 option"
  pv_timestamp :: "int option"

record native_vqt =
  nv_value :: variant
  nv_quality_specified :: bool
  nv_quality :: u16
  nv_timestamp_specified :: bool
  nv_timestamp :: filetime

definition vqt_to_native :: "item_partial_value \<Rightarrow> opc_error + native_vqt" where
  "vqt_to_native pv =
     (case (case pv_timestamp pv of
              None \<Rightarrow> Inr \<lparr>ft_high = 0, ft_low = 0\<rparr>
            | Some t \<Rightarrow> filetime_of_time t) of
        Inl e \<Rightarrow> Inl e
      | Inr ft \<Rightarrow>
          Inr \<lparr>nv_value = pv_value pv, nv_quality_specified = (pv_quality pv \<noteq> None),
               nv_quality = (case pv_quality pv of Some q \<Rightarrow> q | None \<Rightarrow> 0),
               nv_timestamp_specified = (pv_timestamp pv \<noteq> None), nv_timestamp = ft\<rparr>)"

record item_definition =
  df_access_path :: string
  df_item_id :: string
  df_active :: bool
  df_client_handle :: u32
  df_data_type :: u16
  df_blob :: "8 word list"

record item_def_bridge =
  db_access_path :: "u16 list local_pointer"
  db_item_id :: "u16 list local_pointer"
  db_active :: bool
  db_client_handle :: u32
  db_data_type :: u16
  db_blob :: "8 word list local_pointer"

definition item_def_bridge :: "item_definition \<Rightarrow> item_def_bridge" where
  "item_def_bridge d =
     \<lparr>db_access_path = local_wide (df_access_path d), db_item_id = local_wide (df_item_id d),
      db_active = df_active d, db_client_handle = df_client_handle d, db_data_type = df_data_type d,
      db_blob = Some (df_blob d)\<rparr>"

text \<open>A length as a \<open>u32\<close>, or an error.\<close>

definition u32_or :: "string \<Rightarrow> nat \<Rightarrow> opc_error + u32" where
  "u32_or message n = (if n < 2 ^ 32 then Inr (of_nat n) else Inl (Com E_INVALIDARG message))"

record native_item_def =
  nd_access_path :: "u16 list option"
  nd_item_id :: "u16 list option"
  nd_active :: bool
  nd_client :: u32
  nd_data_type :: u16
  nd_blob_size :: u32
  nd_blob :: "8 word list option"

definition item_def_to_native :: "item_def_bridge \<Rightarrow> opc_error + native_item_def" where
  "item_def_to_native b =
     (case u32_or ''Blob size exceeds u32 maximum value'' (local_len (db_blob b)) of
        Inl e \<Rightarrow> Inl e
      | Inr blob_size \<Rightarrow>
          Inr \<lparr>nd_access_path = as_pwstr (db_access_path b), nd_item_id = as_pwstr (db_item_id b),
               nd_active = db_active b, nd_client = db_client_handle b, nd_data_type = db_data_type b,
               nd_blob_size = blob_size, nd_blob = db_blob b\<rparr>)"

record auth_identity =
  au_user :: string
  au_domain :: string
  au_password :: string
  au_flags :: u32

record native_identity =
  ai_user :: "u16 list option"
  ai_user_length :: u32
  ai_domain :: "u16 list option"
  ai_domain_length :: u32
  ai_password :: "u16 list option"
  ai_password_length :: u32
  ai_flags :: u32

text \<open>The bridge holds the strings with their terminating zeros; the lengths count these too.\<close>

definition identity_to_native :: "auth_identity \<Rightarrow> opc_error + native_identity" where
  "identity_to_native a =
     (let user = local_wide (au_user a); domain = local_wide (au_domain a); password = local_wide (au_password a)
      in case u32_or ''User name exceeds u32 maximum length'' (local_len user) of
           Inl e \<Rightarrow> Inl e
         | Inr user_length \<Rightarrow>
             (case u32_or ''Domain name exceeds u32 maximum length'' (local_len domain) of
                Inl e \<Rightarrow> Inl e
              | Inr domain_length \<Rightarrow>
                  (case u32_or ''Password exceeds u32 maximum length'' (local_len password) of
                     Inl e \<Rightarrow> Inl e
                   | Inr password_length \<Rightarrow>
                       Inr \<lparr>ai_user = as_pwstr user, ai_user_length = user_length, ai_domain = as_pwstr domain,
                            ai_domain_length = domain_length, ai_password = as_pwstr password,
                            ai_password_length = password_length, ai_flags = au_flags a\<rparr>)))"

text \<open>
  The authentication data of a remote server. The structure that \<open>try_to_native\<close> returns points to
  a temporary of the conversion, which is dropped when it returns.
\<close>

datatype 'a lent = Lent 'a | Dangling

record auth_info =
  af_authn_svc :: u32
  af_authz_svc :: u32
  af_server_principal_name :: string
  af_authn_level :: u32
  af_impersonation_level :: u32
  af_identity :: auth_identity
  af_capabilities :: u32

record native_auth_info =
  nf_authn_svc :: u32
  nf_authz_svc :: u32
  nf_server_principal_name :: "u16 list option"
  nf_authn_level :: u32
  nf_impersonation_level :: u32
  nf_identity :: "native_identity lent"
  nf_capabilities :: u32

definition auth_info_to_native :: "auth_info \<Rightarrow> opc_error + native_auth_info" where
  "auth_info_to_native a =
     (case identity_to_native (af_identity a) of
        Inl e \<Rightarrow> Inl e
      | Inr _ \<Rightarrow>
          Inr \<lparr>nf_authn_svc = af_authn_svc a, nf_authz_svc = af_authz_svc a,
               nf_server_principal_name = as_pwstr (local_wide (af_server_principal_name a)),
               nf_authn_level = af_authn_level a, nf_impersonation_level = af_impersonation_level a,
               nf_identity = Dangling, nf_capabilities = af_capabilities a\<rparr>)"

record server_info =
  sf_name :: string
  sf_auth_info :: auth_info

record native_server_info =
  nsi_name :: "u16 list option"
  nsi_auth_info :: "native_auth_info lent"

definition server_info_to_native :: "server_info \<Rightarrow> opc_error + native_server_info" where
  "server_info_to_native s =
     (case auth_info_to_native (sf_auth_info s) of
        Inl e \<Rightarrow> Inl e
      | Inr _ \<Rightarrow> Inr \<lparr>nsi_name = as_pwstr (local_wide (sf_name s)), nsi_auth_info = Dangling\<rparr>)"

datatype class_context =
    CtxAll | InProcServer | InProcHandler | LocalServer | InProcServer16 | RemoteServer | InProcHandler16
  | NoCodeDownload | NoCustomMarshal | EnableCodeDownload | NoFailureLog | DisableAAA | EnableAAA
  | FromDefaultContext | ActivateX86Server | Activate32BitServer | Activate64BitServer | EnableCloaking
  | AppContainer | ActivateAAAAsIU | ActivateARM32Server | AllowLowerTrustRegistration | PsDll

fun class_context_to_native :: "(string \<Rightarrow> u32) \<Rightarrow> class_context \<Rightarrow> u32" where
  "class_context_to_native clsctx CtxAll = clsctx ''CLSCTX_ALL''"
| "class_context_to_native clsctx InProcServer = clsctx ''CLSCTX_INPROC_SERVER''"
| "class_context_to_native clsctx InProcHandler = clsctx ''CLSCTX_INPROC_HANDLER''"
| "class_context_to_native clsctx LocalServer = clsctx ''CLSCTX_LOCAL_SERVER''"
| "class_context_to_native clsctx InProcServer16 = clsctx ''CLSCTX_INPROC_SERVER16''"
| "class_context_to_native clsctx RemoteServer = clsctx ''CLSCTX_REMOTE_SERVER''"
| "class_context_to_native clsctx InProcHandler16 = clsctx ''CLSCTX_INPROC_HANDLER16''"
| "class_context_to_native clsctx NoCodeDownload = clsctx ''CLSCTX_NO_CODE_DOWNLOAD''"
| "class_context_to_native clsctx NoCustomMarshal = clsctx ''CLSCTX_NO_CUSTOM_MARSHAL''"
| "class_context_to_native clsctx EnableCodeDownload = clsctx ''CLSCTX_ENABLE_CODE_DOWNLOAD''"
| "class_context_to_native clsctx NoFailureLog = clsctx ''CLSCTX_NO_FAILURE_LOG''"
| "class_context_to_native clsctx DisableAAA = clsctx ''CLSCTX_DISABLE_AAA''"
| "class_context_to_native clsctx EnableAAA = clsctx ''CLSCTX_ENABLE_AAA''"
| "class_context_to_native clsctx FromDefaultContext = clsctx ''CLSCTX_FROM_DEFAULT_CONTEXT''"
| "class_context_to_native clsctx ActivateX86Server = clsctx ''CLSCTX_ACTIVATE_X86_SERVER''"
| "class_context_to_native clsctx Activate32BitServer = clsctx ''CLSCTX_ACTIVATE_32_BIT_SERVER''"
| "class_context_to_native clsctx Activate64BitServer = clsctx ''CLSCTX_ACTIVATE_64_BIT_SERVER''"
| "class_context_to_native clsctx EnableCloaking = clsctx ''CLSCTX_ENABLE_CLOAKING''"
| "class_context_to_native clsctx AppContainer = clsctx ''CLSCTX_APPCONTAINER''"
| "class_context_to_native clsctx ActivateAAAAsIU = clsctx ''CLSCTX_ACTIVATE_AAA_AS_IU''"
| "class_context_to_native clsctx ActivateARM32Server = clsctx ''CLSCTX_ACTIVATE_ARM32_SERVER''"
| "class_context_to_native clsctx AllowLowerTrustRegistration = clsctx ''CLSCTX_ALLOW_LOWER_TRUST_REGISTRATION''"
| "class_context_to_native clsctx PsDll = clsctx ''CLSCTX_PS_DLL''"

section \<open>Conversions consume what they read\<close>

lemma unknown_fails [simp]: "unknown what n code \<noteq> Inr x"
  by (simp add: unknown_def)

lemma time_of_filetime_frame: "time_of_filetime checks ft m = Some (r, m') \<Longrightarrow> m' = m"
  by (auto simp: time_of_filetime_def Let_def diverge_def throw_def ret_def split: if_splits)

lemma string_of_null: "string_of_pointer win_error bad 0 m = Some (Inl (win_error E_POINTER), m)"
  by (simp add: string_of_pointer_def throw_def)

lemma string_needs_its_block:
  "p \<noteq> 0 \<Longrightarrow> \<not> hm_contains (cm_blocks m) p \<Longrightarrow> string_of_pointer win_error bad p m = None"
  by (simp add: string_of_pointer_def pwstr_to_string_def bindp_def attempt_def block_at_def contains_get)

text \<open>A status that converts has freed its vendor text.\<close>

lemma status_frees:
  assumes "server_status_of_native env native m = Some (Inr st, m')"
  shows "ns_vendor_info native \<noteq> 0 \<and> hm_contains (cm_blocks m) (ns_vendor_info native) \<and>
    m' = m\<lparr>cm_blocks := hm_remove (ns_vendor_info native) (cm_blocks m)\<rparr>"
proof -
  from assms obtain a m1 b m2 c m3 v where
    times: "time_of_filetime (ce_checks env) (ns_start_time native) m = Some (Inr a, m1)"
      "time_of_filetime (ce_checks env) (ns_current_time native) m1 = Some (Inr b, m2)"
      "time_of_filetime (ce_checks env) (ns_last_update_time native) m2 = Some (Inr c, m3)"
    and vendor: "string_of_pointer (ce_win_error env) (ce_invalid_utf16 env) (ns_vendor_info native) m3 = Some (Inr v, m')"
    by (auto simp: server_status_of_native_def bindp_eq_Inr ret_def lift_result_def convert_string_def
        string_of_native_def)
  from times have same: "m3 = m" by (auto dest: time_of_filetime_frame)
  from vendor have "ns_vendor_info native \<noteq> 0"
    using string_of_null[of "ce_win_error env" "ce_invalid_utf16 env" m3] by (cases "ns_vendor_info native = 0") auto
  with string_of_pointer_frees[OF vendor] same show ?thesis by blast
qed

lemma status_again:
  fixes m m2 :: "'x com_memory"
  assumes "server_status_of_native env native m = Some (Inr st, m')"
    and "\<not> hm_contains (cm_blocks m2) (ns_vendor_info native)"
  shows "server_status_of_native env native m2 = None"
proof -
  from assms obtain a m1 b m3 c m4 state v where
    times: "time_of_filetime (ce_checks env) (ns_start_time native) m = Some (Inr a, m1)"
      "time_of_filetime (ce_checks env) (ns_current_time native) m1 = Some (Inr b, m3)"
      "time_of_filetime (ce_checks env) (ns_last_update_time native) m3 = Some (Inr c, m4)"
    and state: "server_state_of_native (ns_server_state native) = Inr state"
    by (auto simp: server_status_of_native_def bindp_eq_Inr ret_def lift_result_def)
  have elsewhere: "time_of_filetime ch ft s2 = Some (Inr x, s2)" if "time_of_filetime ch ft s = Some (Inr x, s')"
    for ch ft x and s s' s2 :: "'x com_memory"
    using that by (auto simp: time_of_filetime_def Let_def diverge_def throw_def ret_def split: if_splits)
  have "string_of_pointer (ce_win_error env) (ce_invalid_utf16 env) (ns_vendor_info native) m2 = None"
    using status_frees[OF assms(1)] assms(2) by (intro string_needs_its_block) auto
  with elsewhere[OF times(1)] elsewhere[OF times(2)] elsewhere[OF times(3)] state show ?thesis
    by (simp add: server_status_of_native_def bindp_def lift_result_def convert_string_def string_of_native_def)
qed

lemma blob_frees:
  assumes "with_blob p len rest m = Some (r, m')" and "p \<noteq> 0" and "\<And>b s q t. rest b s = Some (q, t) \<Longrightarrow> t = s"
  shows "hm_contains (cm_blocks m) p \<and> m' = m\<lparr>cm_blocks := hm_remove p (cm_blocks m)\<rparr>"
proof -
  from assms(1) obtain b m1 q m2 where slice: "array_as_slice blob_of (array_from_ptr p len) m = Some (Inr b, m1)"
    and rest: "rest b m1 = Some (q, m2)" and "seqp (drop_array (array_from_ptr p len)) (lift_result q) m2 = Some (r, m')"
    using assms(2)
    by (auto simp: with_blob_def Let_def bindp_def attempt_def array_as_slice_def array_from_ptr_def ret_def diverge_def
        block_at_def split: option.splits sum.splits if_splits)
  moreover from slice have "m1 = m"
    by (auto simp: array_as_slice_def bindp_def block_at_def ret_def diverge_def split: option.splits if_splits)
  moreover from rest have "m2 = m1" by (rule assms(3))
  ultimately show ?thesis using assms(2)
    by (auto simp: seqp_def bindp_def drop_array_def array_from_ptr_def drop_pointer_run lift_result_def split: if_splits)
qed

section \<open>Codes\<close>

lemma server_state_codes: "server_state_of_native c = Inr st \<longleftrightarrow> server_state_to_native st = c"
  by (cases st) (auto simp: server_state_of_native_def)

lemma enum_scope_codes: "enum_scope_of_native c = Inr sc \<longleftrightarrow> enum_scope_to_native sc = c"
  by (cases sc) (auto simp: enum_scope_of_native_def)

lemma browse_type_codes: "browse_type_of_native c = Inr bt \<longleftrightarrow> browse_type_to_native bt = c"
  by (cases bt) (auto simp: browse_type_of_native_def)

lemma element_filter_codes: "element_filter_of_native c = Inr ef \<longleftrightarrow> element_filter_to_native ef = c"
  by (cases ef) (auto simp: element_filter_of_native_def)

lemma namespace_type_codes: "namespace_type_of_native c = Inr nt \<longleftrightarrow> namespace_type_to_native nt = c"
  by (cases nt) (auto simp: namespace_type_of_native_def)

lemma data_source_codes: "data_source_of_native c = Inr ds \<longleftrightarrow> data_source_to_native ds = Inr c"
  by (cases ds) (auto simp: data_source_of_native_def)

lemmas code_round_trips = server_state_codes enum_scope_codes browse_type_codes element_filter_codes namespace_type_codes data_source_codes

section \<open>Properties\<close>

text \<open>
  The enumerations round trip: a code is converted to exactly the value that converts to it,
  for all six enumerations and the two data sources; every other code is an error.
\<close>

theorem enumerations_round_trip:
  "(server_state_of_native c = Inr st \<longleftrightarrow> server_state_to_native st = c) \<and>
   (enum_scope_of_native c = Inr sc \<longleftrightarrow> enum_scope_to_native sc = c) \<and>
   (browse_type_of_native c = Inr bt \<longleftrightarrow> browse_type_to_native bt = c) \<and>
   (element_filter_of_native c = Inr ef \<longleftrightarrow> element_filter_to_native ef = c) \<and>
   (namespace_type_of_native c = Inr nt \<longleftrightarrow> namespace_type_to_native nt = c) \<and>
   (data_source_of_native c = Inr ds \<longleftrightarrow> data_source_to_native ds = Inr c)"
  by (intro conjI code_round_trips)

text \<open>
  C25. Converting a borrowed structure frees what it points to: after a server status or an item
  result was converted, its vendor text or blob is gone, and converting the same
  structure again is undefined. A status whose state is unknown is refused before its vendor
  text is reached: the text stays allocated.
\<close>

theorem conversions_consume_borrowed_memory:
  fixes m m' :: "'x com_memory"
  shows "(server_status_of_native env status m = Some (Inr st, m') \<longrightarrow>
      hm_get (cm_blocks m') (ns_vendor_info status) = None \<and> server_status_of_native env status m' = None) \<and>
    (item_result_of_native result m = Some (Inr ir, m') \<and> nr_blob result \<noteq> 0 \<longrightarrow>
      hm_get (cm_blocks m') (nr_blob result) = None \<and> item_result_of_native result m' = None) \<and>
    (server_state_of_native (ns_server_state status) = Inl error \<and>
      server_status_of_native env status m = Some (r, m') \<longrightarrow> m' = m \<and> (\<exists>e. r = Inl e))"
proof (intro conjI impI)
  assume ran: "server_status_of_native env status m = Some (Inr st, m')"
  then have gone: "\<not> hm_contains (cm_blocks m') (ns_vendor_info status)"
    using status_frees[OF ran] by (simp add: contains_remove)
  then show "hm_get (cm_blocks m') (ns_vendor_info status) = None" by (simp add: hm_get_None)
  from ran gone show "server_status_of_native env status m' = None" by (rule status_again)
next
  assume ran: "item_result_of_native result m = Some (Inr ir, m') \<and> nr_blob result \<noteq> 0"
  let ?rest = "\<lambda>blob. ret \<lparr>ir_server_handle = nr_server result, ir_data_type = nr_data_type result,
      ir_access_rights = nr_access_rights result, ir_blob = blob\<rparr> :: ('x, item_result) com_prog"
  from ran have run: "with_blob (nr_blob result) (nr_blob_size result) ?rest m = Some (Inr ir, m')" and p: "nr_blob result \<noteq> 0"
    by (simp_all add: item_result_of_native_def)
  have "hm_contains (cm_blocks m) (nr_blob result) \<and> m' = m\<lparr>cm_blocks := hm_remove (nr_blob result) (cm_blocks m)\<rparr>"
    by (rule blob_frees[OF run p]) (simp add: ret_def)
  then have gone: "\<not> hm_contains (cm_blocks m') (nr_blob result)" by (auto simp: contains_remove)
  then show "hm_get (cm_blocks m') (nr_blob result) = None" by (simp add: hm_get_None)
  show "item_result_of_native result m' = None"
  proof (rule ccontr)
    assume "item_result_of_native result m' \<noteq> None"
    then obtain q t where "with_blob (nr_blob result) (nr_blob_size result) ?rest m' = Some (q, t)"
      by (auto simp: item_result_of_native_def)
    from blob_frees[OF this p] gone show False by (simp add: ret_def)
  qed
next
  assume "server_state_of_native (ns_server_state status) = Inl error \<and> server_status_of_native env status m = Some (r, m')"
  then show "m' = m" and "\<exists>e. r = Inl e"
    by (auto simp: server_status_of_native_def bindp_def lift_result_def dest!: time_of_filetime_frame
        split: option.splits sum.splits)
qed

definition quiet_conversion :: conversion_env where
  "quiet_conversion = \<lparr>ce_checks = True, ce_win_error = (\<lambda>c. Com c []), ce_invalid_utf16 = Com 0x80070459 []\<rparr>"

text \<open>A status of 2020 with the vendor text at 16.\<close>

definition rack_status :: native_status where
  "rack_status =
     (let ft = \<lparr>ft_high = 30790000, ft_low = 0\<rparr>
      in \<lparr>ns_start_time = ft, ns_current_time = ft, ns_last_update_time = ft, ns_server_state = 1, ns_group_count = 0,
          ns_band_width = 0, ns_version = (1, 0, 0), ns_vendor_info = 16\<rparr>)"

lemma rack_status_converts:
  "\<exists>st m'. server_status_of_native quiet_conversion rack_status two_blocks = Some (Inr st, m')"
proof -
  let ?ft = "\<lparr>ft_high = 30790000, ft_low = 0\<rparr> :: filetime"
  have k: "unat (filetime_ticks ?ft) = 30790000 * 2 ^ 32" by (simp add: unat_filetime_ticks)
  have time: "time_of_filetime True ?ft s = Some (Inr (int (30790000 * 2 ^ 32 * 100 - EPOCH_DIFFERENCE)), s)"
    for s :: "unit com_memory"
    by (simp add: time_of_ticks[OF k] EPOCH_DIFFERENCE_def)
  show ?thesis
    by (simp add: time server_status_of_native_def quiet_conversion_def rack_status_def Let_def bindp_def lift_result_def
        server_state_of_native_def convert_string_def string_of_native_def string_of_pointer_def pwstr_to_string_def
        attempt_def block_at_def two_blocks_def hm_get_def hm_contains_def as_wide_def seqp_def drop_pointer_run ret_def)
qed

theorem conversions_consume_borrowed_memory_witness:
  "\<exists>st m'. server_status_of_native quiet_conversion rack_status two_blocks = Some (Inr st, m')
     \<and> server_status_of_native quiet_conversion rack_status m' = None"
proof -
  obtain st m' where "server_status_of_native quiet_conversion rack_status two_blocks = Some (Inr st, m')"
    using rack_status_converts by blast
  with conversions_consume_borrowed_memory[of quiet_conversion rack_status two_blocks st m'] show ?thesis by blast
qed

text \<open>
  The lengths of the user, domain and password that are handed to \<open>CoCreateInstanceEx\<close> count
  the terminating zero, and its pointers to the authentication data are dangling.
\<close>

lemma identity_lengths_count_the_zero:
  assumes "identity_to_native a = Inr n"
  shows "unat (ai_user_length n) = length (encode_utf16 (au_user a)) + 1 \<and>
    unat (ai_domain_length n) = length (encode_utf16 (au_domain a)) + 1 \<and>
    unat (ai_password_length n) = length (encode_utf16 (au_password a)) + 1"
  using assms
  by (auto simp: identity_to_native_def Let_def u32_or_def local_len_def local_wide_def to_wide_def unat_of_nat
      split: if_splits simp del: of_nat_add of_nat_Suc)

lemma server_info_dangles: "server_info_to_native s = Inr n \<Longrightarrow> nsi_auth_info n = Dangling"
  by (auto simp: server_info_to_native_def split: sum.splits)

end
