(* ===== verification/Versions.thy ===== *)
theory Versions
  imports Typedefs
begin

text \<open>
  The clients, servers and groups of the versions of OPC DA (\<open>opc_da/client/v1\<close>, \<open>v2\<close>, \<open>v3\<close>,
  \<open>client/traits/client.rs\<close>), and the server and group of the facade (\<open>backend/connector.rs\<close>).

  A COM object answers a cast to an interface with the interface or with the error of
  \<open>QueryInterface\<close>; a \<open>windows::core::Error\<close> is its code and text. A trait is named by the interface it
  works on: \<open>x_interface s t\<close> is what \<open>interface()\<close> of the trait \<open>t\<close> returns for \<open>s\<close>, and \<open>None\<close> when
  the type does not implement the trait.
\<close>

datatype iid =
    IOPCServer | IOPCCommon | IConnectionPointContainer | IOPCItemProperties | IOPCServerPublicGroups
  | IOPCBrowseServerAddressSpace | IOPCBrowse | IOPCItemIO | IOPCItemMgt | IOPCGroupStateMgt
  | IOPCGroupStateMgt2 | IOPCPublicGroupStateMgt | IOPCSyncIO | IOPCSyncIO2 | IOPCAsyncIO
  | IOPCAsyncIO2 | IOPCAsyncIO3 | IOPCItemSamplingMgt | IOPCItemDeadbandMgt | IDataObject

type_synonym 'i com_object = "iid \<Rightarrow> opc_error + 'i"

text \<open>\<open>?\<close> and \<open>.ok()\<close>.\<close>

definition and_then :: "'e + 'a \<Rightarrow> ('a \<Rightarrow> 'e + 'b) \<Rightarrow> 'e + 'b" where
  "and_then r k = (case r of Inl e \<Rightarrow> Inl e | Inr x \<Rightarrow> k x)"

definition or_none :: "'e + 'a \<Rightarrow> 'a option" where
  "or_none r = (case r of Inl _ \<Rightarrow> None | Inr x \<Rightarrow> Some x)"

definition supported :: "string \<Rightarrow> 'i option \<Rightarrow> opc_error + 'i" where
  "supported name i = (case i of Some x \<Rightarrow> Inr x | None \<Rightarrow> Inl (NotImplemented (name @ '' not supported'')))"

section \<open>OPC DA 1.0\<close>

record 'i server_v1 =
  sv1_server :: 'i
  sv1_public_groups :: "'i option"
  sv1_address_space :: "'i option"

definition server_v1_of :: "'i com_object \<Rightarrow> opc_error + 'i server_v1" where
  "server_v1_of obj =
     and_then (obj IOPCServer) (\<lambda>server.
     Inr \<lparr>sv1_server = server, sv1_public_groups = or_none (obj IOPCServerPublicGroups),
          sv1_address_space = or_none (obj IOPCBrowseServerAddressSpace)\<rparr>)"

fun server_v1_interface :: "'i server_v1 \<Rightarrow> iid \<Rightarrow> (opc_error + 'i) option" where
  "server_v1_interface s IOPCServer = Some (Inr (sv1_server s))"
| "server_v1_interface s IOPCServerPublicGroups = Some (supported ''IOPCServerPublicGroups'' (sv1_public_groups s))"
| "server_v1_interface s IOPCBrowseServerAddressSpace =
     Some (supported ''IOPCBrowseServerAddressSpace'' (sv1_address_space s))"
| "server_v1_interface s _ = None"

record 'i group_v1 =
  gv1_item_mgt :: 'i
  gv1_group_state_mgt :: 'i
  gv1_public_group_state_mgt :: "'i option"
  gv1_sync_io :: 'i
  gv1_async_io :: 'i
  gv1_data_object :: 'i

definition group_v1_of :: "'i com_object \<Rightarrow> opc_error + 'i group_v1" where
  "group_v1_of obj =
     and_then (obj IOPCItemMgt) (\<lambda>item_mgt.
     and_then (obj IOPCGroupStateMgt) (\<lambda>group_state_mgt.
     let public_group_state_mgt = or_none (obj IOPCPublicGroupStateMgt) in
     and_then (obj IOPCSyncIO) (\<lambda>sync_io.
     and_then (obj IOPCAsyncIO) (\<lambda>async_io.
     and_then (obj IDataObject) (\<lambda>data_object.
     Inr \<lparr>gv1_item_mgt = item_mgt, gv1_group_state_mgt = group_state_mgt,
          gv1_public_group_state_mgt = public_group_state_mgt, gv1_sync_io = sync_io,
          gv1_async_io = async_io, gv1_data_object = data_object\<rparr>)))))"

fun group_v1_interface :: "'i group_v1 \<Rightarrow> iid \<Rightarrow> (opc_error + 'i) option" where
  "group_v1_interface g IOPCItemMgt = Some (Inr (gv1_item_mgt g))"
| "group_v1_interface g IOPCGroupStateMgt = Some (Inr (gv1_group_state_mgt g))"
| "group_v1_interface g IOPCPublicGroupStateMgt =
     Some (supported ''IOPCPublicGroupStateMgt'' (gv1_public_group_state_mgt g))"
| "group_v1_interface g IOPCSyncIO = Some (Inr (gv1_sync_io g))"
| "group_v1_interface g IOPCAsyncIO = Some (Inr (gv1_async_io g))"
| "group_v1_interface g IDataObject = Some (Inr (gv1_data_object g))"
| "group_v1_interface g _ = None"

section \<open>OPC DA 2.0\<close>

record 'i server_v2 =
  sv2_server :: 'i
  sv2_common :: 'i
  sv2_connection_point_container :: 'i
  sv2_item_properties :: 'i
  sv2_public_groups :: "'i option"
  sv2_address_space :: "'i option"

definition server_v2_of :: "'i com_object \<Rightarrow> opc_error + 'i server_v2" where
  "server_v2_of obj =
     and_then (obj IOPCServer) (\<lambda>server.
     and_then (obj IOPCCommon) (\<lambda>common.
     and_then (obj IConnectionPointContainer) (\<lambda>connection_point_container.
     and_then (obj IOPCItemProperties) (\<lambda>item_properties.
     Inr \<lparr>sv2_server = server, sv2_common = common,
          sv2_connection_point_container = connection_point_container, sv2_item_properties = item_properties,
          sv2_public_groups = or_none (obj IOPCServerPublicGroups),
          sv2_address_space = or_none (obj IOPCBrowseServerAddressSpace)\<rparr>))))"

fun server_v2_interface :: "'i server_v2 \<Rightarrow> iid \<Rightarrow> (opc_error + 'i) option" where
  "server_v2_interface s IOPCServer = Some (Inr (sv2_server s))"
| "server_v2_interface s IOPCCommon = Some (Inr (sv2_common s))"
| "server_v2_interface s IConnectionPointContainer = Some (Inr (sv2_connection_point_container s))"
| "server_v2_interface s IOPCItemProperties = Some (Inr (sv2_item_properties s))"
| "server_v2_interface s IOPCServerPublicGroups = Some (supported ''IOPCServerPublicGroups'' (sv2_public_groups s))"
| "server_v2_interface s IOPCBrowseServerAddressSpace =
     Some (supported ''IOPCBrowseServerAddressSpace'' (sv2_address_space s))"
| "server_v2_interface s _ = None"

record 'i group_v2 =
  gv2_item_mgt :: 'i
  gv2_group_state_mgt :: 'i
  gv2_public_group_state_mgt :: "'i option"
  gv2_sync_io :: 'i
  gv2_async_io :: "'i option"
  gv2_async_io2 :: 'i
  gv2_connection_point_container :: 'i
  gv2_data_object :: "'i option"

definition group_v2_of :: "'i com_object \<Rightarrow> opc_error + 'i group_v2" where
  "group_v2_of obj =
     and_then (obj IOPCItemMgt) (\<lambda>item_mgt.
     and_then (obj IOPCGroupStateMgt) (\<lambda>group_state_mgt.
     let public_group_state_mgt = or_none (obj IOPCPublicGroupStateMgt) in
     and_then (obj IOPCSyncIO) (\<lambda>sync_io.
     let async_io = or_none (obj IOPCAsyncIO) in
     and_then (obj IOPCAsyncIO2) (\<lambda>async_io2.
     and_then (obj IConnectionPointContainer) (\<lambda>connection_point_container.
     Inr \<lparr>gv2_item_mgt = item_mgt, gv2_group_state_mgt = group_state_mgt,
          gv2_public_group_state_mgt = public_group_state_mgt, gv2_sync_io = sync_io,
          gv2_async_io = async_io, gv2_async_io2 = async_io2,
          gv2_connection_point_container = connection_point_container,
          gv2_data_object = or_none (obj IDataObject)\<rparr>)))))"

fun group_v2_interface :: "'i group_v2 \<Rightarrow> iid \<Rightarrow> (opc_error + 'i) option" where
  "group_v2_interface g IOPCItemMgt = Some (Inr (gv2_item_mgt g))"
| "group_v2_interface g IOPCGroupStateMgt = Some (Inr (gv2_group_state_mgt g))"
| "group_v2_interface g IOPCPublicGroupStateMgt =
     Some (supported ''IOPCPublicGroupStateMgt'' (gv2_public_group_state_mgt g))"
| "group_v2_interface g IOPCSyncIO = Some (Inr (gv2_sync_io g))"
| "group_v2_interface g IOPCAsyncIO = Some (supported ''IOPCAsyncIO'' (gv2_async_io g))"
| "group_v2_interface g IOPCAsyncIO2 = Some (Inr (gv2_async_io2 g))"
| "group_v2_interface g IConnectionPointContainer = Some (Inr (gv2_connection_point_container g))"
| "group_v2_interface g IDataObject = Some (supported ''IDataObject'' (gv2_data_object g))"
| "group_v2_interface g _ = None"

section \<open>OPC DA 3.0\<close>

record 'i server_v3 =
  sv3_server :: 'i
  sv3_common :: 'i
  sv3_connection_point_container :: 'i
  sv3_browse :: 'i
  sv3_item_io :: 'i

definition server_v3_of :: "'i com_object \<Rightarrow> opc_error + 'i server_v3" where
  "server_v3_of obj =
     and_then (obj IOPCServer) (\<lambda>server.
     and_then (obj IOPCCommon) (\<lambda>common.
     and_then (obj IConnectionPointContainer) (\<lambda>connection_point_container.
     and_then (obj IOPCBrowse) (\<lambda>browse.
     and_then (obj IOPCItemIO) (\<lambda>item_io.
     Inr \<lparr>sv3_server = server, sv3_common = common,
          sv3_connection_point_container = connection_point_container, sv3_browse = browse, sv3_item_io = item_io\<rparr>)))))"

fun server_v3_interface :: "'i server_v3 \<Rightarrow> iid \<Rightarrow> (opc_error + 'i) option" where
  "server_v3_interface s IOPCServer = Some (Inr (sv3_server s))"
| "server_v3_interface s IOPCCommon = Some (Inr (sv3_common s))"
| "server_v3_interface s IConnectionPointContainer = Some (Inr (sv3_connection_point_container s))"
| "server_v3_interface s IOPCBrowse = Some (Inr (sv3_browse s))"
| "server_v3_interface s IOPCItemIO = Some (Inr (sv3_item_io s))"
| "server_v3_interface s _ = None"

record 'i group_v3 =
  gv3_item_mgt :: 'i
  gv3_group_state_mgt :: 'i
  gv3_group_state_mgt2 :: 'i
  gv3_sync_io :: 'i
  gv3_sync_io2 :: 'i
  gv3_async_io2 :: 'i
  gv3_async_io3 :: 'i
  gv3_item_sampling_mgt :: "'i option"
  gv3_item_deadband_mgt :: 'i
  gv3_connection_point_container :: 'i

definition group_v3_of :: "'i com_object \<Rightarrow> opc_error + 'i group_v3" where
  "group_v3_of obj =
     and_then (obj IOPCItemMgt) (\<lambda>item_mgt.
     and_then (obj IOPCGroupStateMgt) (\<lambda>group_state_mgt.
     and_then (obj IOPCGroupStateMgt2) (\<lambda>group_state_mgt2.
     and_then (obj IOPCSyncIO) (\<lambda>sync_io.
     and_then (obj IOPCSyncIO2) (\<lambda>sync_io2.
     and_then (obj IOPCAsyncIO2) (\<lambda>async_io2.
     and_then (obj IOPCAsyncIO3) (\<lambda>async_io3.
     and_then (obj IOPCItemDeadbandMgt) (\<lambda>item_deadband_mgt.
     let item_sampling_mgt = or_none (obj IOPCItemSamplingMgt) in
     and_then (obj IConnectionPointContainer) (\<lambda>connection_point_container.
     Inr \<lparr>gv3_item_mgt = item_mgt, gv3_group_state_mgt = group_state_mgt,
          gv3_group_state_mgt2 = group_state_mgt2, gv3_sync_io = sync_io, gv3_sync_io2 = sync_io2,
          gv3_async_io2 = async_io2, gv3_async_io3 = async_io3, gv3_item_sampling_mgt = item_sampling_mgt,
          gv3_item_deadband_mgt = item_deadband_mgt,
          gv3_connection_point_container = connection_point_container\<rparr>)))))))))"

fun group_v3_interface :: "'i group_v3 \<Rightarrow> iid \<Rightarrow> (opc_error + 'i) option" where
  "group_v3_interface g IOPCItemMgt = Some (Inr (gv3_item_mgt g))"
| "group_v3_interface g IOPCGroupStateMgt = Some (Inr (gv3_group_state_mgt g))"
| "group_v3_interface g IOPCGroupStateMgt2 = Some (Inr (gv3_group_state_mgt2 g))"
| "group_v3_interface g IOPCSyncIO = Some (Inr (gv3_sync_io g))"
| "group_v3_interface g IOPCSyncIO2 = Some (Inr (gv3_sync_io2 g))"
| "group_v3_interface g IOPCAsyncIO2 = Some (Inr (gv3_async_io2 g))"
| "group_v3_interface g IOPCAsyncIO3 = Some (Inr (gv3_async_io3 g))"
| "group_v3_interface g IOPCItemSamplingMgt = Some (supported ''IOPCItemSamplingMgt'' (gv3_item_sampling_mgt g))"
| "group_v3_interface g IOPCItemDeadbandMgt = Some (Inr (gv3_item_deadband_mgt g))"
| "group_v3_interface g IConnectionPointContainer = Some (Inr (gv3_connection_point_container g))"
| "group_v3_interface g _ = None"

section \<open>The server and the group of the facade\<close>

text \<open>
  \<open>connect\<close> casts the server object it got; the server itself it keeps (\<open>server\<close>). The group has
  the interfaces of a group of OPC DA 2.0.
\<close>

record 'i com_facade =
  cf_server :: 'i
  cf_common :: 'i
  cf_connection_point_container :: 'i
  cf_item_properties :: 'i
  cf_public_groups :: "'i option"
  cf_address_space :: "'i option"
  cf_browse :: "'i option"

definition com_facade_of :: "'i \<Rightarrow> 'i com_object \<Rightarrow> opc_error + 'i com_facade" where
  "com_facade_of server obj =
     and_then (obj IOPCCommon) (\<lambda>common.
     and_then (obj IConnectionPointContainer) (\<lambda>connection_point_container.
     and_then (obj IOPCItemProperties) (\<lambda>item_properties.
     Inr \<lparr>cf_server = server, cf_common = common, cf_connection_point_container = connection_point_container,
          cf_item_properties = item_properties, cf_public_groups = or_none (obj IOPCServerPublicGroups),
          cf_address_space = or_none (obj IOPCBrowseServerAddressSpace),
          cf_browse = or_none (obj IOPCBrowse)\<rparr>)))"

fun com_facade_interface :: "'i com_facade \<Rightarrow> iid \<Rightarrow> (opc_error + 'i) option" where
  "com_facade_interface s IOPCServer = Some (Inr (cf_server s))"
| "com_facade_interface s IOPCCommon = Some (Inr (cf_common s))"
| "com_facade_interface s IConnectionPointContainer = Some (Inr (cf_connection_point_container s))"
| "com_facade_interface s IOPCItemProperties = Some (Inr (cf_item_properties s))"
| "com_facade_interface s IOPCServerPublicGroups = Some (supported ''IOPCServerPublicGroups'' (cf_public_groups s))"
| "com_facade_interface s IOPCBrowseServerAddressSpace =
     Some (supported ''IOPCBrowseServerAddressSpace'' (cf_address_space s))"
| "com_facade_interface s IOPCBrowse = Some (supported ''IOPCBrowse'' (cf_browse s))"
| "com_facade_interface s _ = None"

text \<open>\<open>ComGroup\<close> has the fields, casts and traits of the group of OPC DA 2.0.\<close>

type_synonym 'i com_group = "'i group_v2"

definition com_group_of :: "'i com_object \<Rightarrow> opc_error + 'i com_group" where
  "com_group_of obj = group_v2_of obj"

definition com_group_interface :: "'i com_group \<Rightarrow> iid \<Rightarrow> (opc_error + 'i) option" where
  "com_group_interface g t = group_v2_interface g t"

section \<open>Creating servers\<close>

text \<open>
  The calls of the operating system. An instance \<open>'o\<close> is cast to \<open>IUnknown\<close>, which answers the
  casts of the object; \<open>CoCreateInstanceEx\<close> yields the result and the interface of its only query.
\<close>

record ('w, 'g, 'o, 'i, 'e) com_system =
  sy_CLSIDFromProgID :: "string \<Rightarrow> ('w, opc_error, 'g) prog"
  sy_CoCreateInstance :: "'g \<Rightarrow> u32 \<Rightarrow> ('w, opc_error, 'o) prog"
  sy_CoCreateInstanceEx :: "'g \<Rightarrow> u32 \<Rightarrow> native_server_info option \<Rightarrow> ('w, opc_error, u32 \<times> 'o option) prog"
  sy_EnumClassesOfCategories :: "'o \<Rightarrow> 'g list \<Rightarrow> 'g list \<Rightarrow> ('w, opc_error, 'e) prog"
  sy_unknown :: "'o \<Rightarrow> opc_error + 'i com_object"
  sy_win_error :: "u32 \<Rightarrow> opc_error"
  sy_clsctx :: "string \<Rightarrow> u32"

fun enumeration_error :: "opc_error \<Rightarrow> opc_error" where
  "enumeration_error (Com code _) = Com code ''Failed to enumerate server classes''"
| "enumeration_error e = e"

definition get_servers :: "('w, 'g, 'o, 'i, 'e) com_system \<Rightarrow> 'g \<Rightarrow> ('w, opc_error, 'e) prog" where
  "get_servers sy catalog_id =
     bindp (sy_CLSIDFromProgID sy ''OPC.ServerList.1'') (\<lambda>id.
     bindp (sy_CoCreateInstance sy id (sy_clsctx sy ''CLSCTX_ALL'')) (\<lambda>servers.
     map_errp enumeration_error (sy_EnumClassesOfCategories sy servers [catalog_id] [catalog_id])))"

definition create_server ::
  "('w, 'g, 'o, 'i, 'e) com_system \<Rightarrow> ('i com_object \<Rightarrow> opc_error + 's) \<Rightarrow> 'g \<Rightarrow> class_context
     \<Rightarrow> ('w, opc_error, 's) prog" where
  "create_server sy try_into class_id context =
     bindp (sy_CoCreateInstance sy class_id (class_context_to_native (sy_clsctx sy) context)) (\<lambda>server.
     lift_result (and_then (sy_unknown sy server) try_into))"

definition create_server2 ::
  "('w, 'g, 'o, 'i, 'e) com_system \<Rightarrow> ('i com_object \<Rightarrow> opc_error + 's) \<Rightarrow> 'g \<Rightarrow> class_context \<Rightarrow> server_info option
     \<Rightarrow> ('w, opc_error, 's) prog" where
  "create_server2 sy try_into class_id context info =
     bindp (lift_result (case info of
              Some i \<Rightarrow> and_then (server_info_to_native i) (\<lambda>n. Inr (Some n))
            | None \<Rightarrow> Inr None)) (\<lambda>native.
     bindp (sy_CoCreateInstanceEx sy class_id (class_context_to_native (sy_clsctx sy) context) native) (\<lambda>(hr, itf).
     if \<not> hresult_is_ok hr then throw (sy_win_error sy hr)
     else case itf of
            Some i \<Rightarrow> lift_result (and_then (sy_unknown sy i) try_into)
          | None \<Rightarrow> throw (sy_win_error sy E_POINTER)))"

section \<open>What a version asks of an object\<close>

fun iid_name :: "iid \<Rightarrow> string" where
  "iid_name IOPCServer = ''IOPCServer''"
| "iid_name IOPCCommon = ''IOPCCommon''"
| "iid_name IConnectionPointContainer = ''IConnectionPointContainer''"
| "iid_name IOPCItemProperties = ''IOPCItemProperties''"
| "iid_name IOPCServerPublicGroups = ''IOPCServerPublicGroups''"
| "iid_name IOPCBrowseServerAddressSpace = ''IOPCBrowseServerAddressSpace''"
| "iid_name IOPCBrowse = ''IOPCBrowse''"
| "iid_name IOPCItemIO = ''IOPCItemIO''"
| "iid_name IOPCItemMgt = ''IOPCItemMgt''"
| "iid_name IOPCGroupStateMgt = ''IOPCGroupStateMgt''"
| "iid_name IOPCGroupStateMgt2 = ''IOPCGroupStateMgt2''"
| "iid_name IOPCPublicGroupStateMgt = ''IOPCPublicGroupStateMgt''"
| "iid_name IOPCSyncIO = ''IOPCSyncIO''"
| "iid_name IOPCSyncIO2 = ''IOPCSyncIO2''"
| "iid_name IOPCAsyncIO = ''IOPCAsyncIO''"
| "iid_name IOPCAsyncIO2 = ''IOPCAsyncIO2''"
| "iid_name IOPCAsyncIO3 = ''IOPCAsyncIO3''"
| "iid_name IOPCItemSamplingMgt = ''IOPCItemSamplingMgt''"
| "iid_name IOPCItemDeadbandMgt = ''IOPCItemDeadbandMgt''"
| "iid_name IDataObject = ''IDataObject''"

fun first_refusal :: "'i com_object \<Rightarrow> iid list \<Rightarrow> opc_error option" where
  "first_refusal obj [] = None"
| "first_refusal obj (t # ts) = (case obj t of Inl e \<Rightarrow> Some e | Inr _ \<Rightarrow> first_refusal obj ts)"

text \<open>
  The specification of a wrapper: the interfaces it requires, in the order of the casts, and those it may
  lack.
\<close>

definition wraps ::
  "('i com_object \<Rightarrow> opc_error + 's) \<Rightarrow> ('s \<Rightarrow> iid \<Rightarrow> (opc_error + 'i) option) \<Rightarrow> iid list \<Rightarrow> iid list \<Rightarrow> bool" where
  "wraps from_object itf required optional \<longleftrightarrow> (\<forall>obj.
     case first_refusal obj required of
       Some e \<Rightarrow> from_object obj = Inl e
     | None \<Rightarrow> (\<exists>s. from_object obj = Inr s \<and> (\<forall>t. itf s t =
         (if t \<in> set required then Some (obj t)
          else if t \<in> set optional then
            Some (case obj t of Inr i \<Rightarrow> Inr i | Inl _ \<Rightarrow> Inl (NotImplemented (iid_name t @ '' not supported'')))
          else None))))"

lemma all_iids: "(\<forall>t. P t) \<longleftrightarrow> list_all P
   [IOPCServer, IOPCCommon, IConnectionPointContainer, IOPCItemProperties, IOPCServerPublicGroups,
    IOPCBrowseServerAddressSpace, IOPCBrowse, IOPCItemIO, IOPCItemMgt, IOPCGroupStateMgt, IOPCGroupStateMgt2,
    IOPCPublicGroupStateMgt, IOPCSyncIO, IOPCSyncIO2, IOPCAsyncIO, IOPCAsyncIO2, IOPCAsyncIO3,
    IOPCItemSamplingMgt, IOPCItemDeadbandMgt, IDataObject]" (is "_ \<longleftrightarrow> list_all P ?all")
proof
  assume all: "list_all P ?all"
  show "\<forall>t. P t"
  proof
    fix t
    show "P t" using all by (cases t) simp_all
  qed
qed (simp add: list_all_iff)

lemma wrapsI:
  assumes "\<And>obj e. first_refusal obj required = Some e \<Longrightarrow> from_object obj = Inl e"
    and "\<And>obj. first_refusal obj required = None \<Longrightarrow> \<exists>s. from_object obj = Inr s \<and> (\<forall>t. itf s t =
         (if t \<in> set required then Some (obj t)
          else if t \<in> set optional then
            Some (case obj t of Inr i \<Rightarrow> Inr i | Inl _ \<Rightarrow> Inl (NotImplemented (iid_name t @ '' not supported'')))
          else None))"
  shows "wraps from_object itf required optional"
  unfolding wraps_def
proof
  fix obj
  show "case first_refusal obj required of
       Some e \<Rightarrow> from_object obj = Inl e
     | None \<Rightarrow> (\<exists>s. from_object obj = Inr s \<and> (\<forall>t. itf s t =
         (if t \<in> set required then Some (obj t)
          else if t \<in> set optional then
            Some (case obj t of Inr i \<Rightarrow> Inr i | Inl _ \<Rightarrow> Inl (NotImplemented (iid_name t @ '' not supported'')))
          else None)))"
    using assms[of obj] by (cases "first_refusal obj required") simp_all
qed

named_theorems wrapper_defs \<open>the wrappers of objects and their optional interfaces\<close>

declare server_v1_of_def [wrapper_defs] server_v2_of_def [wrapper_defs] server_v3_of_def [wrapper_defs]
  group_v1_of_def [wrapper_defs] group_v2_of_def [wrapper_defs] group_v3_of_def [wrapper_defs]
  com_facade_of_def [wrapper_defs] and_then_def [wrapper_defs] or_none_def [wrapper_defs]
  supported_def [wrapper_defs] Let_def [wrapper_defs]

text \<open>
  C26. The servers and groups of the three versions, and those of the facade, are determined by the
  interfaces they require and those they may lack: an object is accepted exactly when it has all it must
  have, and otherwise refused with the error of the first cast that fails; of what is accepted every trait
  works on the interface of the object, and a trait whose interface the object lacks reports that it is not
  supported. The facade also requires \<open>IOPCItemProperties\<close>, so that an object with everything OPC DA 3.0
  asks for can be refused.
\<close>

theorem wrappers_follow_their_object:
  "wraps server_v1_of server_v1_interface [IOPCServer] [IOPCServerPublicGroups, IOPCBrowseServerAddressSpace] \<and>
   wraps server_v2_of server_v2_interface [IOPCServer, IOPCCommon, IConnectionPointContainer, IOPCItemProperties]
     [IOPCServerPublicGroups, IOPCBrowseServerAddressSpace] \<and>
   wraps server_v3_of server_v3_interface [IOPCServer, IOPCCommon, IConnectionPointContainer, IOPCBrowse, IOPCItemIO] [] \<and>
   wraps group_v1_of group_v1_interface [IOPCItemMgt, IOPCGroupStateMgt, IOPCSyncIO, IOPCAsyncIO, IDataObject]
     [IOPCPublicGroupStateMgt] \<and>
   wraps group_v2_of group_v2_interface
     [IOPCItemMgt, IOPCGroupStateMgt, IOPCSyncIO, IOPCAsyncIO2, IConnectionPointContainer]
     [IOPCPublicGroupStateMgt, IOPCAsyncIO, IDataObject] \<and>
   wraps group_v3_of group_v3_interface
     [IOPCItemMgt, IOPCGroupStateMgt, IOPCGroupStateMgt2, IOPCSyncIO, IOPCSyncIO2, IOPCAsyncIO2, IOPCAsyncIO3,
      IOPCItemDeadbandMgt, IConnectionPointContainer] [IOPCItemSamplingMgt] \<and>
   wraps (\<lambda>obj. and_then (obj IOPCServer) (\<lambda>server. com_facade_of server obj)) com_facade_interface
     [IOPCServer, IOPCCommon, IConnectionPointContainer, IOPCItemProperties]
     [IOPCServerPublicGroups, IOPCBrowseServerAddressSpace, IOPCBrowse] \<and>
   (\<exists>obj :: unit com_object. (\<exists>s. server_v3_of obj = Inr s) \<and> (\<exists>e. \<forall>server. com_facade_of server obj = Inl e))"
proof (intro conjI)
  show "wraps server_v1_of server_v1_interface [IOPCServer] [IOPCServerPublicGroups, IOPCBrowseServerAddressSpace]"
    by (rule wrapsI) (auto simp: all_iids wrapper_defs split: sum.splits)
  show "wraps server_v2_of server_v2_interface [IOPCServer, IOPCCommon, IConnectionPointContainer, IOPCItemProperties]
     [IOPCServerPublicGroups, IOPCBrowseServerAddressSpace]"
    by (rule wrapsI) (auto simp: all_iids wrapper_defs split: sum.splits)
  show "wraps server_v3_of server_v3_interface
     [IOPCServer, IOPCCommon, IConnectionPointContainer, IOPCBrowse, IOPCItemIO] []"
    by (rule wrapsI) (auto simp: all_iids wrapper_defs split: sum.splits)
  show "wraps group_v1_of group_v1_interface [IOPCItemMgt, IOPCGroupStateMgt, IOPCSyncIO, IOPCAsyncIO, IDataObject]
     [IOPCPublicGroupStateMgt]"
    by (rule wrapsI) (auto simp: all_iids wrapper_defs split: sum.splits)
  show "wraps group_v2_of group_v2_interface
     [IOPCItemMgt, IOPCGroupStateMgt, IOPCSyncIO, IOPCAsyncIO2, IConnectionPointContainer]
     [IOPCPublicGroupStateMgt, IOPCAsyncIO, IDataObject]"
    by (rule wrapsI) (auto simp: all_iids wrapper_defs split: sum.splits)
  show "wraps group_v3_of group_v3_interface
     [IOPCItemMgt, IOPCGroupStateMgt, IOPCGroupStateMgt2, IOPCSyncIO, IOPCSyncIO2, IOPCAsyncIO2, IOPCAsyncIO3,
      IOPCItemDeadbandMgt, IConnectionPointContainer] [IOPCItemSamplingMgt]"
    by (rule wrapsI) (auto simp: all_iids wrapper_defs split: sum.splits)
  show "wraps (\<lambda>obj. and_then (obj IOPCServer) (\<lambda>server. com_facade_of server obj)) com_facade_interface
     [IOPCServer, IOPCCommon, IConnectionPointContainer, IOPCItemProperties]
     [IOPCServerPublicGroups, IOPCBrowseServerAddressSpace, IOPCBrowse]"
    by (rule wrapsI) (auto simp: all_iids wrapper_defs split: sum.splits)
  let ?obj = "\<lambda>t. if t = IOPCItemProperties then Inl (Com 0x80004002 []) else Inr ()"
  have "\<exists>s. server_v3_of ?obj = Inr s" and "\<forall>server. com_facade_of server ?obj = Inl (Com 0x80004002 [])"
    by (simp_all add: wrapper_defs)
  then show "\<exists>obj :: unit com_object. (\<exists>s. server_v3_of obj = Inr s) \<and> (\<exists>e. \<forall>server. com_facade_of server obj = Inl e)"
    by blast
qed

end
