(* ===== verification/Wrappers.thy ===== *)
theory Wrappers
  imports ReadWrite Typedefs
begin

text \<open>
  The calls of the COM interfaces of a server and its groups: \<open>opc_da/client/traits/*.rs\<close>. The
  interfaces are foreign, records of methods on a world \<open>'w\<close>; every method of a trait takes
  \<open>interface()\<close>, which is an error when the object does not have the interface. What the
  methods of the traits add is modelled: the checks of the arguments, the lengths, the slices that
  the server reads, the strings lent to it and the memory it hands over.

  The server reads as many elements of a slice as the length it is given says. Reading past the
  end is undefined behaviour: the program does not return. A method that fails leaves its out
  pointers null, as the rules of COM demand. Where two traits have a method of the same name, the
  name of the trait comes first.
\<close>

type_synonym ('w, 'a) com_call = "('w, opc_error, 'a) prog"

definition slice_read :: "u32 \<Rightarrow> 'a list \<Rightarrow> ('w, 'a list) com_call" where
  "slice_read n xs = (if unat n \<le> length xs then ret (take (unat n) xs) else diverge)"

section \<open>Items of a group\<close>

record 'w item_mgt_interface =
  im_ValidateItems :: "native_item_def list \<Rightarrow> bool \<Rightarrow> ('w, nat \<times> nat) com_call"
  im_RemoveItems :: "u32 list \<Rightarrow> ('w, nat) com_call"
  im_SetActiveState :: "u32 list \<Rightarrow> bool \<Rightarrow> ('w, nat) com_call"
  im_SetClientHandles :: "u32 list \<Rightarrow> u32 list \<Rightarrow> ('w, nat) com_call"
  im_SetDatatypes :: "u32 list \<Rightarrow> u16 list \<Rightarrow> ('w, nat) com_call"

definition validate_items ::
  "opc_error + 'w item_mgt_interface \<Rightarrow> native_item_def list \<Rightarrow> bool \<Rightarrow> ('w, com_array \<times> com_array) com_call" where
  "validate_items itf items blob_update =
     (if items = [] then throw (InvalidState ''items cannot be empty'')
      else bindp (lift_result (u32_len items)) (\<lambda>n.
           bindp (lift_result itf) (\<lambda>i.
           bindp (slice_read n items) (\<lambda>xs.
           bindp (im_ValidateItems i xs blob_update) (\<lambda>(results, errors).
           ret (array_from_ptr results n, array_from_ptr errors n))))))"

definition remove_items ::
  "opc_error + 'w item_mgt_interface \<Rightarrow> u32 list \<Rightarrow> ('w, com_array) com_call" where
  "remove_items itf server_handles =
     (if server_handles = [] then throw (InvalidState ''server_handles cannot be empty'')
      else bindp (lift_result (u32_len server_handles)) (\<lambda>n.
           bindp (lift_result itf) (\<lambda>i.
           bindp (slice_read n server_handles) (\<lambda>hs.
           bindp (im_RemoveItems i hs) (\<lambda>errors.
           ret (array_from_ptr errors n))))))"

definition set_active_state ::
  "opc_error + 'w item_mgt_interface \<Rightarrow> u32 list \<Rightarrow> bool \<Rightarrow> ('w, com_array) com_call" where
  "set_active_state itf server_handles active =
     (if server_handles = [] then throw (InvalidState ''server_handles cannot be empty'')
      else bindp (lift_result (u32_len server_handles)) (\<lambda>n.
           bindp (lift_result itf) (\<lambda>i.
           bindp (slice_read n server_handles) (\<lambda>hs.
           bindp (im_SetActiveState i hs active) (\<lambda>errors.
           ret (array_from_ptr errors n))))))"

definition set_client_handles ::
  "opc_error + 'w item_mgt_interface \<Rightarrow> u32 list \<Rightarrow> u32 list \<Rightarrow> ('w, com_array) com_call" where
  "set_client_handles itf server_handles client_handles =
     (if length server_handles \<noteq> length client_handles then
        throw (InvalidState ''server_handles and client_handles must have the same length'')
      else if server_handles = [] then throw (InvalidState ''server_handles cannot be empty'')
      else bindp (lift_result (u32_len server_handles)) (\<lambda>n.
           bindp (lift_result itf) (\<lambda>i.
           bindp (slice_read n server_handles) (\<lambda>hs.
           bindp (slice_read n client_handles) (\<lambda>cs.
           bindp (im_SetClientHandles i hs cs) (\<lambda>errors.
           ret (array_from_ptr errors n)))))))"

definition set_datatypes ::
  "opc_error + 'w item_mgt_interface \<Rightarrow> u32 list \<Rightarrow> u16 list \<Rightarrow> ('w, com_array) com_call" where
  "set_datatypes itf server_handles requested_datatypes =
     (if length server_handles \<noteq> length requested_datatypes then
        throw (InvalidState ''server_handles and requested_datatypes must have the same length'')
      else if server_handles = [] then throw (InvalidState ''server_handles cannot be empty'')
      else bindp (lift_result (u32_len server_handles)) (\<lambda>n.
           bindp (lift_result itf) (\<lambda>i.
           bindp (slice_read n server_handles) (\<lambda>hs.
           bindp (slice_read n requested_datatypes) (\<lambda>ds.
           bindp (im_SetDatatypes i hs ds) (\<lambda>errors.
           ret (array_from_ptr errors n)))))))"

section \<open>Synchronous reads and writes with ages and times\<close>

text \<open>The four arrays of a read: values, qualities, timestamps and errors.\<close>

type_synonym four_arrays = "com_array \<times> com_array \<times> com_array \<times> com_array"

definition four_arrays :: "u32 \<Rightarrow> nat \<times> nat \<times> nat \<times> nat \<Rightarrow> four_arrays" where
  "four_arrays n ps = (case ps of (v, q, t, e) \<Rightarrow>
     (array_from_ptr v n, array_from_ptr q n, array_from_ptr t n, array_from_ptr e n))"

record 'w sync_io2_interface =
  s2_ReadMaxAge :: "u32 list \<Rightarrow> u32 list \<Rightarrow> ('w, nat \<times> nat \<times> nat \<times> nat) com_call"
  s2_WriteVQT :: "u32 list \<Rightarrow> native_vqt list \<Rightarrow> ('w, nat) com_call"

definition sync_io2_read_max_age ::
  "opc_error + 'w sync_io2_interface \<Rightarrow> u32 list \<Rightarrow> u32 list \<Rightarrow> ('w, four_arrays) com_call" where
  "sync_io2_read_max_age itf server_handles ages =
     (if length server_handles \<noteq> length ages then
        throw (InvalidState ''server_handles and max_age must have the same length'')
      else if server_handles = [] then throw (InvalidState ''server_handles cannot be empty'')
      else bindp (lift_result (u32_len server_handles)) (\<lambda>n.
           bindp (lift_result itf) (\<lambda>i.
           bindp (slice_read n server_handles) (\<lambda>hs.
           bindp (slice_read n ages) (\<lambda>as.
           bindp (s2_ReadMaxAge i hs as) (\<lambda>ps.
           ret (four_arrays n ps)))))))"

definition sync_io2_write_vqt ::
  "opc_error + 'w sync_io2_interface \<Rightarrow> u32 list \<Rightarrow> native_vqt list \<Rightarrow> ('w, com_array) com_call" where
  "sync_io2_write_vqt itf server_handles vals =
     (if length server_handles \<noteq> length vals then
        throw (InvalidState ''server_handles and values must have the same length'')
      else if server_handles = [] then throw (InvalidState ''server_handles cannot be empty'')
      else bindp (lift_result (u32_len server_handles)) (\<lambda>n.
           bindp (lift_result itf) (\<lambda>i.
           bindp (slice_read n server_handles) (\<lambda>hs.
           bindp (slice_read n vals) (\<lambda>vs.
           bindp (s2_WriteVQT i hs vs) (\<lambda>errors.
           ret (array_from_ptr errors n)))))))"

text \<open>Reads and writes by item ID; the IDs are lent as strings.\<close>

record 'w item_io_interface =
  io_Read :: "u16 list option list \<Rightarrow> u32 list \<Rightarrow> ('w, nat \<times> nat \<times> nat \<times> nat) com_call"
  io_WriteVQT :: "u16 list option list \<Rightarrow> native_vqt list \<Rightarrow> ('w, nat) com_call"

definition bad_slices :: opc_error where
  "bad_slices = InvalidState ''Invalid arguments - arrays must be non-empty and have same length''"

definition item_io_read ::
  "opc_error + 'w item_io_interface \<Rightarrow> string list \<Rightarrow> u32 list \<Rightarrow> ('w, four_arrays) com_call" where
  "item_io_read itf item_ids ages =
     (if item_ids = [] \<or> ages = [] \<or> length item_ids \<noteq> length ages then throw bad_slices
      else let item_ptrs = as_pwstr_array (local_wides item_ids)
           in bindp (lift_result (u32_len item_ids)) (\<lambda>n.
              bindp (lift_result itf) (\<lambda>i.
              bindp (slice_read (of_nat (length item_ids)) item_ptrs) (\<lambda>ids.
              bindp (slice_read (of_nat (length item_ids)) ages) (\<lambda>as.
              bindp (io_Read i ids as) (\<lambda>ps.
              ret (four_arrays n ps)))))))"

definition item_io_write_vqt ::
  "opc_error + 'w item_io_interface \<Rightarrow> string list \<Rightarrow> native_vqt list \<Rightarrow> ('w, com_array) com_call" where
  "item_io_write_vqt itf item_ids item_vqts =
     (if item_ids = [] \<or> item_vqts = [] \<or> length item_ids \<noteq> length item_vqts then throw bad_slices
      else bindp (lift_result (u32_len item_ids)) (\<lambda>n.
           let item_ptrs = as_pwstr_array (local_wides item_ids)
           in bindp (lift_result itf) (\<lambda>i.
              bindp (slice_read n item_ptrs) (\<lambda>ids.
              bindp (slice_read n item_vqts) (\<lambda>vs.
              bindp (io_WriteVQT i ids vs) (\<lambda>errors.
              ret (array_from_ptr errors n)))))))"

section \<open>Asynchronous calls\<close>

record 'w async_io_interface =
  a1_Read :: "u32 \<Rightarrow> u32 \<Rightarrow> u32 list \<Rightarrow> ('w, u32 \<times> nat) com_call"
  a1_Write :: "u32 \<Rightarrow> u32 list \<Rightarrow> variant list \<Rightarrow> ('w, u32 \<times> nat) com_call"
  a1_Refresh :: "u32 \<Rightarrow> u32 \<Rightarrow> ('w, u32) com_call"
  a1_Cancel :: "u32 \<Rightarrow> ('w, unit) com_call"

definition async_io_read ::
  "opc_error + 'w async_io_interface \<Rightarrow> u32 \<Rightarrow> u32 \<Rightarrow> u32 list \<Rightarrow> ('w, u32 \<times> com_array) com_call" where
  "async_io_read itf connection source server_handles =
     (if server_handles = [] then throw (InvalidState ''server_handles cannot be empty'')
      else bindp (lift_result (u32_len server_handles)) (\<lambda>n.
           bindp (lift_result itf) (\<lambda>i.
           bindp (slice_read n server_handles) (\<lambda>hs.
           bindp (a1_Read i connection source hs) (\<lambda>(transaction_id, errors).
           ret (transaction_id, array_from_ptr errors n))))))"

definition async_io_write ::
  "opc_error + 'w async_io_interface \<Rightarrow> u32 \<Rightarrow> u32 list \<Rightarrow> variant list \<Rightarrow> ('w, u32 \<times> com_array) com_call" where
  "async_io_write itf connection server_handles vals =
     (if length server_handles \<noteq> length vals then
        throw (InvalidState ''server_handles and values must have the same length'')
      else if server_handles = [] then throw (InvalidState ''server_handles cannot be empty'')
      else bindp (lift_result (u32_len server_handles)) (\<lambda>n.
           bindp (lift_result itf) (\<lambda>i.
           bindp (slice_read n server_handles) (\<lambda>hs.
           bindp (slice_read n vals) (\<lambda>vs.
           bindp (a1_Write i connection hs vs) (\<lambda>(transaction_id, errors).
           ret (transaction_id, array_from_ptr errors n)))))))"

definition async_io_refresh :: "opc_error + 'w async_io_interface \<Rightarrow> u32 \<Rightarrow> u32 \<Rightarrow> ('w, u32) com_call" where
  "async_io_refresh itf connection source = bindp (lift_result itf) (\<lambda>i. a1_Refresh i connection source)"

definition async_io_cancel :: "opc_error + 'w async_io_interface \<Rightarrow> u32 \<Rightarrow> ('w, unit) com_call" where
  "async_io_cancel itf transaction_id = bindp (lift_result itf) (\<lambda>i. a1_Cancel i transaction_id)"

record 'w async_io2_interface =
  a2_Read :: "u32 list \<Rightarrow> u32 \<Rightarrow> ('w, u32 \<times> nat) com_call"
  a2_Write :: "u32 list \<Rightarrow> variant list \<Rightarrow> u32 \<Rightarrow> ('w, u32 \<times> nat) com_call"
  a2_Refresh2 :: "u32 \<Rightarrow> u32 \<Rightarrow> ('w, u32) com_call"
  a2_Cancel2 :: "u32 \<Rightarrow> ('w, unit) com_call"
  a2_SetEnable :: "bool \<Rightarrow> ('w, unit) com_call"
  a2_GetEnable :: "('w, u32) com_call"

definition async_io2_read ::
  "opc_error + 'w async_io2_interface \<Rightarrow> u32 list \<Rightarrow> u32 \<Rightarrow> ('w, u32 \<times> com_array) com_call" where
  "async_io2_read itf server_handles transaction_id =
     bindp (lift_result (u32_len server_handles)) (\<lambda>n.
     bindp (lift_result itf) (\<lambda>i.
     bindp (slice_read n server_handles) (\<lambda>hs.
     bindp (a2_Read i hs transaction_id) (\<lambda>(cancel_id, errors).
     ret (cancel_id, array_from_ptr errors n)))))"

definition async_io2_write ::
  "opc_error + 'w async_io2_interface \<Rightarrow> u32 list \<Rightarrow> variant list \<Rightarrow> u32 \<Rightarrow> ('w, u32 \<times> com_array) com_call" where
  "async_io2_write itf server_handles vals transaction_id =
     bindp (lift_result (u32_len server_handles)) (\<lambda>n.
     bindp (lift_result itf) (\<lambda>i.
     bindp (slice_read n server_handles) (\<lambda>hs.
     bindp (slice_read n vals) (\<lambda>vs.
     bindp (a2_Write i hs vs transaction_id) (\<lambda>(cancel_id, errors).
     ret (cancel_id, array_from_ptr errors n))))))"

definition refresh2 :: "opc_error + 'w async_io2_interface \<Rightarrow> u32 \<Rightarrow> u32 \<Rightarrow> ('w, u32) com_call" where
  "refresh2 itf source transaction_id = bindp (lift_result itf) (\<lambda>i. a2_Refresh2 i source transaction_id)"

definition cancel2 :: "opc_error + 'w async_io2_interface \<Rightarrow> u32 \<Rightarrow> ('w, unit) com_call" where
  "cancel2 itf cancel_id = bindp (lift_result itf) (\<lambda>i. a2_Cancel2 i cancel_id)"

definition set_enable :: "opc_error + 'w async_io2_interface \<Rightarrow> bool \<Rightarrow> ('w, unit) com_call" where
  "set_enable itf enable = bindp (lift_result itf) (\<lambda>i. a2_SetEnable i enable)"

text \<open>A \<open>BOOL\<close> is true when it is not zero.\<close>

definition get_enable :: "opc_error + 'w async_io2_interface \<Rightarrow> ('w, bool) com_call" where
  "get_enable itf = bindp (lift_result itf) (\<lambda>i. bindp (a2_GetEnable i) (\<lambda>v. ret (v \<noteq> 0)))"

record 'w async_io3_interface =
  a3_ReadMaxAge :: "u32 list \<Rightarrow> u32 list \<Rightarrow> u32 \<Rightarrow> ('w, u32 \<times> nat) com_call"
  a3_WriteVQT :: "u32 list \<Rightarrow> native_vqt list \<Rightarrow> u32 \<Rightarrow> ('w, u32 \<times> nat) com_call"
  a3_RefreshMaxAge :: "u32 \<Rightarrow> u32 \<Rightarrow> ('w, u32) com_call"

definition async_io3_read_max_age ::
  "opc_error + 'w async_io3_interface \<Rightarrow> u32 list \<Rightarrow> u32 list \<Rightarrow> u32 \<Rightarrow> ('w, u32 \<times> com_array) com_call" where
  "async_io3_read_max_age itf server_handles ages transaction_id =
     (if length server_handles \<noteq> length ages then
        throw (InvalidState ''server_handles and max_age must have the same length'')
      else bindp (lift_result (u32_len server_handles)) (\<lambda>n.
           bindp (lift_result itf) (\<lambda>i.
           bindp (slice_read n server_handles) (\<lambda>hs.
           bindp (slice_read n ages) (\<lambda>as.
           bindp (a3_ReadMaxAge i hs as transaction_id) (\<lambda>(cancel_id, errors).
           ret (cancel_id, array_from_ptr errors n)))))))"

definition async_io3_write_vqt ::
  "opc_error + 'w async_io3_interface \<Rightarrow> u32 list \<Rightarrow> native_vqt list \<Rightarrow> u32 \<Rightarrow> ('w, u32 \<times> com_array) com_call" where
  "async_io3_write_vqt itf server_handles vals transaction_id =
     (if length server_handles \<noteq> length vals then
        throw (InvalidState ''server_handles and values must have the same length'')
      else bindp (lift_result (u32_len server_handles)) (\<lambda>n.
           bindp (lift_result itf) (\<lambda>i.
           bindp (slice_read n server_handles) (\<lambda>hs.
           bindp (slice_read n vals) (\<lambda>vs.
           bindp (a3_WriteVQT i hs vs transaction_id) (\<lambda>(cancel_id, errors).
           ret (cancel_id, array_from_ptr errors n)))))))"

definition refresh_max_age :: "opc_error + 'w async_io3_interface \<Rightarrow> u32 \<Rightarrow> u32 \<Rightarrow> ('w, u32) com_call" where
  "refresh_max_age itf age transaction_id = bindp (lift_result itf) (\<lambda>i. a3_RefreshMaxAge i age transaction_id)"

section \<open>Deadbands\<close>

text \<open>\<open>(0.0..=100.0).contains(v)\<close>: a NaN compares with nothing, and the negative zero is zero.\<close>

fun between_0_and_100 :: "float_value \<Rightarrow> bool" where
  "between_0_and_100 (Finite negative m e) \<longleftrightarrow>
     (\<not> negative \<or> m = 0) \<and> (negative \<or> (if e < 0 then m \<le> 100 * 2 ^ nat (- e) else m * 2 ^ nat e \<le> 100))"
| "between_0_and_100 _ \<longleftrightarrow> False"

record 'w item_deadband_interface =
  db_SetItemDeadband :: "u32 list \<Rightarrow> u32 list \<Rightarrow> ('w, nat) com_call"
  db_GetItemDeadband :: "u32 list \<Rightarrow> ('w, nat \<times> nat) com_call"
  db_ClearItemDeadband :: "u32 list \<Rightarrow> ('w, nat) com_call"

definition set_item_deadband ::
  "opc_error + 'w item_deadband_interface \<Rightarrow> u32 list \<Rightarrow> u32 list \<Rightarrow> ('w, com_array) com_call" where
  "set_item_deadband itf server_handles deadbands =
     (if length server_handles \<noteq> length deadbands then
        throw (InvalidState ''server_handles and deadbands must have the same length'')
      else if \<exists>v \<in> set deadbands. \<not> between_0_and_100 (f32_value v) then
        throw (InvalidState ''deadband values must be between 0.0 and 100.0'')
      else bindp (lift_result (u32_len server_handles)) (\<lambda>n.
           bindp (lift_result itf) (\<lambda>i.
           bindp (slice_read n server_handles) (\<lambda>hs.
           bindp (slice_read n deadbands) (\<lambda>ds.
           bindp (db_SetItemDeadband i hs ds) (\<lambda>errors.
           ret (array_from_ptr errors n)))))))"

definition get_item_deadband ::
  "opc_error + 'w item_deadband_interface \<Rightarrow> u32 list \<Rightarrow> ('w, com_array \<times> com_array) com_call" where
  "get_item_deadband itf server_handles =
     bindp (lift_result (u32_len server_handles)) (\<lambda>n.
     bindp (lift_result itf) (\<lambda>i.
     bindp (slice_read n server_handles) (\<lambda>hs.
     bindp (db_GetItemDeadband i hs) (\<lambda>(deadbands, errors).
     ret (array_from_ptr deadbands n, array_from_ptr errors n)))))"

definition clear_item_deadband ::
  "opc_error + 'w item_deadband_interface \<Rightarrow> u32 list \<Rightarrow> ('w, com_array) com_call" where
  "clear_item_deadband itf server_handles =
     bindp (lift_result (u32_len server_handles)) (\<lambda>n.
     bindp (lift_result itf) (\<lambda>i.
     bindp (slice_read n server_handles) (\<lambda>hs.
     bindp (db_ClearItemDeadband i hs) (\<lambda>errors.
     ret (array_from_ptr errors n)))))"

section \<open>Sampling rates\<close>

record 'w item_sampling_interface =
  sm_SetItemSamplingRate :: "u32 list \<Rightarrow> u32 list \<Rightarrow> ('w, nat \<times> nat) com_call"
  sm_GetItemSamplingRate :: "u32 list \<Rightarrow> ('w, nat \<times> nat) com_call"
  sm_ClearItemSamplingRate :: "u32 list \<Rightarrow> ('w, nat) com_call"
  sm_SetItemBufferEnable :: "u32 list \<Rightarrow> u32 list \<Rightarrow> ('w, nat) com_call"
  sm_GetItemBufferEnable :: "u32 list \<Rightarrow> ('w, nat \<times> nat) com_call"

definition set_item_sampling_rate ::
  "opc_error + 'w item_sampling_interface \<Rightarrow> u32 list \<Rightarrow> u32 list \<Rightarrow> ('w, com_array \<times> com_array) com_call" where
  "set_item_sampling_rate itf server_handles sampling_rates =
     (if length server_handles \<noteq> length sampling_rates then
        throw (InvalidState ''server_handles and sampling_rates must have the same length'')
      else bindp (lift_result (u32_len server_handles)) (\<lambda>n.
           bindp (lift_result itf) (\<lambda>i.
           bindp (slice_read n server_handles) (\<lambda>hs.
           bindp (slice_read n sampling_rates) (\<lambda>rs.
           bindp (sm_SetItemSamplingRate i hs rs) (\<lambda>(revised_rates, errors).
           ret (array_from_ptr revised_rates n, array_from_ptr errors n)))))))"

definition get_item_sampling_rate ::
  "opc_error + 'w item_sampling_interface \<Rightarrow> u32 list \<Rightarrow> ('w, com_array \<times> com_array) com_call" where
  "get_item_sampling_rate itf server_handles =
     bindp (lift_result (u32_len server_handles)) (\<lambda>n.
     bindp (lift_result itf) (\<lambda>i.
     bindp (slice_read n server_handles) (\<lambda>hs.
     bindp (sm_GetItemSamplingRate i hs) (\<lambda>(sampling_rates, errors).
     ret (array_from_ptr sampling_rates n, array_from_ptr errors n)))))"

definition clear_item_sampling_rate ::
  "opc_error + 'w item_sampling_interface \<Rightarrow> u32 list \<Rightarrow> ('w, com_array) com_call" where
  "clear_item_sampling_rate itf server_handles =
     bindp (lift_result (u32_len server_handles)) (\<lambda>n.
     bindp (lift_result itf) (\<lambda>i.
     bindp (slice_read n server_handles) (\<lambda>hs.
     bindp (sm_ClearItemSamplingRate i hs) (\<lambda>errors.
     ret (array_from_ptr errors n)))))"

text \<open>A \<open>BOOL\<close> that is made of a \<open>bool\<close> is 1 or 0.\<close>

definition bool_of :: "bool \<Rightarrow> u32" where "bool_of v = (if v then 1 else 0)"

definition set_item_buffer_enable ::
  "opc_error + 'w item_sampling_interface \<Rightarrow> u32 list \<Rightarrow> bool list \<Rightarrow> ('w, com_array) com_call" where
  "set_item_buffer_enable itf server_handles enable =
     (if length server_handles \<noteq> length enable then
        throw (InvalidState ''server_handles and enable must have the same length'')
      else bindp (lift_result (u32_len server_handles)) (\<lambda>n.
           let enable_bool = map bool_of enable
           in bindp (lift_result itf) (\<lambda>i.
              bindp (slice_read n server_handles) (\<lambda>hs.
              bindp (slice_read n enable_bool) (\<lambda>es.
              bindp (sm_SetItemBufferEnable i hs es) (\<lambda>errors.
              ret (array_from_ptr errors n)))))))"

definition get_item_buffer_enable ::
  "opc_error + 'w item_sampling_interface \<Rightarrow> u32 list \<Rightarrow> ('w, com_array \<times> com_array) com_call" where
  "get_item_buffer_enable itf server_handles =
     bindp (lift_result (u32_len server_handles)) (\<lambda>n.
     bindp (lift_result itf) (\<lambda>i.
     bindp (slice_read n server_handles) (\<lambda>hs.
     bindp (sm_GetItemBufferEnable i hs) (\<lambda>(enable, errors).
     ret (array_from_ptr enable n, array_from_ptr errors n)))))"

section \<open>Properties of items\<close>

text \<open>The server tells how many properties an item has; the lengths of the arrays are set to it.\<close>

record 'w item_properties_interface =
  ip_QueryAvailableProperties :: "u16 list option \<Rightarrow> ('w, u32 \<times> nat \<times> nat \<times> nat) com_call"
  ip_GetItemProperties :: "u16 list option \<Rightarrow> u32 list \<Rightarrow> ('w, nat \<times> nat) com_call"
  ip_LookupItemIDs :: "u16 list option \<Rightarrow> u32 list \<Rightarrow> ('w, nat \<times> nat) com_call"

definition query_available_properties ::
  "opc_error + 'w item_properties_interface \<Rightarrow> string \<Rightarrow> ('w, com_array \<times> com_array \<times> com_array) com_call" where
  "query_available_properties itf item_id =
     (if item_id = [] then throw (InvalidState ''item_id is empty'')
      else bindp (lift_result itf) (\<lambda>i.
           bindp (ip_QueryAvailableProperties i (as_pwstr (local_wide item_id)))
             (\<lambda>(count, property_ids, descriptions, datatypes).
           let set_count = (\<lambda>a. if count > 0 then array_set_len count a else a)
           in ret (set_count (array_from_ptr property_ids 0), set_count (array_from_ptr descriptions 0),
                   set_count (array_from_ptr datatypes 0)))))"

definition get_item_properties ::
  "opc_error + 'w item_properties_interface \<Rightarrow> string \<Rightarrow> u32 list \<Rightarrow> ('w, com_array \<times> com_array) com_call" where
  "get_item_properties itf item_id property_ids =
     (if property_ids = [] then throw (InvalidState ''property_ids is empty'')
      else bindp (lift_result (u32_len property_ids)) (\<lambda>n.
           bindp (lift_result itf) (\<lambda>i.
           bindp (slice_read (of_nat (length property_ids)) property_ids) (\<lambda>ids.
           bindp (ip_GetItemProperties i (as_pwstr (local_wide item_id)) ids) (\<lambda>(vals, errors).
           ret (array_from_ptr vals n, array_from_ptr errors n))))))"

definition lookup_item_ids ::
  "opc_error + 'w item_properties_interface \<Rightarrow> string \<Rightarrow> u32 list \<Rightarrow> ('w, com_array \<times> com_array) com_call" where
  "lookup_item_ids itf item_id property_ids =
     (if property_ids = [] then throw (InvalidState ''property_ids is empty'')
      else bindp (lift_result (u32_len property_ids)) (\<lambda>n.
           bindp (lift_result itf) (\<lambda>i.
           bindp (slice_read n property_ids) (\<lambda>ids.
           bindp (ip_LookupItemIDs i (as_pwstr (local_wide item_id)) ids) (\<lambda>(new_item_ids, errors).
           ret (array_from_ptr new_item_ids n, array_from_ptr errors n))))))"

section \<open>Browsing\<close>

text \<open>
  Calls that hand over memory: the world is the COM memory with the state of the server. An
  owned pointer is dropped on every path.
\<close>

type_synonym ('x, 's, 'a) memory_call = "('x com_memory \<times> 's, 'a) com_call"

definition in_memory :: "('x, 'a) com_prog \<Rightarrow> ('x, 's, 'a) memory_call" where
  "in_memory p = zoom fst (\<lambda>m w. (m, snd w)) p"

text \<open>
  \<open>Browse\<close> of DA3: item, the continuation point (the address of a string, in and out),
  the maximal number of elements, the filters, the flags and the property IDs. It yields the new
  continuation point, whether there are more elements, and the elements; when it fails, it yields the
  continuation point with the error.
\<close>

record browse_arguments =
  ba_item_id :: "u16 list option"
  ba_max_elements :: u32
  ba_browse_filter :: u32
  ba_element_name_filter :: "u16 list option"
  ba_vendor_filter :: "u16 list option"
  ba_return_all_properties :: bool
  ba_return_property_values :: bool
  ba_property_ids :: "u32 list"

record ('x, 's) browse_interface =
  br_Browse :: "browse_arguments \<Rightarrow> nat
     \<Rightarrow> ('x, 's, nat \<times> (opc_error + u32 \<times> u32 \<times> nat)) memory_call"
  br_GetProperties :: "u16 list option list \<Rightarrow> bool \<Rightarrow> u32 list \<Rightarrow> ('x, 's, nat) memory_call"

definition get_properties ::
  "opc_error + ('x, 's) browse_interface \<Rightarrow> string list \<Rightarrow> bool \<Rightarrow> u32 list \<Rightarrow> ('x, 's, com_array) memory_call" where
  "get_properties itf item_ids return_property_values property_ids =
     (if item_ids = [] then throw (InvalidState ''item_ids is empty'')
      else let item_ptrs = as_pwstr_array (local_wides item_ids)
           in bindp (lift_result (u32_len item_ids)) (\<lambda>n.
              bindp (lift_result itf) (\<lambda>i.
              bindp (slice_read (of_nat (length item_ids)) item_ptrs) (\<lambda>ids.
              bindp (br_GetProperties i ids return_property_values property_ids) (\<lambda>results.
              ret (array_from_ptr results n))))))"

definition text_or_empty :: "string option \<Rightarrow> string" where
  "text_or_empty s = (case s of Some t \<Rightarrow> t | None \<Rightarrow> [])"

definition browse_page_of ::
  "opc_error \<Rightarrow> opc_error + ('x, 's) browse_interface \<Rightarrow> string option \<Rightarrow> string option \<Rightarrow> u32 \<Rightarrow> u32
     \<Rightarrow> string option \<Rightarrow> string option \<Rightarrow> bool \<Rightarrow> bool \<Rightarrow> u32 list
     \<Rightarrow> ('x, 's, bool \<times> string option \<times> com_array) memory_call" where
  "browse_page_of invalid_utf16 itf item_id continuation_point max_elements browse_filter
      element_name_filter vendor_filter return_all_properties return_property_values property_ids =
     bindp (in_memory (pointer_from_option pointer_of_str continuation_point)) (\<lambda>p.
     case itf of
       Inl e \<Rightarrow> seqp (in_memory (drop_pointer p)) (throw e)
     | Inr i \<Rightarrow>
         bindp (br_Browse i
             \<lparr>ba_item_id = as_pwstr (local_wide (text_or_empty item_id)), ba_max_elements = max_elements,
              ba_browse_filter = browse_filter,
              ba_element_name_filter = as_pwstr (local_wide (text_or_empty element_name_filter)),
              ba_vendor_filter = as_pwstr (local_wide (text_or_empty vendor_filter)),
              ba_return_all_properties = return_all_properties,
              ba_return_property_values = return_property_values, ba_property_ids = property_ids\<rparr> p) (\<lambda>(p', r).
         case r of
           Inl e \<Rightarrow> seqp (in_memory (drop_pointer p')) (throw e)
         | Inr (more_elements, count, elements) \<Rightarrow>
             let arr = (if count > 0 then array_set_len count (array_from_ptr elements 0)
                        else array_from_ptr elements 0)
             in bindp (attempt (in_memory (option_string_of_pointer invalid_utf16 p'))) (\<lambda>c.
                case c of
                  Inl e \<Rightarrow> seqp (in_memory (drop_array arr)) (throw e)
                | Inr continuation \<Rightarrow> ret (more_elements \<noteq> 0, continuation, arr))))"

section \<open>The address space\<close>

record ('x, 's, 'h) address_space_interface =
  sp_QueryOrganization :: "('x, 's, u32) memory_call"
  sp_ChangeBrowsePosition :: "u32 \<Rightarrow> u16 list option \<Rightarrow> ('x, 's, unit) memory_call"
  sp_BrowseOPCItemIDs :: "u32 \<Rightarrow> u16 list option \<Rightarrow> u16 \<Rightarrow> u32 \<Rightarrow> ('x, 's, 'h) memory_call"
  sp_GetItemID :: "u16 list option \<Rightarrow> ('x, 's, nat) memory_call"
  sp_BrowseAccessPaths :: "u16 list option \<Rightarrow> ('x, 's, 'h) memory_call"

definition space_query_organization ::
  "opc_error + ('x, 's, 'h) address_space_interface \<Rightarrow> ('x, 's, u32) memory_call" where
  "space_query_organization itf = bindp (lift_result itf) sp_QueryOrganization"

definition space_change_browse_position ::
  "opc_error + ('x, 's, 'h) address_space_interface \<Rightarrow> u32 \<Rightarrow> string \<Rightarrow> ('x, 's, unit) memory_call" where
  "space_change_browse_position itf browse_direction place =
     bindp (lift_result itf) (\<lambda>i. sp_ChangeBrowsePosition i browse_direction (as_pwstr (local_wide place)))"

definition space_browse_opc_item_ids ::
  "opc_error + ('x, 's, 'h) address_space_interface \<Rightarrow> u32 \<Rightarrow> string option \<Rightarrow> u16 \<Rightarrow> u32 \<Rightarrow> ('x, 's, 'h) memory_call" where
  "space_browse_opc_item_ids itf kind filter_criteria data_type_filter access_rights_filter =
     bindp (lift_result itf) (\<lambda>i.
       sp_BrowseOPCItemIDs i kind (as_pwstr (local_from_option local_wide filter_criteria))
         data_type_filter access_rights_filter)"

definition space_get_item_id ::
  "(u32 \<Rightarrow> opc_error) \<Rightarrow> opc_error \<Rightarrow> opc_error + ('x, 's, 'h) address_space_interface \<Rightarrow> string
     \<Rightarrow> ('x, 's, string) memory_call" where
  "space_get_item_id win_error invalid_utf16 itf item_data_id =
     bindp (lift_result itf) (\<lambda>i.
     bindp (sp_GetItemID i (as_pwstr (local_wide item_data_id))) (\<lambda>output.
     in_memory (string_of_pointer win_error invalid_utf16 output)))"

definition space_browse_access_paths ::
  "opc_error + ('x, 's, 'h) address_space_interface \<Rightarrow> string \<Rightarrow> ('x, 's, 'h) memory_call" where
  "space_browse_access_paths itf item_id =
     bindp (lift_result itf) (\<lambda>i. sp_BrowseAccessPaths i (as_pwstr (local_wide item_id)))"

section \<open>The state of a group\<close>

record group_settings =
  gs_update_rate :: u32
  gs_active :: bool
  gs_name :: string
  gs_time_bias :: u32
  gs_percent_deadband :: u32
  gs_locale_id :: u32
  gs_client_handle :: u32
  gs_server_handle :: u32

text \<open>The out parameters of \<open>GetState\<close>, with the name as an address.\<close>

record native_group_state =
  ng_update_rate :: u32
  ng_active :: u32
  ng_name :: nat
  ng_time_bias :: u32
  ng_percent_deadband :: u32
  ng_locale_id :: u32
  ng_client_handle :: u32
  ng_server_handle :: u32

text \<open>The pointers of \<open>SetState\<close>; null is \<open>None\<close>.\<close>

record group_request =
  gr_update_rate :: "u32 option"
  gr_active :: "u32 option"
  gr_time_bias :: "u32 option"
  gr_percent_deadband :: "u32 option"
  gr_locale_id :: "u32 option"
  gr_client_handle :: "u32 option"

record ('x, 's, 'o) group_state_interface =
  gm_GetState :: "('x, 's, native_group_state) memory_call"
  gm_SetState :: "group_request \<Rightarrow> ('x, 's, u32) memory_call"
  gm_SetName :: "u16 list option \<Rightarrow> ('x, 's, unit) memory_call"
  gm_CloneGroup :: "u16 list option \<Rightarrow> string \<Rightarrow> ('x, 's, 'o) memory_call"

definition get_state ::
  "(u32 \<Rightarrow> opc_error) \<Rightarrow> opc_error \<Rightarrow> opc_error + ('x, 's, 'o) group_state_interface
     \<Rightarrow> ('x, 's, group_settings) memory_call" where
  "get_state win_error invalid_utf16 itf =
     bindp (lift_result itf) (\<lambda>i.
     bindp (gm_GetState i) (\<lambda>out.
     bindp (in_memory (string_of_pointer win_error invalid_utf16 (ng_name out))) (\<lambda>name.
     ret \<lparr>gs_update_rate = ng_update_rate out, gs_active = (ng_active out \<noteq> 0), gs_name = name,
          gs_time_bias = ng_time_bias out, gs_percent_deadband = ng_percent_deadband out,
          gs_locale_id = ng_locale_id out, gs_client_handle = ng_client_handle out,
          gs_server_handle = ng_server_handle out\<rparr>)))"

definition set_state ::
  "opc_error + ('x, 's, 'o) group_state_interface \<Rightarrow> u32 option \<Rightarrow> bool option \<Rightarrow> u32 option \<Rightarrow> u32 option
     \<Rightarrow> u32 option \<Rightarrow> u32 option \<Rightarrow> ('x, 's, u32) memory_call" where
  "set_state itf update_rate active time_bias percent_deadband locale_id client_handle =
     bindp (lift_result itf) (\<lambda>i.
     gm_SetState i \<lparr>gr_update_rate = update_rate, gr_active = map_option bool_of active,
       gr_time_bias = time_bias, gr_percent_deadband = percent_deadband, gr_locale_id = locale_id,
       gr_client_handle = client_handle\<rparr>)"

definition set_name ::
  "opc_error + ('x, 's, 'o) group_state_interface \<Rightarrow> string \<Rightarrow> ('x, 's, unit) memory_call" where
  "set_name itf name = bindp (lift_result itf) (\<lambda>i. gm_SetName i (as_pwstr (local_wide name)))"

definition clone_group ::
  "opc_error + ('x, 's, 'o) group_state_interface \<Rightarrow> string \<Rightarrow> string \<Rightarrow> ('x, 's, 'o) memory_call" where
  "clone_group itf name iid = bindp (lift_result itf) (\<lambda>i. gm_CloneGroup i (as_pwstr (local_wide name)) iid)"

record 'w group_state2_interface =
  g2_SetKeepAlive :: "u32 \<Rightarrow> ('w, u32) com_call"
  g2_GetKeepAlive :: "('w, u32) com_call"

definition set_keep_alive :: "opc_error + 'w group_state2_interface \<Rightarrow> u32 \<Rightarrow> ('w, u32) com_call" where
  "set_keep_alive itf keep_alive_time = bindp (lift_result itf) (\<lambda>i. g2_SetKeepAlive i keep_alive_time)"

definition get_keep_alive :: "opc_error + 'w group_state2_interface \<Rightarrow> ('w, u32) com_call" where
  "get_keep_alive itf = bindp (lift_result itf) g2_GetKeepAlive"

section \<open>Server wide calls\<close>

record ('x, 's) common_interface =
  cn_SetLocaleID :: "u32 \<Rightarrow> ('x, 's, unit) memory_call"
  cn_GetLocaleID :: "('x, 's, u32) memory_call"
  cn_QueryAvailableLocaleIDs :: "('x, 's, u32 \<times> nat) memory_call"
  cn_GetErrorString :: "u32 \<Rightarrow> ('x, 's, nat) memory_call"
  cn_SetClientName :: "u16 list option \<Rightarrow> ('x, 's, unit) memory_call"

definition set_locale_id :: "opc_error + ('x, 's) common_interface \<Rightarrow> u32 \<Rightarrow> ('x, 's, unit) memory_call" where
  "set_locale_id itf locale_id = bindp (lift_result itf) (\<lambda>i. cn_SetLocaleID i locale_id)"

definition get_locale_id :: "opc_error + ('x, 's) common_interface \<Rightarrow> ('x, 's, u32) memory_call" where
  "get_locale_id itf = bindp (lift_result itf) cn_GetLocaleID"

definition query_available_locale_ids ::
  "opc_error + ('x, 's) common_interface \<Rightarrow> ('x, 's, com_array) memory_call" where
  "query_available_locale_ids itf =
     bindp (lift_result itf) (\<lambda>i.
     bindp (cn_QueryAvailableLocaleIDs i) (\<lambda>(count, p). ret (array_from_ptr p count)))"

definition get_error_string ::
  "(u32 \<Rightarrow> opc_error) \<Rightarrow> opc_error \<Rightarrow> opc_error + ('x, 's) common_interface \<Rightarrow> u32 \<Rightarrow> ('x, 's, string) memory_call" where
  "get_error_string win_error invalid_utf16 itf error =
     bindp (lift_result itf) (\<lambda>i.
     bindp (cn_GetErrorString i error) (\<lambda>output.
     in_memory (string_of_pointer win_error invalid_utf16 output)))"

definition set_client_name :: "opc_error + ('x, 's) common_interface \<Rightarrow> string \<Rightarrow> ('x, 's, unit) memory_call" where
  "set_client_name itf name = bindp (lift_result itf) (\<lambda>i. cn_SetClientName i (as_pwstr (local_wide name)))"

record ('w, 'o) public_groups_interface =
  pg_GetPublicGroupByName :: "u16 list option \<Rightarrow> string \<Rightarrow> ('w, 'o) com_call"
  pg_RemovePublicGroup :: "u32 \<Rightarrow> bool \<Rightarrow> ('w, unit) com_call"

definition get_public_group_by_name ::
  "opc_error + ('w, 'o) public_groups_interface \<Rightarrow> string \<Rightarrow> string \<Rightarrow> ('w, 'o) com_call" where
  "get_public_group_by_name itf name iid =
     bindp (lift_result itf) (\<lambda>i. pg_GetPublicGroupByName i (as_pwstr (local_wide name)) iid)"

definition remove_public_group ::
  "opc_error + ('w, 'o) public_groups_interface \<Rightarrow> u32 \<Rightarrow> bool \<Rightarrow> ('w, unit) com_call" where
  "remove_public_group itf server_group force = bindp (lift_result itf) (\<lambda>i. pg_RemovePublicGroup i server_group force)"

record 'w public_state_interface =
  ps_GetState :: "('w, u32) com_call"
  ps_MoveToPublic :: "('w, unit) com_call"

definition get_public_state :: "opc_error + 'w public_state_interface \<Rightarrow> ('w, bool) com_call" where
  "get_public_state itf = bindp (lift_result itf) (\<lambda>i. bindp (ps_GetState i) (\<lambda>v. ret (v \<noteq> 0)))"

definition move_to_public :: "opc_error + 'w public_state_interface \<Rightarrow> ('w, unit) com_call" where
  "move_to_public itf = bindp (lift_result itf) ps_MoveToPublic"

section \<open>Data objects and connection points\<close>

text \<open>
  A format \<open>'f\<close>, a medium \<open>'m\<close> and the objects \<open>'o\<close> are foreign. Two methods return their \<open>HRESULT\<close>,
  which is an error only when it is negative; the text of the error comes from the operating system.
\<close>

record ('w, 'f, 'm, 'o) data_object_interface =
  do_GetData :: "'f \<Rightarrow> ('w, 'm) com_call"
  do_GetDataHere :: "'f \<Rightarrow> 'm \<Rightarrow> ('w, 'm) com_call"
  do_QueryGetData :: "'f \<Rightarrow> ('w, u32) com_call"
  do_GetCanonicalFormatEtc :: "'f \<Rightarrow> 'f \<Rightarrow> ('w, u32 \<times> 'f) com_call"
  do_SetData :: "'f \<Rightarrow> 'm \<Rightarrow> bool \<Rightarrow> ('w, unit) com_call"
  do_EnumFormatEtc :: "u32 \<Rightarrow> ('w, 'o) com_call"
  do_DAdvise :: "'f \<Rightarrow> u32 \<Rightarrow> 'o \<Rightarrow> ('w, u32) com_call"
  do_DUnadvise :: "u32 \<Rightarrow> ('w, unit) com_call"
  do_EnumDAdvise :: "('w, 'o) com_call"

definition hresult_ok :: "(u32 \<Rightarrow> opc_error) \<Rightarrow> u32 \<Rightarrow> opc_error + unit" where
  "hresult_ok win_error code = (if hresult_is_ok code then Inr () else Inl (win_error code))"

definition get_data :: "opc_error + ('w, 'f, 'm, 'o) data_object_interface \<Rightarrow> 'f \<Rightarrow> ('w, 'm) com_call" where
  "get_data itf fmt = bindp (lift_result itf) (\<lambda>i. do_GetData i fmt)"

definition get_data_here ::
  "'m \<Rightarrow> opc_error + ('w, 'f, 'm, 'o) data_object_interface \<Rightarrow> 'f \<Rightarrow> ('w, 'm) com_call" where
  "get_data_here default_medium itf fmt = bindp (lift_result itf) (\<lambda>i. do_GetDataHere i fmt default_medium)"

definition query_get_data ::
  "(u32 \<Rightarrow> opc_error) \<Rightarrow> opc_error + ('w, 'f, 'm, 'o) data_object_interface \<Rightarrow> 'f \<Rightarrow> ('w, unit) com_call" where
  "query_get_data win_error itf fmt =
     bindp (lift_result itf) (\<lambda>i. bindp (do_QueryGetData i fmt) (\<lambda>code. lift_result (hresult_ok win_error code)))"

definition get_canonical_format ::
  "(u32 \<Rightarrow> opc_error) \<Rightarrow> 'f \<Rightarrow> opc_error + ('w, 'f, 'm, 'o) data_object_interface \<Rightarrow> 'f \<Rightarrow> ('w, 'f) com_call" where
  "get_canonical_format win_error default_format itf format_in =
     bindp (lift_result itf) (\<lambda>i.
     bindp (do_GetCanonicalFormatEtc i format_in default_format) (\<lambda>(code, output).
     bindp (lift_result (hresult_ok win_error code)) (\<lambda>_. ret output)))"

definition set_data ::
  "opc_error + ('w, 'f, 'm, 'o) data_object_interface \<Rightarrow> 'f \<Rightarrow> 'm \<Rightarrow> bool \<Rightarrow> ('w, unit) com_call" where
  "set_data itf fmt medium release = bindp (lift_result itf) (\<lambda>i. do_SetData i fmt medium release)"

definition enumerate_formats :: "opc_error + ('w, 'f, 'm, 'o) data_object_interface \<Rightarrow> u32 \<Rightarrow> ('w, 'o) com_call" where
  "enumerate_formats itf direction = bindp (lift_result itf) (\<lambda>i. do_EnumFormatEtc i direction)"

definition dadvise ::
  "opc_error + ('w, 'f, 'm, 'o) data_object_interface \<Rightarrow> 'f \<Rightarrow> u32 \<Rightarrow> 'o \<Rightarrow> ('w, u32) com_call" where
  "dadvise itf fmt advf sink = bindp (lift_result itf) (\<lambda>i. do_DAdvise i fmt advf sink)"

definition dunadvise :: "opc_error + ('w, 'f, 'm, 'o) data_object_interface \<Rightarrow> u32 \<Rightarrow> ('w, unit) com_call" where
  "dunadvise itf connection = bindp (lift_result itf) (\<lambda>i. do_DUnadvise i connection)"

definition enum_dadvise :: "opc_error + ('w, 'f, 'm, 'o) data_object_interface \<Rightarrow> ('w, 'o) com_call" where
  "enum_dadvise itf = bindp (lift_result itf) do_EnumDAdvise"

record ('w, 'o) connection_points_interface =
  cp_FindConnectionPoint :: "string \<Rightarrow> ('w, 'o) com_call"
  cp_EnumConnectionPoints :: "('w, 'o) com_call"

definition find_connection_point :: "opc_error + ('w, 'o) connection_points_interface \<Rightarrow> string \<Rightarrow> ('w, 'o) com_call" where
  "find_connection_point itf iid = bindp (lift_result itf) (\<lambda>i. cp_FindConnectionPoint i iid)"

definition data_callback_connection_point :: "opc_error + ('w, 'o) connection_points_interface \<Rightarrow> ('w, 'o) com_call" where
  "data_callback_connection_point itf = find_connection_point itf ''IOPCDataCallback''"

definition enum_connection_points :: "opc_error + ('w, 'o) connection_points_interface \<Rightarrow> ('w, 'o) com_call" where
  "enum_connection_points itf = bindp (lift_result itf) cp_EnumConnectionPoints"

section \<open>Groups of a server, enumerated\<close>

text \<open>An enumerator \<open>'o\<close> is cast to the interface \<open>'h\<close> that was asked for, and gets an iterator around it.\<close>

record ('w, 'o) server_interface =
  sv_GetStatus :: "('w, nat) com_call"
  sv_CreateGroupEnumerator :: "u32 \<Rightarrow> string \<Rightarrow> ('w, 'o) com_call"

definition get_status :: "opc_error + ('w, 'o) server_interface \<Rightarrow> ('w, nat) com_call" where
  "get_status itf = bindp (lift_result itf) sv_GetStatus"

definition create_group_enumerator ::
  "('o \<Rightarrow> opc_error + 'h) \<Rightarrow> opc_error + ('w, 'o) server_interface \<Rightarrow> u32
     \<Rightarrow> ('w, 'h \<times> 'u option array_iterator) com_call" where
  "create_group_enumerator cast_to itf scope =
     bindp (lift_result itf) (\<lambda>i.
     bindp (sv_CreateGroupEnumerator i scope ''IEnumUnknown'') (\<lambda>enumerator.
     bindp (lift_result (cast_to enumerator)) (\<lambda>h. ret (h, array_iterator_new None))))"

definition create_group_name_enumerator ::
  "('o \<Rightarrow> opc_error + 'h) \<Rightarrow> opc_error + ('w, 'o) server_interface \<Rightarrow> u32 \<Rightarrow> ('w, 'h \<times> string_iterator) com_call" where
  "create_group_name_enumerator cast_to itf scope =
     bindp (lift_result itf) (\<lambda>i.
     bindp (sv_CreateGroupEnumerator i scope ''IEnumString'') (\<lambda>enumerator.
     bindp (lift_result (cast_to enumerator)) (\<lambda>h. ret (h, string_iterator_new))))"

section \<open>Slices are read in bounds\<close>

text \<open>
  What the methods that take two slices promise of them: slices of different lengths are an
  error before any call; the call is made with exactly the slices of the caller; and it is undefined
  only where the method of the server is.
\<close>

definition checks_slices ::
  "('a list \<Rightarrow> 'b list \<Rightarrow> ('w, 'r) com_call) \<Rightarrow> ('a list \<Rightarrow> 'b list \<Rightarrow> ('w, 't) com_call) \<Rightarrow> bool" where
  "checks_slices call native \<longleftrightarrow> (\<forall>xs ys w.
     (length xs \<noteq> length ys \<longrightarrow> (\<exists>e. call xs ys w = Some (Inl (InvalidState e), w))) \<and>
     (call xs ys w = None \<longrightarrow> length xs = length ys \<and> native xs ys w = None) \<and>
     (\<forall>r w'. call xs ys w = Some (Inr r, w') \<longrightarrow> length xs = length ys \<and> (\<exists>t. native xs ys w = Some (Inr t, w'))))"

lemma u32_len_fits: "u32_len xs = Inr n \<Longrightarrow> unat n = length xs"
  by (auto simp: u32_len_def split: if_splits)

lemma slice_read_all [simp]: "unat n = length xs \<Longrightarrow> slice_read n xs = ret xs"
  by (simp add: slice_read_def)

lemma lift_result_cases: "lift_result (Inr x) = ret x" "lift_result (Inl e) = throw e"
  by (simp_all add: fun_eq_iff prog_defs)

lemma two_slices:
  assumes "length xs = length ys"
  shows "bindp (lift_result (u32_len xs)) (\<lambda>n. bindp (lift_result (Inr i)) (\<lambda>i.
      bindp (slice_read n xs) (\<lambda>xs. bindp (slice_read n ys) (\<lambda>ys. k n i xs ys))))
    = (case u32_len xs of Inl e \<Rightarrow> throw e | Inr n \<Rightarrow> k n i xs ys)"
proof (cases "u32_len xs")
  case (Inl e)
  then show ?thesis by (simp add: lift_result_cases bindp_throw)
next
  case (Inr n)
  have "unat n = length xs" "unat n = length ys" using u32_len_fits[OF Inr] assms by simp_all
  with Inr show ?thesis by (simp add: lift_result_cases bindp_ret)
qed

lemma lent_slices:
  assumes "length xs = length ys"
  shows lent_read: "bindp (lift_result (u32_len xs)) (\<lambda>n. bindp (lift_result (Inr i)) (\<lambda>i.
      bindp (slice_read (of_nat (length ys)) (as_pwstr_array (local_wides xs)))
        (\<lambda>ids. bindp (slice_read (of_nat (length ys)) ys) (\<lambda>ys. k n i ids ys))))
    = (case u32_len xs of Inl e \<Rightarrow> throw e | Inr n \<Rightarrow> k n i (map (\<lambda>s. Some (to_wide s)) xs) ys)" (is ?thesis1)
    and lent_write: "bindp (lift_result (u32_len xs)) (\<lambda>n. bindp (lift_result (Inr i)) (\<lambda>i.
      bindp (slice_read n (as_pwstr_array (local_wides xs))) (\<lambda>xs. bindp (slice_read n ys) (\<lambda>ys. k n i xs ys))))
    = (case u32_len xs of Inl e \<Rightarrow> throw e | Inr n \<Rightarrow> k n i (map (\<lambda>s. Some (to_wide s)) xs) ys)" (is ?thesis2)
proof -
  have "?thesis1 \<and> ?thesis2"
  proof (cases "u32_len xs")
    case (Inr n)
    have n: "unat n = length xs" "unat n = length ys" using u32_len_fits[OF Inr] assms by simp_all
    moreover have "n = of_nat (length ys)" by (simp add: n(2) [symmetric])
    ultimately show ?thesis
      using Inr assms by (simp_all add: lift_result_cases bindp_ret as_pwstr_array_def local_wides_def comp_def)
  qed (simp_all add: lift_result_cases bindp_throw)
  then show ?thesis1 and ?thesis2 by blast+
qed

text \<open>
  The contract behind the promise: slices of different lengths are refused, and slices of the same length are an
  error of their own or the call of the server, after which nothing fails.
\<close>

locale checked_call =
  fixes call :: "'a list \<Rightarrow> 'b list \<Rightarrow> ('w, 'r) com_call"
    and native :: "'a list \<Rightarrow> 'b list \<Rightarrow> ('w, 't) com_call"
    and k :: "u32 \<Rightarrow> 't \<Rightarrow> ('w, 'r) com_call"
  assumes mismatch: "length xs \<noteq> length ys \<Longrightarrow> \<exists>e. call xs ys = throw (InvalidState e)"
    and match: "length xs = length ys \<Longrightarrow> (\<exists>e. call xs ys = throw e) \<or>
      call xs ys = (case u32_len xs of Inl e \<Rightarrow> throw e | Inr n \<Rightarrow> bindp (native xs ys) (k n))"
    and returns: "\<exists>r. k n t w = Some (Inr r, w)"
begin

lemma checks: "checks_slices call native"
  unfolding checks_slices_def
proof (intro allI conjI impI)
  fix xs ys w
  show "\<exists>e. call xs ys w = Some (Inl (InvalidState e), w)" if "length xs \<noteq> length ys"
    using mismatch[OF that] by (auto simp: throw_def)
  have same: "length xs = length ys" if "\<And>e. call xs ys \<noteq> throw e"
    using mismatch[of xs ys] that by blast
  have form: "\<exists>n. call xs ys = bindp (native xs ys) (k n)" if "\<And>e. call xs ys \<noteq> throw e"
    using match[OF same[OF that]] that by (cases "u32_len xs") auto
  have len: "length xs = length ys" and run: "\<exists>n. call xs ys w = bindp (native xs ys) (k n) w"
    if "\<And>e. call xs ys w \<noteq> Some (Inl e, w)"
    using same form that by (metis throw_def)+
  have ran: "(call xs ys w = None \<longrightarrow> native xs ys w = None) \<and>
    (\<forall>r w'. call xs ys w = Some (Inr r, w') \<longrightarrow> (\<exists>t. native xs ys w = Some (Inr t, w')))"
    if "call xs ys w = bindp (native xs ys) (k n) w" for n
  proof (cases "native xs ys w")
    case (Some out)
    obtain q w1 where "out = (q, w1)" by (cases out)
    with Some that returns[of n _ w1] show ?thesis
      by (cases q) (auto simp: bindp_def, (metis option.distinct(1) option.inject prod.inject)+)
  qed (use that in \<open>simp add: bindp_def\<close>)
  show "length xs = length ys" if "call xs ys w = None" using that by (intro len) simp
  show "native xs ys w = None" if "call xs ys w = None" using that run ran by fastforce
  fix r w'
  assume r: "call xs ys w = Some (Inr r, w')"
  then show "length xs = length ys" by (intro len) simp
  show "\<exists>t. native xs ys w = Some (Inr t, w')" using r run ran by fastforce
qed

end

interpretation client_handles: checked_call "set_client_handles (Inr mgt)"
    "im_SetClientHandles mgt" "\<lambda>n e. ret (array_from_ptr e n)" for mgt
  by unfold_locales (auto simp: set_client_handles_def two_slices run_simps)

interpretation data_types: checked_call "set_datatypes (Inr mgt)"
    "im_SetDatatypes mgt" "\<lambda>n e. ret (array_from_ptr e n)" for mgt
  by unfold_locales (auto simp: set_datatypes_def two_slices run_simps)

interpretation sync_ages: checked_call "sync_io2_read_max_age (Inr s2)"
    "s2_ReadMaxAge s2" "\<lambda>n ps. ret (four_arrays n ps)" for s2
  by unfold_locales (auto simp: sync_io2_read_max_age_def two_slices run_simps, simp add: four_arrays_def)

interpretation sync_writes: checked_call "sync_io2_write_vqt (Inr s2)"
    "s2_WriteVQT s2" "\<lambda>n e. ret (array_from_ptr e n)" for s2
  by unfold_locales (auto simp: sync_io2_write_vqt_def two_slices run_simps)

interpretation async_writes: checked_call "async_io_write (Inr a1) connection"
    "a1_Write a1 connection" "\<lambda>n (c, e). ret (c, array_from_ptr e n)" for a1 connection
  by unfold_locales (auto simp: async_io_write_def two_slices run_simps)

interpretation async_ages: checked_call "\<lambda>hs as. async_io3_read_max_age (Inr a3) hs as transaction"
    "\<lambda>hs as. a3_ReadMaxAge a3 hs as transaction" "\<lambda>n (c, e). ret (c, array_from_ptr e n)" for a3 transaction
  by unfold_locales (auto simp: async_io3_read_max_age_def two_slices run_simps)

interpretation async_vqts: checked_call "\<lambda>hs vs. async_io3_write_vqt (Inr a3) hs vs transaction"
    "\<lambda>hs vs. a3_WriteVQT a3 hs vs transaction" "\<lambda>n (c, e). ret (c, array_from_ptr e n)" for a3 transaction
  by unfold_locales (auto simp: async_io3_write_vqt_def two_slices run_simps)

interpretation deadbands: checked_call "set_item_deadband (Inr db)"
    "db_SetItemDeadband db" "\<lambda>n e. ret (array_from_ptr e n)" for db
  by unfold_locales (auto simp: set_item_deadband_def two_slices run_simps)

interpretation sampling: checked_call "set_item_sampling_rate (Inr sm)"
    "sm_SetItemSamplingRate sm" "\<lambda>n (r, e). ret (array_from_ptr r n, array_from_ptr e n)" for sm
  by unfold_locales (auto simp: set_item_sampling_rate_def two_slices run_simps)

interpretation buffering: checked_call "set_item_buffer_enable (Inr sm)"
    "\<lambda>hs es. sm_SetItemBufferEnable sm hs (map bool_of es)" "\<lambda>n e. ret (array_from_ptr e n)" for sm
  by unfold_locales (auto simp: set_item_buffer_enable_def Let_def two_slices run_simps)

interpretation id_reads: checked_call "item_io_read (Inr io)"
    "\<lambda>ids. io_Read io (map (\<lambda>s. Some (to_wide s)) ids)" "\<lambda>n ps. ret (four_arrays n ps)" for io
  by unfold_locales (auto simp: item_io_read_def bad_slices_def Let_def lent_read run_simps, simp add: four_arrays_def)

interpretation id_writes: checked_call "item_io_write_vqt (Inr io)"
    "\<lambda>ids. io_WriteVQT io (map (\<lambda>s. Some (to_wide s)) ids)" "\<lambda>n e. ret (array_from_ptr e n)" for io
  by unfold_locales (auto simp: item_io_write_vqt_def bad_slices_def Let_def lent_write run_simps)


section \<open>Deadbands in bits\<close>

lemma positive_deadbands:
  assumes "n < 2 ^ 31"
  shows "between_0_and_100 (decode_ieee 8 23 n) \<longleftrightarrow> n \<le> 0x42C80000"
proof -
  define q fr where "q = n div 2 ^ 23" and "fr = n mod 2 ^ 23"
  have n: "n = q * 2 ^ 23 + fr" and fr: "fr < 2 ^ 23" by (simp_all add: q_def fr_def)
  have q: "q < 256" and positive: "n div 2 ^ 31 = 0" using assms by (simp_all add: q_def)
  have decoded: "decode_ieee 8 23 n = (if q = 255 then (if fr = 0 then Infinite False else NotANumber)
      else if q = 0 then Finite False fr (- 149) else Finite False (2 ^ 23 + fr) (int q - 150))"
    using q positive by (simp add: decode_ieee_def Let_def q_def fr_def)
  consider "q = 255" | "q = 0" | "0 < q" "q \<le> 132" | "q = 133" | "134 \<le> q" "q < 150" | "150 \<le> q" "q < 255"
    using q by linarith
  then show ?thesis
  proof cases
    case 3
    then have "(2 :: nat) ^ 18 \<le> 2 ^ (150 - q)" by (intro power_increasing) simp_all
    then have "2 ^ 23 + fr \<le> 100 * 2 ^ (150 - q)" using fr by simp
    moreover have "nat (150 - int q) = 150 - q" by simp
    ultimately show ?thesis using 3 n fr decoded by simp
  next
    case 5
    then have "(2 :: nat) ^ (150 - q) \<le> 2 ^ 16" by (intro power_increasing) simp_all
    then have "\<not> 2 ^ 23 + fr \<le> 100 * 2 ^ (150 - q)" by simp
    moreover have "nat (150 - int q) = 150 - q" by simp
    ultimately show ?thesis using 5 n decoded by simp
  next
    case 6
    have "(1 :: nat) \<le> 2 ^ nat (int q - 150)" by simp
    then have "2 ^ 23 * 1 \<le> (2 ^ 23 + fr) * 2 ^ nat (int q - 150)" by (intro mult_le_mono) simp_all
    then have "\<not> (2 ^ 23 + fr) * 2 ^ nat (int q - 150) \<le> 100" by simp
    then show ?thesis using 6 n decoded by simp
  qed (use n fr decoded in simp_all)
qed

lemma negative_deadbands:
  assumes "2 ^ 31 \<le> n" and "n < 2 ^ 32"
  shows "between_0_and_100 (decode_ieee 8 23 n) \<longleftrightarrow> n = 2 ^ 31"
proof -
  define q fr where "q = n div 2 ^ 23 mod 2 ^ 8" and "fr = n mod 2 ^ 23"
  have one: "n div 2 ^ 31 = 1" using assms by (simp add: div_nat_eqI)
  then have "n div 2 ^ 23 div 2 ^ 8 = 1" by (simp add: div_mult2_eq[symmetric])
  then have "n div 2 ^ 23 = 2 ^ 8 + q" unfolding q_def by (metis mod_div_decomp mult_1)
  then have n: "n = (2 ^ 8 + q) * 2 ^ 23 + fr" unfolding fr_def by (metis mod_div_decomp)
  have "decode_ieee 8 23 n = (if q = 255 then (if fr = 0 then Infinite True else NotANumber)
      else if q = 0 then Finite True fr (- 149) else Finite True (2 ^ 23 + fr) (int q - 150))"
    using one by (simp add: decode_ieee_def Let_def q_def fr_def)
  with n show ?thesis by simp
qed

lemma deadband_bits: "between_0_and_100 (f32_value w) \<longleftrightarrow> w \<le> 0x42C80000 \<or> w = 0x80000000"
proof (cases "unat w < 2 ^ 31")
  case True
  have "w \<le> 0x42C80000 \<longleftrightarrow> unat w \<le> 0x42C80000" by (simp add: word_le_nat_alt)
  moreover have "w \<noteq> 0x80000000" using True by auto
  ultimately show ?thesis using positive_deadbands[OF True] unfolding f32_value_def by blast
next
  case False
  have "w \<le> 0x42C80000 \<longleftrightarrow> unat w \<le> 0x42C80000" by (simp add: word_le_nat_alt)
  moreover have "unat w = 2 ^ 31 \<longleftrightarrow> w = 0x80000000"
  proof
    assume "unat w = 2 ^ 31"
    then have "word_of_nat (unat w) = (word_of_nat (2 ^ 31) :: u32)" by (rule arg_cong)
    then show "w = 0x80000000" by simp
  qed simp
  ultimately show ?thesis
    using negative_deadbands[of "unat w"] unsigned_less[where ?'a = nat, of w] False
    unfolding f32_value_def by simp
qed

text \<open>
  C40. A deadband is written exactly for percentages: the call is refused when one of the values is not a
  number between 0 and 100, which in bits means above those of 100.0 and not the negative zero, so that NaN,
  the infinities and negative values are refused; otherwise every value reaches the server as it is.
\<close>

theorem deadbands_are_percentages:
  assumes "length hs = length ds" and "length hs < 2 ^ 32"
  shows "set_item_deadband (Inr db) hs ds w =
    (if \<exists>d \<in> set ds. 0x42C80000 < d \<and> d \<noteq> 0x80000000
     then Some (Inl (InvalidState ''deadband values must be between 0.0 and 100.0''), w)
     else bindp (db_SetItemDeadband db hs ds) (\<lambda>errors. ret (array_from_ptr errors (of_nat (length hs)))) w)"
proof -
  have len: "u32_len hs = Inr (of_nat (length hs))" by (rule u32_len_ok[OF assms(2)])
  show ?thesis
    using u32_len_fits[OF len] assms(1)
    by (auto simp: set_item_deadband_def len lift_result_cases bindp_ret deadband_bits run_simps not_le)
qed

theorem deadbands_are_percentages_witness:
  "set_item_deadband (Inr \<lparr>db_SetItemDeadband = \<lambda>hs ds w. Some (Inr 8, ds), db_GetItemDeadband = \<lambda>_. ret (0, 0),
      db_ClearItemDeadband = \<lambda>_. ret 0\<rparr>) [1, 2] [0x42C80000, 0x80000000] []
    = Some (Inr (array_from_ptr 8 2), [0x42C80000, 0x80000000])
   \<and> set_item_deadband (Inr \<lparr>db_SetItemDeadband = \<lambda>hs ds w. Some (Inr 8, ds), db_GetItemDeadband = \<lambda>_. ret (0, 0),
      db_ClearItemDeadband = \<lambda>_. ret 0\<rparr>) [1, 2] [0x42C80000, 0x7FC00000] []
    = Some (Inl (InvalidState ''deadband values must be between 0.0 and 100.0''), [])"
  by (subst (1 2) deadbands_are_percentages) (simp_all add: bindp_def ret_def)

section \<open>The state of a group is what was set\<close>

lemma in_memory_run: "in_memory p (m, s) = (case p m of None \<Rightarrow> None | Some (r, m') \<Rightarrow> Some (r, (m', s)))"
  by (auto simp: in_memory_def zoom_def split: option.split)

text \<open>What \<open>string_of_pointer\<close> makes of a wide string.\<close>

lemma string_of_wide:
  assumes "hm_get (cm_blocks m) p = Some (Wide (to_wide (utf8_text ns)))" and "list_all is_scalar ns" and "p \<noteq> 0"
  shows "string_of_pointer win_error bad p m =
    Some (Inr (utf8_text (takeWhile (\<lambda>n. n \<noteq> 0) ns)), m\<lparr>cm_blocks := hm_remove p (cm_blocks m)\<rparr>)"
  using string_of_pointer_reads[OF assms(1) _ assms(3), of win_error bad] decode_wide_text[OF assms(2)]
  by (simp add: to_wide_def)

lemma remove_inserted: "\<not> hm_contains blocks p \<Longrightarrow> hm_remove p (hm_insert p b blocks) = blocks"
  using hm_remove_absent[of blocks p] by (auto simp: hm_insert_def hm_remove_def)

text \<open>
  A group that behaves as documented (OPC DA 2.05, 4.5.4): \<open>GetState\<close> hands over its settings with a
  new copy of the name, and \<open>SetState\<close> changes the settings whose pointer is not null; it may
  revise the update rate, and returns the rate that holds.
\<close>

definition documented_group :: "('x, 's, 'o) group_state_interface \<Rightarrow> ('s \<Rightarrow> group_settings) \<Rightarrow> bool" where
  "documented_group i settings \<longleftrightarrow>
     (\<forall>m s. \<exists>p m'. p \<noteq> 0 \<and> \<not> hm_contains (cm_blocks m) p
        \<and> cm_blocks m' = hm_insert p (Wide (to_wide (gs_name (settings s)))) (cm_blocks m)
        \<and> gm_GetState i (m, s) = Some (Inr
            \<lparr>ng_update_rate = gs_update_rate (settings s), ng_active = bool_of (gs_active (settings s)),
             ng_name = p, ng_time_bias = gs_time_bias (settings s),
             ng_percent_deadband = gs_percent_deadband (settings s), ng_locale_id = gs_locale_id (settings s),
             ng_client_handle = gs_client_handle (settings s), ng_server_handle = gs_server_handle (settings s)\<rparr>,
            (m', s))) \<and>
     (\<forall>req m s. \<exists>rate s'. gm_SetState i req (m, s) = Some (Inr rate, (m, s'))
        \<and> settings s' = (settings s)
            \<lparr>gs_update_rate := if gr_update_rate req = None then gs_update_rate (settings s) else rate,
             gs_active := case_option (gs_active (settings s)) (\<lambda>v. v \<noteq> 0) (gr_active req),
             gs_time_bias := case_option (gs_time_bias (settings s)) id (gr_time_bias req),
             gs_percent_deadband := case_option (gs_percent_deadband (settings s)) id (gr_percent_deadband req),
             gs_locale_id := case_option (gs_locale_id (settings s)) id (gr_locale_id req),
             gs_client_handle := case_option (gs_client_handle (settings s)) id (gr_client_handle req)\<rparr>)"

text \<open>
  What \<open>set_state\<close> is given is what \<open>get_state\<close> returns: on a group that behaves as documented
  the settings that are given change to the values given (the update rate to the revised one), the others
  stay as they are, the name is read back up to its first NUL, and its copy is freed.
\<close>

theorem group_settings_round_trip:
  assumes group: "documented_group i settings"
    and name: "gs_name (settings s) = utf8_text ns" "list_all is_scalar ns"
  shows "\<exists>rate s' m'.
    set_state (Inr i) update_rate active time_bias percent_deadband locale_id client_handle (m, s)
      = Some (Inr rate, (m, s')) \<and>
    get_state win_error bad (Inr i) (m, s') = Some (Inr ((settings s)
      \<lparr>gs_update_rate := if update_rate = None then gs_update_rate (settings s) else rate,
       gs_active := case_option (gs_active (settings s)) id active,
       gs_name := utf8_text (takeWhile (\<lambda>n. n \<noteq> 0) ns),
       gs_time_bias := case_option (gs_time_bias (settings s)) id time_bias,
       gs_percent_deadband := case_option (gs_percent_deadband (settings s)) id percent_deadband,
       gs_locale_id := case_option (gs_locale_id (settings s)) id locale_id,
       gs_client_handle := case_option (gs_client_handle (settings s)) id client_handle\<rparr>), (m', s')) \<and>
    cm_blocks m' = cm_blocks m"
proof -
  let ?req = "\<lparr>gr_update_rate = update_rate, gr_active = map_option bool_of active, gr_time_bias = time_bias,
    gr_percent_deadband = percent_deadband, gr_locale_id = locale_id, gr_client_handle = client_handle\<rparr>"
  from group obtain rate s' where set: "gm_SetState i ?req (m, s) = Some (Inr rate, (m, s'))"
    and s': "settings s' = (settings s)
      \<lparr>gs_update_rate := if update_rate = None then gs_update_rate (settings s) else rate,
       gs_active := case_option (gs_active (settings s)) (\<lambda>v. v \<noteq> 0) (map_option bool_of active),
       gs_time_bias := case_option (gs_time_bias (settings s)) id time_bias,
       gs_percent_deadband := case_option (gs_percent_deadband (settings s)) id percent_deadband,
       gs_locale_id := case_option (gs_locale_id (settings s)) id locale_id,
       gs_client_handle := case_option (gs_client_handle (settings s)) id client_handle\<rparr>"
    unfolding documented_group_def by (metis group_request.select_convs)
  from group obtain p m1 where p: "p \<noteq> 0" "\<not> hm_contains (cm_blocks m) p"
    and m1: "cm_blocks m1 = hm_insert p (Wide (to_wide (gs_name (settings s')))) (cm_blocks m)"
    and get: "gm_GetState i (m, s') = Some (Inr
      \<lparr>ng_update_rate = gs_update_rate (settings s'), ng_active = bool_of (gs_active (settings s')),
       ng_name = p, ng_time_bias = gs_time_bias (settings s'),
       ng_percent_deadband = gs_percent_deadband (settings s'), ng_locale_id = gs_locale_id (settings s'),
       ng_client_handle = gs_client_handle (settings s'), ng_server_handle = gs_server_handle (settings s')\<rparr>,
      (m1, s'))"
    unfolding documented_group_def by meson
  have "gs_name (settings s') = utf8_text ns" by (simp add: s' name)
  then have "hm_get (cm_blocks m1) p = Some (Wide (to_wide (utf8_text ns)))" by (simp add: m1 hm_get_insert)
  note name_text = string_of_wide[OF this name(2) p(1), of win_error bad]
  have "set_state (Inr i) update_rate active time_bias percent_deadband locale_id client_handle (m, s)
      = Some (Inr rate, (m, s'))"
    by (simp add: set_state_def lift_result_cases bindp_ret set)
  moreover have "get_state win_error bad (Inr i) (m, s') = Some (Inr ((settings s')
      \<lparr>gs_name := utf8_text (takeWhile (\<lambda>n. n \<noteq> 0) ns)\<rparr>),
      (m1\<lparr>cm_blocks := hm_remove p (cm_blocks m1)\<rparr>, s'))"
    by (simp add: get_state_def lift_result_cases bindp_ret get bindp_run in_memory_run name_text run_simps)
      (simp add: bool_of_def)
  ultimately show ?thesis
    using remove_inserted[OF p(2)] by (auto simp: s' m1 bool_of_def split: option.split)
qed

text \<open>A group whose state is its settings, rounding the update rate up to 100 ms.\<close>

definition rack_group :: "(unit, group_settings, unit) group_state_interface" where
  "rack_group = \<lparr>
     gm_GetState = (\<lambda>(m, s).
       let p = Suc (sum_list (map fst (cm_blocks m)))
       in Some (Inr \<lparr>ng_update_rate = gs_update_rate s, ng_active = bool_of (gs_active s), ng_name = p,
            ng_time_bias = gs_time_bias s, ng_percent_deadband = gs_percent_deadband s, ng_locale_id = gs_locale_id s,
            ng_client_handle = gs_client_handle s, ng_server_handle = gs_server_handle s\<rparr>,
          (m\<lparr>cm_blocks := hm_insert p (Wide (to_wide (gs_name s))) (cm_blocks m)\<rparr>, s))),
     gm_SetState = (\<lambda>req (m, s).
       let rate = case_option (gs_update_rate s) (\<lambda>r. max 100 r) (gr_update_rate req)
       in Some (Inr rate, (m, s\<lparr>gs_update_rate := rate,
            gs_active := case_option (gs_active s) (\<lambda>v. v \<noteq> 0) (gr_active req),
            gs_time_bias := case_option (gs_time_bias s) id (gr_time_bias req),
            gs_percent_deadband := case_option (gs_percent_deadband s) id (gr_percent_deadband req),
            gs_locale_id := case_option (gs_locale_id s) id (gr_locale_id req),
            gs_client_handle := case_option (gs_client_handle s) id (gr_client_handle req)\<rparr>))),
     gm_SetName = (\<lambda>_ (m, s). Some (Inr (), (m, s))),
     gm_CloneGroup = (\<lambda>_ _ (m, s). Some (Inr (), (m, s)))\<rparr>"

lemma rack_group_documented: "documented_group rack_group id"
proof -
  have fresh: "\<not> hm_contains blocks (Suc (sum_list (map fst blocks)))" for blocks :: "(nat, unit block) hmap"
    using member_le_sum_list[of _ "map fst blocks"] by (fastforce simp: hm_contains_def)
  show ?thesis
    unfolding documented_group_def
    by (intro conjI allI) (auto simp: rack_group_def Let_def fresh split: option.split)
qed

definition rack_settings :: group_settings where
  "rack_settings = \<lparr>gs_update_rate = 1000, gs_active = False, gs_name = utf8_text [0xB0, 67],
     gs_time_bias = 0, gs_percent_deadband = 0, gs_locale_id = 1033, gs_client_handle = 7, gs_server_handle = 9\<rparr>"

theorem group_settings_round_trip_witness:
  "\<exists>rate s' m'. set_state (Inr rack_group) (Some 50) (Some True) None None None None (two_blocks, rack_settings)
      = Some (Inr rate, (two_blocks, s')) \<and>
    get_state (\<lambda>c. Com c []) (Internal []) (Inr rack_group) (two_blocks, s')
      = Some (Inr (rack_settings\<lparr>gs_update_rate := rate, gs_active := True\<rparr>), (m', s'))"
proof -
  have "gs_name (id rack_settings) = utf8_text [0xB0, 67]" by (simp add: rack_settings_def)
  moreover have "list_all is_scalar [0xB0, 67]" by (simp add: is_scalar_def)
  ultimately show ?thesis
    using group_settings_round_trip[OF rack_group_documented, of rack_settings "[0xB0, 67]" "Some 50" "Some True"
        None None None None two_blocks "\<lambda>c. Com c []" "Internal []"]
    by (auto simp: rack_settings_def)
qed

end
