(* ===== verification/Handover.thy ===== *)
theory Handover
  imports Wrappers
begin

text \<open>
  Memory that a server hands over: the elements of a DA3 page (\<open>ComServer::browse_da3\<close>,
  \<open>backend/connector.rs\<close>), the attributes of items (\<open>ItemAttributeIterator\<close>,
  \<open>opc_da/client/iterator.rs\<close>) and the ProgID of a class (\<open>guid_to_progid\<close>, \<open>helpers.rs\<close>), with every block
  and who frees it. \<open>Connector\<close> has the same page without its memory; the page with memory
  refines it.
\<close>

section \<open>DA3 pages\<close>

text \<open>The properties of an element, which are not requested, are left out.\<close>

record native_element =
  el_name :: nat
  el_item_id :: nat
  el_flags :: u32

type_synonym owned_strings = "nat \<times> nat \<times> u32"

definition owned_of :: "native_element \<Rightarrow> owned_strings" where
  "owned_of e = (el_name e, el_item_id e, el_flags e)"

definition string_pointers :: "owned_strings list \<Rightarrow> nat list" where
  "string_pointers os = concat (map (\<lambda>(name, item_id, _). [name, item_id]) os)"

text \<open>The loop over the owned strings; \<open>?\<close> drops those that are left.\<close>

fun map_owned ::
  "(u32 \<Rightarrow> opc_error) \<Rightarrow> opc_error \<Rightarrow> owned_strings list \<Rightarrow> ('x, native_browse_element list) com_prog" where
  "map_owned win_error bad [] = ret []"
| "map_owned win_error bad ((name_ptr, item_ptr, flags) # rest) =
     bindp (attempt (string_of_pointer win_error bad name_ptr)) (\<lambda>r.
     case r of
       Inl e \<Rightarrow> seqp (drop_pointer item_ptr) (seqp (drop_all (string_pointers rest)) (throw e))
     | Inr name \<Rightarrow>
         bindp (attempt (option_string_of_pointer bad item_ptr)) (\<lambda>r.
         case r of
           Inl e \<Rightarrow> seqp (drop_all (string_pointers rest)) (throw e)
         | Inr item_id \<Rightarrow>
             bindp (map_owned win_error bad rest) (\<lambda>mapped.
             ret (\<lparr>ne_name = name, ne_item_id = nonempty item_id,
                   ne_has_children = ((and) flags OPC_BROWSE_HASCHILDREN \<noteq> 0),
                   ne_is_item = ((and) flags OPC_BROWSE_ISITEM \<noteq> 0)\<rparr> # mapped))))"

definition browse_da3_owned ::
  "(u32 \<Rightarrow> opc_error) \<Rightarrow> opc_error \<Rightarrow> opc_error + (native_element, 's) browse_interface \<Rightarrow> string option
     \<Rightarrow> string option \<Rightarrow> u32 \<Rightarrow> browse_node_filter \<Rightarrow> (native_element, 's, native_browse_page) memory_call" where
  "browse_da3_owned win_error bad itf item_id continuation max_elements filter_kind =
     bindp (browse_page_of bad itf item_id continuation max_elements (native_filter filter_kind)
              None None False False []) (\<lambda>(more_elements, continuation, elements).
     bindp (in_memory (array_as_slice items_of elements)) (\<lambda>els.
     bindp (attempt (in_memory (map_owned win_error bad (map owned_of els)))) (\<lambda>r.
     seqp (in_memory (drop_array elements))
       (bindp (lift_result r) (\<lambda>mapped.
        ret \<lparr>np_elements = mapped, np_more_elements = more_elements,
             np_continuation = nonempty continuation\<rparr>)))))"

section \<open>Item attributes\<close>

text \<open>
  The enumerator hands over an array of attributes, at most 16, and their number; the array before
  is dropped. What a conversion does not reach is dropped with the array, without its strings.
\<close>

record attribute_iterator =
  at_cache :: com_array
  at_index :: nat
  at_done :: bool

definition attribute_iterator_new :: attribute_iterator where
  "attribute_iterator_new = \<lparr>at_cache = array_empty, at_index = 0, at_done = False\<rparr>"

definition attribute_refill ::
  "(u32 \<Rightarrow> ('x, 's, nat \<times> u32) memory_call) \<Rightarrow> attribute_iterator
     \<Rightarrow> ('x, 's, ((opc_error + item_attributes) option + unit) \<times> attribute_iterator) memory_call" where
  "attribute_refill native_next it =
     bindp (attempt (native_next (of_nat MAX_CACHE_SIZE))) (\<lambda>r.
     case r of
       Inl e \<Rightarrow> ret (Inl (Some (Inl e)), it\<lparr>at_done := True\<rparr>)
     | Inr (p, count) \<Rightarrow>
         let attrs = array_from_ptr p count
         in if array_is_empty attrs then
              seqp (in_memory (drop_array attrs)) (ret (Inl None, it\<lparr>at_done := True\<rparr>))
            else seqp (in_memory (drop_array (at_cache it)))
                   (ret (Inr (), it\<lparr>at_cache := attrs, at_index := 0\<rparr>)))"

definition attribute_next ::
  "conversion_env \<Rightarrow> (u32 \<Rightarrow> (native_attributes, 's, nat \<times> u32) memory_call) \<Rightarrow> attribute_iterator
     \<Rightarrow> (native_attributes, 's, (opc_error + item_attributes) option \<times> attribute_iterator) memory_call" where
  "attribute_next env native_next it =
     (if at_done it then ret (None, it)
      else bindp (if unat (array_len (at_cache it)) \<le> at_index it then attribute_refill native_next it
                  else ret (Inr (), it)) (\<lambda>(r, it).
           case r of
             Inl out \<Rightarrow> ret (out, it)
           | Inr _ \<Rightarrow>
               bindp (in_memory (array_as_slice items_of (at_cache it))) (\<lambda>xs.
               if length xs \<le> at_index it then diverge
               else bindp (attempt (in_memory (item_attributes_of_native env (xs ! at_index it)))) (\<lambda>current.
                    ret (Some current, it\<lparr>at_index := at_index it + 1\<rparr>)))))"

text \<open>\<open>ItemMgtTrait::create_enumerator\<close>.\<close>

definition create_enumerator ::
  "('o \<Rightarrow> opc_error + 'h) \<Rightarrow> opc_error + ('w, 'o) com_call \<Rightarrow> ('w, 'h \<times> attribute_iterator) com_call" where
  "create_enumerator cast_to itf =
     bindp (lift_result itf) (\<lambda>native_create_enumerator.
     bindp native_create_enumerator (\<lambda>enumerator.
     bindp (lift_result (cast_to enumerator)) (\<lambda>h. ret (h, attribute_iterator_new))))"

section \<open>ProgIDs\<close>

text \<open>\<open>progid_from_clsid\<close> hands over a string, or null; \<open>bad\<close> is the text of the conversion error.\<close>

definition guid_to_progid_owned ::
  "('g \<Rightarrow> ('x com_memory, string, nat) prog) \<Rightarrow> string \<Rightarrow> 'g \<Rightarrow> ('x, string) com_prog" where
  "guid_to_progid_owned progid_from_clsid bad guid =
     bindp (map_errp (\<lambda>e. Internal (''Failed to get ProgID from CLSID: '' @ e)) (progid_from_clsid guid)) (\<lambda>progid.
     bindp (if progid = 0 then ret []
            else pwstr_to_string (Conversion (''Failed into convert PWSTR: '' @ bad)) progid) (\<lambda>result.
     seqp (if progid \<noteq> 0 then task_free progid else ret ()) (ret result)))"

section \<open>What is read and what is freed\<close>

text \<open>A pointer as the string that \<open>Connector\<close> has for it.\<close>

definition wide_at :: "u32 \<Rightarrow> string \<Rightarrow> 'x com_memory \<Rightarrow> nat \<Rightarrow> pwstr" where
  "wide_at code t m p =
     (if p = 0 then PNull
      else case hm_get (cm_blocks m) p of
             Some (Wide us) \<Rightarrow> (case decode_utf16 (as_wide us) of Some s \<Rightarrow> PText s | None \<Rightarrow> PBad code t)
           | _ \<Rightarrow> PNull)"

definition wide_there :: "'x com_memory \<Rightarrow> nat \<Rightarrow> bool" where
  "wide_there m p \<longleftrightarrow> p = 0 \<or> (\<exists>us. hm_get (cm_blocks m) p = Some (Wide us) \<and> 0 \<in> set us)"

definition raw_of :: "u32 \<Rightarrow> string \<Rightarrow> 'x com_memory \<Rightarrow> owned_strings \<Rightarrow> raw_element" where
  "raw_of code t m = (\<lambda>(name, item_id, flags).
     \<lparr>re_name = wide_at code t m name, re_item_id = wide_at code t m item_id, re_flags = flags\<rparr>)"

fun map_raw :: "raw_element list \<Rightarrow> opc_error + native_browse_element list" where
  "map_raw [] = Inr []"
| "map_raw (e # es) = (case map_raw_element e of Inl err \<Rightarrow> Inl err
     | Inr x \<Rightarrow> (case map_raw es of Inl err \<Rightarrow> Inl err | Inr xs \<Rightarrow> Inr (x # xs)))"

lemma for_each_map_raw: "for_each es (\<lambda>e. lift_result (map_raw_element e)) w = Some (map_raw es, w)"
  by (induction es) (simp_all add: prog_defs split: sum.split)

lemma removed_removed: "removed qs (removed ps m) = removed (ps @ qs) m"
  by (auto simp: removed_def owned_def intro!: filter_cong)

lemma removed_cong: "set ps = set qs \<Longrightarrow> removed ps m = removed qs m"
  by (simp add: removed_def owned_def)

lemma removed_one: "p \<noteq> 0 \<Longrightarrow> m\<lparr>cm_blocks := hm_remove p (cm_blocks m)\<rparr> = removed [p] m"
  by (simp add: removed_def owned_def hm_remove_def)

lemma removed_null [simp]: "removed [] m = m" "removed (0 # ps) m = removed ps m"
  by (simp_all add: removed_def owned_def)

lemma string_of_owned:
  assumes "wide_there m p" and "win_error E_POINTER = Com E_POINTER []"
  shows "string_of_pointer win_error (Com code t) p m = Some (string_of_pwstr (wide_at code t m p), removed [p] m)"
proof (cases "p = 0")
  case True
  then show ?thesis by (simp add: string_of_null assms wide_at_def)
next
  case False
  with assms(1) obtain us where us: "hm_get (cm_blocks m) p = Some (Wide us)" "0 \<in> set us"
    by (auto simp: wide_there_def)
  show ?thesis
    using string_of_pointer_reads[OF us False, of win_error "Com code t"] us False
    by (simp add: removed_one wide_at_def split: option.split)
qed

lemma option_string_of_owned:
  assumes "wide_there m p"
  shows "option_string_of_pointer (Com code t) p m = Some (option_of_pwstr (wide_at code t m p), removed [p] m)"
proof (cases "p = 0")
  case True
  then show ?thesis by (simp add: option_string_of_pointer_def prog_defs wide_at_def)
next
  case False
  with assms(1) obtain us where us: "hm_get (cm_blocks m) p = Some (Wide us)" "0 \<in> set us"
    by (auto simp: wide_there_def)
  then show ?thesis
    using False by (cases "decode_utf16 (as_wide us)")
      (simp_all add: option_string_of_pointer_def pwstr_to_string_def block_at_def prog_defs drop_pointer_run
        contains_get wide_at_def removed_one)
qed

lemma wide_there_removed: "wide_there m q \<Longrightarrow> q \<notin> set ps \<or> q = 0 \<Longrightarrow> wide_there (removed ps m) q"
  by (auto simp: wide_there_def removed_get)

lemma wide_at_removed: "q \<notin> set ps \<or> q = 0 \<Longrightarrow> wide_at code t (removed ps m) q = wide_at code t m q"
  by (auto simp: wide_at_def removed_get)

definition all_owned :: "'x com_memory \<Rightarrow> nat list \<Rightarrow> bool" where
  "all_owned m ps \<longleftrightarrow> distinct (owned ps) \<and> (\<forall>p \<in> set ps. wide_there m p)"

lemma drop_all_owned: "all_owned m ps \<Longrightarrow> drop_all ps m = Some (Inr (), removed ps m)"
  by (force simp: all_owned_def drop_all_run owned_def wide_there_def contains_get)

lemma all_owned_Cons: "all_owned m (p # ps) \<Longrightarrow> wide_there m p \<and> all_owned (removed [p] m) ps"
  by (force simp: all_owned_def owned_def intro: wide_there_removed split: if_splits)

lemma all_owned_later:
  assumes "all_owned m (p # ps)" and "q \<in> set ps"
  shows "wide_at code t (removed [p] m) q = wide_at code t m q"
  using assms by (intro wide_at_removed) (auto simp: all_owned_def owned_def split: if_splits)

lemma raw_of_later:
  assumes "all_owned m (p # q # string_pointers os)"
  shows "map (raw_of code t (removed [p, q] m)) os = map (raw_of code t m) os"
proof (rule map_cong[OF refl])
  fix o'
  assume "o' \<in> set os"
  obtain name item_id flags where o': "o' = (name, item_id, flags)" by (cases o')
  with \<open>o' \<in> set os\<close> have mem: "name \<in> set (string_pointers os)" "item_id \<in> set (string_pointers os)"
    by (force simp: string_pointers_def)+
  then have "wide_at code t (removed [p, q] m) x = wide_at code t m x" if "x = name \<or> x = item_id" for x
    using assms that by (intro wide_at_removed) (auto simp: all_owned_def owned_def split: if_splits)
  then show "raw_of code t (removed [p, q] m) o' = raw_of code t m o'" by (simp add: raw_of_def o')
qed

lemma drop_item_and_rest:
  "seqp (drop_pointer p) (seqp (drop_all ps) (throw e)) m = seqp (drop_all (p # ps)) (throw e) m"
  by (simp add: seqp_def bindp_assoc)

lemma map_owned_refines:
  assumes "all_owned m (string_pointers os)" and "win_error E_POINTER = Com E_POINTER []"
  shows "map_owned win_error (Com code t) os m =
    Some (map_raw (map (raw_of code t m) os), removed (string_pointers os) m)"
  using assms(1)
proof (induction os arbitrary: m)
  case Nil
  then show ?case by (simp add: ret_def string_pointers_def)
next
  case (Cons o' os)
  obtain n i flags where o': "o' = (n, i, flags)" by (cases o')
  let ?rest = "string_pointers os"
  have ps: "string_pointers (o' # os) = n # i # ?rest" by (simp add: string_pointers_def o')
  with Cons.prems have all: "all_owned m (n # i # ?rest)" by simp
  have all1: "wide_there m n" "all_owned (removed [n] m) (i # ?rest)" using all_owned_Cons[OF all] by simp_all
  have all2: "wide_there (removed [n] m) i" "all_owned (removed [n, i] m) ?rest"
    using all_owned_Cons[OF all1(2)] by (simp_all add: removed_removed)
  have item_text: "wide_at code t (removed [n] m) i = wide_at code t m i" by (rule all_owned_later[OF all]) simp
  note first = string_of_owned[of m n win_error code t, OF all1(1) assms(2)]
  note second = option_string_of_owned[OF all2(1), of code t, unfolded item_text removed_removed, simplified]
  have raw: "map (raw_of code t m) (o' # os) =
      \<lparr>re_name = wide_at code t m n, re_item_id = wide_at code t m i, re_flags = flags\<rparr> # map (raw_of code t m) os"
    by (simp add: raw_of_def o')
  show ?case
  proof (cases "string_of_pwstr (wide_at code t m n)")
    case (Inl e)
    have "map_owned win_error (Com code t) (o' # os) m = seqp (drop_all (i # ?rest)) (throw e) (removed [n] m)"
      using first Inl by (simp add: o' bindp_def attempt_def drop_item_and_rest del: drop_all.simps)
    also have "\<dots> = Some (Inl e, removed (n # i # ?rest) m)"
      using drop_all_owned[OF all1(2)] by (simp add: prog_defs removed_removed del: drop_all.simps)
    finally show ?thesis unfolding ps raw using Inl by (simp add: map_raw_element_def)
  next
    case name: (Inr name)
    show ?thesis
    proof (cases "option_of_pwstr (wide_at code t m i)")
      case (Inl e)
      have "map_owned win_error (Com code t) (o' # os) m = seqp (drop_all ?rest) (throw e) (removed [n, i] m)"
        using first second name Inl by (simp add: o' bindp_def attempt_def)
      also have "\<dots> = Some (Inl e, removed (n # i # ?rest) m)"
        using drop_all_owned[OF all2(2)] by (simp add: prog_defs removed_removed)
      finally show ?thesis unfolding ps raw using name Inl by (simp add: map_raw_element_def)
    next
      case (Inr item_id)
      note rest = Cons.IH[OF all2(2), unfolded raw_of_later[OF all] removed_removed, simplified]
      show ?thesis
        unfolding ps raw using first second rest name Inr
        by (simp add: o' bindp_def attempt_def ret_def map_raw_element_def split: sum.split)
    qed
  qed
qed

text \<open>
  A page as a server hands it over: an array of as many elements as it counts, or null when there are
  none; the strings of the elements and the continuation point are null or own blocks.
\<close>

definition handed_over :: "native_element com_memory \<Rightarrow> nat \<Rightarrow> nat \<Rightarrow> u32 \<Rightarrow> native_element list \<Rightarrow> bool" where
  "handed_over m p arr count els \<longleftrightarrow>
     unat count = length els \<and> (els = [] \<or> arr \<noteq> 0) \<and>
     (arr \<noteq> 0 \<longrightarrow> hm_get (cm_blocks m) arr = Some (Items els)) \<and>
     all_owned m (p # string_pointers (map owned_of els))"

definition da3_request :: "string option \<Rightarrow> u32 \<Rightarrow> browse_node_filter \<Rightarrow> browse_arguments" where
  "da3_request item_id max_elements filter_kind =
     \<lparr>ba_item_id = Some (to_wide (text_or_empty item_id)), ba_max_elements = max_elements,
      ba_browse_filter = native_filter filter_kind, ba_element_name_filter = Some (to_wide []),
      ba_vendor_filter = Some (to_wide []), ba_return_all_properties = False,
      ba_return_property_values = False, ba_property_ids = []\<rparr>"

definition page_array :: "nat \<Rightarrow> u32 \<Rightarrow> com_array" where
  "page_array arr count = (if count > 0 then array_set_len count (array_from_ptr arr 0) else array_from_ptr arr 0)"

lemma page_array_pointer [simp]: "ca_pointer (page_array arr count) = arr"
  by (simp add: page_array_def array_set_len_def array_from_ptr_def)

lemma page_array_slice:
  assumes "unat count = length els" and "els = [] \<or> arr \<noteq> 0"
    and "arr \<noteq> 0 \<longrightarrow> hm_get (cm_blocks m) arr = Some (Items els)"
  shows "array_as_slice items_of (page_array arr count) m = Some (Inr els, m)"
proof (cases "count = 0 \<or> arr = 0")
  case True
  with assms have "els = []" by auto
  moreover have "ca_len (page_array arr count) = 0 \<or> arr = 0"
    using True by (auto simp: page_array_def array_from_ptr_def)
  ultimately show ?thesis by (auto simp: array_as_slice_def ret_def)
next
  case False
  then have "ca_len (page_array arr count) = count"
    by (simp add: page_array_def array_set_len_def array_from_ptr_def word_neq_0_conv)
  with False assms show ?thesis by (simp add: array_as_slice_def bindp_def block_at_def ret_def)
qed

lemma other_block: "wide_there m q \<Longrightarrow> arr \<noteq> 0 \<longrightarrow> hm_get (cm_blocks m) arr = Some (Items els) \<Longrightarrow> q = 0 \<or> q \<noteq> arr"
  by (auto simp: wide_there_def)

lemma drop_page_array:
  assumes "arr \<noteq> 0 \<longrightarrow> hm_get (cm_blocks m) arr = Some (Items els)"
  shows "drop_array (page_array arr count) m = Some (Inr (), removed [arr] m)"
  using assms by (simp add: drop_array_def drop_pointer_run contains_get removed_one)

text \<open>What the call yields, with the continuation point read and freed.\<close>

lemma browse_page_outcome:
  assumes lent: "pointer_from_option pointer_of_str continuation m = Some (Inr p, m0)"
    and call: "br_Browse i (da3_request item_id max_elements filter_kind) p (m0, s)
      = Some (Inr (p', Inr (more_elements, count, arr)), (m1, s1))"
    and there: "wide_there m1 p'"
    and block: "arr \<noteq> 0 \<longrightarrow> hm_get (cm_blocks (removed [p'] m1)) arr = Some (Items els)"
  shows "browse_page_of (Com code t) (Inr i) item_id continuation max_elements (native_filter filter_kind)
      None None False False [] (m, s) =
    (case option_of_pwstr (wide_at code t m1 p') of
       Inl e \<Rightarrow> Some (Inl e, (removed [p', arr] m1, s1))
     | Inr cont \<Rightarrow> Some (Inr (more_elements \<noteq> 0, cont, page_array arr count), (removed [p'] m1, s1)))"
  using lent call option_string_of_owned[OF there, of code t] drop_page_array[OF block, of count]
  by (simp add: browse_page_of_def bindp_def in_memory_run as_pwstr_def local_wide_def text_or_empty_def[of None]
      da3_request_def attempt_def ret_def page_array_def[symmetric] Let_def seqp_def throw_def removed_removed
      split: sum.split)


text \<open>A server with one page of two elements, the second without an item ID.\<close>

definition rack_memory :: "native_element com_memory" where
  "rack_memory = \<lparr>cm_blocks = [], cm_draws = [4]\<rparr>"

definition rack_elements :: "native_element list" where
  "rack_elements = [\<lparr>el_name = 16, el_item_id = 24, el_flags = 2\<rparr>, \<lparr>el_name = 32, el_item_id = 0, el_flags = 1\<rparr>]"

definition rack_page :: "(nat \<times> native_element block) list" where
  "rack_page = [(8, Items rack_elements), (16, Wide [65, 0]), (24, Wide [66, 0]), (32, Wide [67, 0])]"

definition rack_browse :: "(native_element, unit) browse_interface" where
  "rack_browse = \<lparr>
     br_Browse = (\<lambda>args p (m, s). Some (Inr (0, Inr (0, 2, 8)), (m\<lparr>cm_blocks := rack_page\<rparr>, s))),
     br_GetProperties = (\<lambda>_ _ _ (m, s). Some (Inr 0, (m, s)))\<rparr>"


section \<open>A ProgID that is not UTF-16 is lost\<close>

text \<open>
  C27. \<open>guid_to_progid\<close> yields the text of the ProgID and frees it, so that it agrees with
  \<open>guid_to_progid\<close> of \<open>Helpers\<close>; but when the ProgID is not UTF-16 the early return leaves it
  allocated.
\<close>

theorem progids_are_freed_unless_undecodable:
  assumes handed: "progid_from_clsid guid m = Some (Inr p, m1)" and there: "wide_there m1 p"
  shows "guid_to_progid_owned progid_from_clsid bad guid m =
    Some (guid_to_progid (\<lambda>_. Inr (wide_at code bad m1 p)) guid,
      if \<exists>c t. wide_at code bad m1 p = PBad c t then m1 else removed [p] m1)"
proof (cases "p = 0")
  case True
  with handed show ?thesis
    by (simp add: guid_to_progid_owned_def guid_to_progid_def wide_at_def prog_defs)
next
  case False
  with there obtain us where us: "hm_get (cm_blocks m1) p = Some (Wide us)" "0 \<in> set us"
    by (auto simp: wide_there_def)
  with False handed show ?thesis
    by (cases "decode_utf16 (as_wide us)")
      (simp_all add: guid_to_progid_owned_def guid_to_progid_def wide_at_def prog_defs pwstr_to_string_def
        block_at_def task_free_def contains_get removed_one)
qed

theorem progids_are_freed_unless_undecodable_witness:
  "\<exists>m. guid_to_progid_owned (\<lambda>_ m. Some (Inr 8, m)) [] () (\<lparr>cm_blocks = [(8, Wide [0xD800, 0])], cm_draws = []\<rparr> :: unit com_memory)
    = Some (Inl (Conversion ''Failed into convert PWSTR: ''), m) \<and> hm_contains (cm_blocks m) 8"
proof -
  let ?m = "\<lparr>cm_blocks = [(8, Wide [0xD800, 0])], cm_draws = []\<rparr> :: unit com_memory"
  have "wide_there ?m 8" by (simp add: wide_there_def hm_get_def)
  moreover have "wide_at 7 [] ?m 8 = PBad 7 []"
    by (simp add: wide_at_def hm_get_def as_wide_def is_high_def)
  ultimately show ?thesis
    using progids_are_freed_unless_undecodable[of "\<lambda>_ m. Some (Inr 8, m)" "()" ?m 8 ?m "[]" 7]
    by (simp add: guid_to_progid_def hm_contains_def)
qed

end
